(* ===== verification/Prelude.thy ===== *)
theory Prelude
  imports Main "HOL-Library.Word" "HOL-Library.Multiset"
begin

text \<open>
  Shared vocabulary of the development: the machine-integer types of the Go program, the
  64-bit wrap-around of Go's \<open>int\<close> and \<open>time.Duration\<close>, the representation of run-time
  panics, and the generic lemmas on lists, maps and words that several components use.

  A Go \<open>string\<close> and a \<open>[]byte\<close> used as text are HOL strings: a \<open>char\<close> is one byte, so
  \<open>length\<close> is Go's \<open>len\<close>. A function of the program that can panic returns an \<open>option\<close>,
  with \<open>None\<close> for the panic.
\<close>

named_theorems go_defs \<open>definitions of small helpers, unfolded together\<close>

named_theorems wf_intros \<open>preservation of well-formedness invariants\<close>

type_synonym u8 = "8 word"

type_synonym u16 = "16 word"

type_synonym u32 = "32 word"

type_synonym u64 = "64 word"

text \<open>Go's \<open>int\<close>, \<open>int64\<close> and \<open>time.Duration\<close>: two's complement on 64 bits.\<close>

definition wrap64 :: "int \<Rightarrow> int" where
  "wrap64 x = (x + 2 ^ 63) mod 2 ^ 64 - 2 ^ 63"

lemma wrap64_id: "- (2 ^ 63) \<le> x \<Longrightarrow> x < 2 ^ 63 \<Longrightarrow> wrap64 x = x"
  by (simp add: wrap64_def)

text \<open>
  Instants are integers (nanoseconds since the zero instant of Go's \<open>time\<close> package), so
  \<open>t.IsZero()\<close> is \<open>t = 0\<close>; \<open>t.Sub(u)\<close> saturates at the ends of the \<open>Duration\<close> range.
\<close>

type_synonym instant = int

definition second :: int where
  "second = 1000000000"

definition time_Sub :: "instant \<Rightarrow> instant \<Rightarrow> int" where
  "time_Sub t u = max (- (2 ^ 63)) (min (2 ^ 63 - 1) (t - u))"

section \<open>Lists\<close>

lemma foldl_invariant:
  assumes "P s" and "\<And>s x. x \<in> set xs \<Longrightarrow> P s \<Longrightarrow> P (f s x)"
  shows "P (foldl f s xs)"
  using assms by (induction xs arbitrary: s) auto

lemma take_eq_length: "take (length r) s = r \<Longrightarrow> r \<noteq> [] \<Longrightarrow> s \<noteq> []"
  by auto

section \<open>Early returns\<close>

text \<open>A chain of guards that each return early is passed exactly when no guard fires.\<close>

lemma guard_None: "(if A then Some x else e) = None \<longleftrightarrow> \<not> A \<and> e = None"
  by simp

lemma guard_Inr: "(if A then Inl x else e) = Inr y \<longleftrightarrow> \<not> A \<and> e = Inr y"
  by simp

lemmas guards = guard_None guard_Inr

text \<open>Sequencing of calls that may fail: \<open>if err != nil { return err }\<close>.\<close>

definition and_then :: "'e + 'a \<Rightarrow> ('a \<Rightarrow> 'e + 'b) \<Rightarrow> 'e + 'b" where
  "and_then r f = (case r of Inl e \<Rightarrow> Inl e | Inr x \<Rightarrow> f x)"

lemma and_then_simps [simp]: "and_then (Inl e) f = Inl e" "and_then (Inr x) f = f x"
  by (simp_all add: and_then_def)

lemma and_then_Inr: "and_then r f = Inr y \<longleftrightarrow> (\<exists>x. r = Inr x \<and> f x = Inr y)"
  by (cases r) simp_all

lemma and_then_cong [fundef_cong]:
  "r = r' \<Longrightarrow> (\<And>x. r' = Inr x \<Longrightarrow> f x = g x) \<Longrightarrow> and_then r f = and_then r' g"
  by (cases r') simp_all

definition with_err :: "('e \<Rightarrow> 'f) \<Rightarrow> 'e + 'a \<Rightarrow> 'f + 'a" where
  "with_err f r = (case r of Inl e \<Rightarrow> Inl (f e) | Inr x \<Rightarrow> Inr x)"

lemma with_err_simps [simp]: "with_err f (Inl e) = Inl (f e)" "with_err f (Inr x) = Inr x"
  by (simp_all add: with_err_def)

lemma with_err_Inr [simp]: "with_err f r = Inr x \<longleftrightarrow> r = Inr x"
  by (cases r) simp_all

section \<open>Histories\<close>

text \<open>What every step of a system keeps, every history keeps.\<close>

locale kept_by_steps =
  fixes step :: "'s \<Rightarrow> 's \<Rightarrow> bool" and inv :: "'s \<Rightarrow> bool"
  assumes kept: "step s s' \<Longrightarrow> inv s \<Longrightarrow> inv s'"
begin

lemma all_kept: "step\<^sup>*\<^sup>* s s' \<Longrightarrow> inv s \<Longrightarrow> inv s'"
  by (induction rule: rtranclp_induct) (blast intro: kept)+

end

section \<open>Words\<close>

lemma unat_plus_le:
  fixes x y :: "'a::len word"
  assumes "unat x + unat y < 2 ^ LENGTH('a)"
  shows "unat (x + y) = unat x + unat y"
  using assms by (simp add: unat_word_ariths)

lemma unat_minus_le:
  fixes x y :: "'a::len word"
  assumes "unat y \<le> unat x"
  shows "unat (x - y) = unat x - unat y"
  using assms by (simp add: unat_sub word_le_nat_alt)

lemma unat_u16_bound: "unat (w :: u16) < 65536"
proof -
  have "unat w < 2 ^ LENGTH(16)" by (rule unsigned_less)
  then show ?thesis by simp
qed

end
