(* ===== verification/GoStrings.thy ===== *)
theory GoStrings
  imports Prelude
begin

text \<open>
  The parts of Go's \<open>strings\<close>, \<open>strconv\<close> and \<open>unicode/utf8\<close> packages that the program
  uses, on byte strings: \<open>TrimSpace\<close>, \<open>ToUpper\<close>, \<open>RuneCountInString\<close>, \<open>ParseUint\<close>,
  \<open>Atoi\<close>, \<open>FormatUint\<close> and \<open>Itoa\<close>, with the facts about them that the components need
  (trimming is idempotent, decimal text parses back to the number it prints).
\<close>

section \<open>Trimming\<close>

text \<open>
  The UTF-8 encodings of the code points for which \<open>unicode.IsSpace\<close> holds. Removing a
  leading or trailing space rune is removing one of these byte strings: an invalid UTF-8
  sequence decodes to U+FFFD, which is no space.
\<close>

definition space_runes :: "string list" where
  "space_runes =
     map (\<lambda>n. [char_of (n::nat)]) [9, 10, 11, 12, 13, 32] @
     map (map char_of) ([[0xC2, 0x85], [0xC2, 0xA0], [0xE1, 0x9A, 0x80]] @
       map (\<lambda>n. [0xE2, 0x80, n]) [0x80 ..< 0x8B] @
       [[0xE2, 0x80, 0xA8], [0xE2, 0x80, 0xA9], [0xE2, 0x80, 0xAF], [0xE2, 0x81, 0x9F],
        [0xE3, 0x80, 0x80 :: nat]])"

definition starts_with :: "string list \<Rightarrow> string \<Rightarrow> string option" where
  "starts_with rs s = find (\<lambda>r. r \<noteq> [] \<and> take (length r) s = r) rs"

function trim_left_of :: "string list \<Rightarrow> string \<Rightarrow> string" where
  "trim_left_of rs s =
     (case starts_with rs s of None \<Rightarrow> s | Some r \<Rightarrow> trim_left_of rs (drop (length r) s))"
  by pat_completeness auto
termination
  by (relation "measure (\<lambda>(rs, s). length s)")
    (auto simp: starts_with_def find_Some_iff dest: take_eq_length)

declare trim_left_of.simps [simp del]

definition trim_right_of :: "string list \<Rightarrow> string \<Rightarrow> string" where
  "trim_right_of rs s = rev (trim_left_of (map rev rs) (rev s))"

definition TrimSpace :: "string \<Rightarrow> string" where
  "TrimSpace s = trim_right_of space_runes (trim_left_of space_runes s)"

lemma starts_with_None_take:
  "starts_with rs s = None \<Longrightarrow> starts_with rs (take n s) = None"
  by (auto simp: starts_with_def find_None_iff min_def split: if_splits)

lemma starts_with_trim_left: "starts_with rs (trim_left_of rs s) = None"
  by (induction rs s rule: trim_left_of.induct)
    (subst trim_left_of.simps, auto split: option.splits)

lemma trim_left_of_None: "starts_with rs s = None \<Longrightarrow> trim_left_of rs s = s"
  by (subst trim_left_of.simps) simp

lemma trim_left_idem [simp]: "trim_left_of rs (trim_left_of rs s) = trim_left_of rs s"
  by (simp add: trim_left_of_None starts_with_trim_left)

lemma trim_left_suffix: "\<exists>n. trim_left_of rs s = drop n s"
proof (induction rs s rule: trim_left_of.induct)
  case (1 rs s)
  show ?case
  proof (cases "starts_with rs s")
    case None
    then show ?thesis by (metis drop_0 trim_left_of_None)
  next
    case (Some r)
    with 1 obtain n where "trim_left_of rs (drop (length r) s) = drop n (drop (length r) s)"
      by blast
    with Some show ?thesis by (subst trim_left_of.simps) (auto simp: drop_drop)
  qed
qed

lemma trim_right_prefix: "\<exists>n. trim_right_of rs s = take n s"
  using trim_left_suffix [of "map rev rs" "rev s"]
  by (auto simp: trim_right_of_def rev_drop)

lemma trim_right_idem [simp]: "trim_right_of rs (trim_right_of rs s) = trim_right_of rs s"
  by (simp add: trim_right_of_def)

lemma TrimSpace_idem [simp]: "TrimSpace (TrimSpace s) = TrimSpace s"
proof -
  let ?l = "trim_left_of space_runes s"
  obtain n where n: "trim_right_of space_runes ?l = take n ?l"
    using trim_right_prefix by blast
  have "starts_with space_runes (take n ?l) = None"
    by (rule starts_with_None_take) (rule starts_with_trim_left)
  then show ?thesis
    by (metis TrimSpace_def n trim_left_of_None trim_right_idem)
qed

lemma length_TrimSpace: "length (TrimSpace s) \<le> length s"
proof -
  obtain n where "TrimSpace s = take n (trim_left_of space_runes s)"
    using trim_right_prefix by (auto simp: TrimSpace_def)
  moreover obtain m where "trim_left_of space_runes s = drop m s"
    using trim_left_suffix by blast
  ultimately show ?thesis by simp
qed

text \<open>A string whose first and last byte are printable ASCII is already trimmed.\<close>

definition ascii_word_char :: "char \<Rightarrow> bool" where
  "ascii_word_char c \<longleftrightarrow> (32 < (of_char c :: nat) \<and> (of_char c :: nat) < 128)"

lemma space_rune_bytes:
  assumes "r \<in> set space_runes" "c \<in> set r"
  shows "\<not> ascii_word_char c"
  using assms by (auto simp: space_runes_def ascii_word_char_def)

lemma starts_with_word:
  assumes "\<And>r c. r \<in> set rs \<Longrightarrow> c \<in> set r \<Longrightarrow> \<not> ascii_word_char c" and "ascii_word_char x"
  shows "starts_with rs (x # s) = None"
proof -
  have "\<not> (r \<noteq> [] \<and> take (length r) (x # s) = r)" if r: "r \<in> set rs" for r
  proof
    assume a: "r \<noteq> [] \<and> take (length r) (x # s) = r"
    then have "hd r = x" by (cases r) auto
    with a have "x \<in> set r" by (metis hd_in_set)
    with assms r show False by blast
  qed
  then show ?thesis by (auto simp: starts_with_def find_None_iff)
qed

lemma TrimSpace_id:
  assumes "s = [] \<or> ascii_word_char (hd s) \<and> ascii_word_char (last s)"
  shows "TrimSpace s = s"
proof (cases "s = []")
  case True
  have "starts_with rs [] = None" for rs by (auto simp: starts_with_def find_None_iff)
  with True show ?thesis
    by (simp add: TrimSpace_def trim_right_of_def trim_left_of_None)
next
  case False
  with assms obtain x xs y ys where s: "s = x # xs" "rev s = y # ys"
    "ascii_word_char x" "ascii_word_char y"
    by (metis hd_rev list.collapse rev_is_Nil_conv)
  have "starts_with space_runes s = None"
    using s starts_with_word [of space_runes x xs] space_rune_bytes by simp
  moreover have "starts_with (map rev space_runes) (rev s) = None"
    unfolding s(2) using s(4) by (intro starts_with_word) (auto dest: space_rune_bytes)
  ultimately show ?thesis
    by (simp add: TrimSpace_def trim_right_of_def trim_left_of_None)
qed

lemma space_runes_space:
  "\<exists>rest. space_runes = map (\<lambda>n. [char_of (n::nat)]) [9, 10, 11, 12, 13] @ '' '' # rest"
proof -
  have "space_runes = map (\<lambda>n. [char_of (n::nat)]) [9, 10, 11, 12, 13] @ [char_of (32::nat)] # drop 6 space_runes"
    by (simp add: space_runes_def)
  moreover have "char_of (32::nat) = CHR '' ''" by code_simp
  ultimately show ?thesis by metis
qed

lemma starts_with_space:
  "starts_with space_runes (CHR '' '' # s) = Some '' ''"
  "starts_with (map rev space_runes) (CHR '' '' # s) = Some '' ''"
proof -
  obtain rest where r: "space_runes = map (\<lambda>n. [char_of (n::nat)]) [9, 10, 11, 12, 13] @ '' '' # rest"
    using space_runes_space by blast
  have "\<forall>n\<in>set [9, 10, 11, 12, 13::nat]. CHR '' '' \<noteq> char_of n"
    by (simp add: char_of_eq_iff eq_commute [of "CHR '' ''"])
  then show "starts_with space_runes (CHR '' '' # s) = Some '' ''"
    "starts_with (map rev space_runes) (CHR '' '' # s) = Some '' ''"
    by (simp_all add: starts_with_def r)
qed

text \<open>A blank in front or behind is removed.\<close>

lemma TrimSpace_pad:
  assumes "s \<noteq> []" "ascii_word_char (hd s)" "ascii_word_char (last s)"
  shows "TrimSpace (CHR '' '' # s @ '' '') = s"
proof -
  have s: "starts_with space_runes (s @ '' '') = None"
    using assms starts_with_word [OF space_rune_bytes, where x = "hd s" and s = "tl s @ '' ''"]
    by (cases s) auto
  have r: "starts_with (map rev space_runes) (rev s) = None"
  proof -
    have "rev s = last s # rev (butlast s)" using assms(1) by (metis append_butlast_last_id rev.simps(2) rev_append rev_rev_ident rev_singleton_conv append_Cons append_Nil)
    moreover have "starts_with (map rev space_runes) (last s # rev (butlast s)) = None"
      by (rule starts_with_word) (use space_rune_bytes assms(3) in auto)
    ultimately show ?thesis by (simp only:)
  qed
  have "trim_left_of space_runes (CHR '' '' # s @ '' '') = s @ '' ''"
    using starts_with_space(1) [of "s @ '' ''"]
    by (simp add: trim_left_of.simps [of _ "CHR '' '' # s @ '' ''"] trim_left_of_None [OF s])
  moreover have "trim_left_of (map rev space_runes) (CHR '' '' # rev s) = rev s"
    using starts_with_space(2) [of "rev s"]
    by (simp add: trim_left_of.simps [of _ "CHR '' '' # rev s"] trim_left_of_None [OF r])
  ultimately show ?thesis by (simp add: TrimSpace_def trim_right_of_def)
qed

section \<open>Case conversion\<close>

text \<open>
  \<open>strings.ToUpper\<close> and \<open>strings.ToLower\<close>: byte-wise on a pure ASCII string; on any other
  string the Unicode case tables decide, which are the parameter \<open>uni\<close>.
\<close>

definition is_ascii :: "string \<Rightarrow> bool" where
  "is_ascii s \<longleftrightarrow> list_all (\<lambda>c. (of_char c :: nat) < 128) s"

definition upper_char :: "char \<Rightarrow> char" where
  "upper_char c = (if 97 \<le> (of_char c :: nat) \<and> (of_char c :: nat) \<le> 122
     then char_of ((of_char c :: nat) - 32) else c)"

definition lower_char :: "char \<Rightarrow> char" where
  "lower_char c = (if 65 \<le> (of_char c :: nat) \<and> (of_char c :: nat) \<le> 90
     then char_of ((of_char c :: nat) + 32) else c)"

definition ToUpper :: "(string \<Rightarrow> string) \<Rightarrow> string \<Rightarrow> string" where
  "ToUpper uni s = (if is_ascii s then map upper_char s else uni s)"

definition ToLower :: "(string \<Rightarrow> string) \<Rightarrow> string \<Rightarrow> string" where
  "ToLower uni s = (if is_ascii s then map lower_char s else uni s)"

section \<open>Rune counting\<close>

text \<open>
  The width of the first rune of a non-empty string as \<open>utf8.RuneCountInString\<close> walks it:
  an invalid lead byte, a truncated sequence or a byte outside the accepted range counts as
  a rune of width 1.
\<close>

definition is_cont :: "nat \<Rightarrow> nat \<Rightarrow> nat \<Rightarrow> bool" where
  "is_cont lo hi b \<longleftrightarrow> lo \<le> b \<and> b \<le> hi"

definition rune_width :: "nat list \<Rightarrow> nat" where
  "rune_width bs =
     (case bs of
        b0 # b1 # rest \<Rightarrow>
          if 0xC2 \<le> b0 \<and> b0 \<le> 0xDF then (if is_cont 0x80 0xBF b1 then 2 else 1)
          else if 0xE0 \<le> b0 \<and> b0 \<le> 0xEF then
            (case rest of
               b2 # _ \<Rightarrow>
                 if is_cont (if b0 = 0xE0 then 0xA0 else 0x80) (if b0 = 0xED then 0x9F else 0xBF) b1
                   \<and> is_cont 0x80 0xBF b2 then 3 else 1
             | [] \<Rightarrow> 1)
          else if 0xF0 \<le> b0 \<and> b0 \<le> 0xF4 then
            (case rest of
               b2 # b3 # _ \<Rightarrow>
                 if is_cont (if b0 = 0xF0 then 0x90 else 0x80) (if b0 = 0xF4 then 0x8F else 0xBF) b1
                   \<and> is_cont 0x80 0xBF b2 \<and> is_cont 0x80 0xBF b3 then 4 else 1
             | _ \<Rightarrow> 1)
          else 1
      | _ \<Rightarrow> 1)"

lemma rune_width_pos: "0 < rune_width bs"
  by (auto simp: rune_width_def split: list.splits)

function rune_count :: "nat list \<Rightarrow> nat" where
  "rune_count bs = (if bs = [] then 0 else Suc (rune_count (drop (rune_width bs) bs)))"
  by pat_completeness auto
termination
  by (relation "measure length") (auto simp: rune_width_pos)

declare rune_count.simps [simp del]

definition RuneCountInString :: "string \<Rightarrow> nat" where
  "RuneCountInString s = rune_count (map of_char s)"

lemma rune_count_le: "rune_count bs \<le> length bs"
proof (induction bs rule: rune_count.induct)
  case (1 bs)
  show ?case
  proof (cases "bs = []")
    case False
    with 1 have "rune_count (drop (rune_width bs) bs) \<le> length bs - rune_width bs" by simp
    moreover have "0 < rune_width bs" by (rule rune_width_pos)
    ultimately show ?thesis using False by (subst rune_count.simps) (cases bs, auto)
  qed (simp add: rune_count.simps)
qed

lemma RuneCount_le_length: "RuneCountInString s \<le> length s"
  using rune_count_le [of "map of_char s"] by (simp add: RuneCountInString_def)

section \<open>Decimal numbers\<close>

definition is_digit :: "char \<Rightarrow> bool" where
  "is_digit c \<longleftrightarrow> 48 \<le> (of_char c :: nat) \<and> (of_char c :: nat) \<le> 57"

definition digit_val :: "char \<Rightarrow> nat" where
  "digit_val c = of_char c - 48"

definition parse_digits :: "string \<Rightarrow> nat option" where
  "parse_digits s = (if s = [] \<or> \<not> list_all is_digit s then None
     else Some (foldl (\<lambda>n c. n * 10 + digit_val c) 0 s))"

text \<open>\<open>strconv.ParseUint(s, 10, bits)\<close>; \<open>None\<close> is a non-nil error.\<close>

definition ParseUint :: "string \<Rightarrow> nat \<Rightarrow> nat option" where
  "ParseUint s bits = (case parse_digits s of None \<Rightarrow> None
     | Some n \<Rightarrow> if n < 2 ^ bits then Some n else None)"

text \<open>\<open>strconv.Atoi\<close> and \<open>strconv.ParseInt(s, 10, 64)\<close> on a 64-bit platform.\<close>

definition Atoi :: "string \<Rightarrow> int option" where
  "Atoi s =
     (let neg = (s \<noteq> [] \<and> hd s = CHR ''-'');
          body = (if s \<noteq> [] \<and> (hd s = CHR ''-'' \<or> hd s = CHR ''+'') then tl s else s)
      in case parse_digits body of None \<Rightarrow> None
         | Some n \<Rightarrow>
             let i = (if neg then - int n else int n)
             in if - (2 ^ 63) \<le> i \<and> i < 2 ^ 63 then Some i else None)"

fun FormatUint :: "nat \<Rightarrow> string" where
  "FormatUint n = (if n < 10 then [char_of (48 + n)]
     else FormatUint (n div 10) @ [char_of (48 + n mod 10)])"

declare FormatUint.simps [simp del]

definition Itoa :: "int \<Rightarrow> string" where
  "Itoa i = (if i < 0 then CHR ''-'' # FormatUint (nat (- i)) else FormatUint (nat i))"

lemma digit_char: "d < 10 \<Longrightarrow> is_digit (char_of (48 + d)) \<and> digit_val (char_of (48 + d)) = d"
  by (simp add: is_digit_def digit_val_def)

lemma FormatUint_digits:
  "list_all is_digit (FormatUint n) \<and> FormatUint n \<noteq> [] \<and>
   foldl (\<lambda>k c. k * 10 + digit_val c) 0 (FormatUint n) = n"
proof (induction n rule: FormatUint.induct)
  case (1 n)
  have d: "n mod 10 < 10" by simp
  show ?case
  proof (cases "n < 10")
    case True
    then show ?thesis using digit_char [of n] by (simp add: FormatUint.simps [of n])
  next
    case False
    with 1 digit_char [OF d] show ?thesis by (simp add: FormatUint.simps [of n])
  qed
qed

lemma parse_digits_FormatUint [simp]: "parse_digits (FormatUint n) = Some n"
  using FormatUint_digits [of n] by (simp add: parse_digits_def)

lemma ParseUint_FormatUint: "n < 2 ^ b \<Longrightarrow> ParseUint (FormatUint n) b = Some n"
  by (simp add: ParseUint_def)

lemma FormatUint_nonempty [simp]: "FormatUint n \<noteq> []"
  using FormatUint_digits by blast

lemma FormatUint_set: "c \<in> set (FormatUint n) \<Longrightarrow> is_digit c"
  using FormatUint_digits [of n] by (simp add: list_all_iff)

lemma hd_FormatUint: "is_digit (hd (FormatUint n))"
  by (rule FormatUint_set [of _ n]) simp

lemma last_FormatUint: "is_digit (last (FormatUint n))"
  by (rule FormatUint_set [of _ n]) simp

lemma Atoi_Itoa: "- (2 ^ 63) \<le> i \<Longrightarrow> i < 2 ^ 63 \<Longrightarrow> Atoi (Itoa i) = Some i"
proof -
  assume b: "- (2 ^ 63) \<le> i" "i < 2 ^ 63"
  have h: "hd (FormatUint n) \<noteq> CHR ''-''" "hd (FormatUint n) \<noteq> CHR ''+''" for n
    using hd_FormatUint [of n] by (auto simp: is_digit_def)
  show ?thesis using b by (auto simp: Atoi_def Itoa_def h Let_def)
qed

lemma digit_word_char: "is_digit c \<Longrightarrow> ascii_word_char c"
  by (simp add: is_digit_def ascii_word_char_def)

lemma TrimSpace_FormatUint [simp]: "TrimSpace (FormatUint n) = FormatUint n"
  by (rule TrimSpace_id) (simp add: digit_word_char hd_FormatUint last_FormatUint)

lemma minus_word_char: "ascii_word_char (CHR ''-'')"
  by (simp add: ascii_word_char_def)

lemma TrimSpace_Itoa [simp]: "TrimSpace (Itoa i) = Itoa i"
  by (rule TrimSpace_id)
    (simp add: Itoa_def digit_word_char hd_FormatUint last_FormatUint minus_word_char)

end
