(* ===== verification/DataModel.thy ===== *)
theory DataModel
  imports GoStrings
begin

text \<open>
  The domain records of \<open>internal/model\<close> (points, devices, Kafka settings and policies) and
  the dynamically typed values (\<open>interface{}\<close>) that collected points carry. Field names are
  the Go names with a prefix per record. Instants are \<open>instant\<close>; \<open>int\<close> and \<open>int64\<close> fields
  are \<open>int\<close>; a register address is a 16-bit word.
\<close>

record Point =
  p_ID :: int
  p_DeviceID :: int
  p_TagName :: string
  p_Description :: string
  p_RegType :: string
  p_Address :: u16
  p_DataType :: string
  p_BitOffset :: int
  p_BitLen :: int
  p_Writeable :: int
  p_CreatedAt :: instant
  p_UpdatedAt :: instant

record FieldError =
  fe_Field :: string
  fe_Message :: string

record RowError =
  re_Row :: nat
  re_Field :: string
  re_Message :: string

record Device =
  d_ID :: int
  d_Name :: string
  d_Enabled :: bool
  d_Address :: string
  d_Port :: int
  d_SlaveID :: int
  d_ByteOrder :: string
  d_TimeoutSec :: int
  d_ScanIntervalMs :: int
  d_ConfigVersion :: int
  d_CreatedAt :: instant
  d_UpdatedAt :: instant

record KafkaSettings =
  k_Enabled :: bool
  k_Brokers :: "string list"
  k_ClientID :: string
  k_KafkaVersion :: string
  k_SecurityProtocol :: string
  k_SASLMechanism :: string
  k_SASLUsername :: string
  k_SASLPassword :: string
  k_SSLCAPath :: string
  k_SSLCertificatePath :: string
  k_SSLKeyPath :: string
  k_SSLEndpointIdentificationAlgorithm :: string
  k_QueueCapacity :: int
  k_UpdatedAt :: instant

record DeviceKafkaConfig =
  dk_DeviceID :: int
  dk_Enabled :: bool
  dk_Topic :: string
  dk_Mode :: string
  dk_FullIntervalSec :: int
  dk_CreatedAt :: instant
  dk_UpdatedAt :: instant

record KafkaStatus =
  ks_State :: string
  ks_LastError :: string
  ks_DroppedMessages :: u64

definition KafkaModeFull :: string where
  "KafkaModeFull = ''full''"

definition KafkaModeChange :: string where
  "KafkaModeChange = ''change''"

lemma KafkaMode_distinct [simp]: "KafkaModeFull \<noteq> KafkaModeChange" "KafkaModeChange \<noteq> KafkaModeFull"
  by (simp_all add: KafkaModeFull_def KafkaModeChange_def)

end
