(* ===== verification/PointConfig.thy ===== *)
theory PointConfig
  imports DataModel
begin

text \<open>
  \<open>internal/config/point_config.go\<close>: the supported register and data types, the width
  tables, and \<open>ValidatePoint\<close>, the one gate every point passes before it is stored. The
  specification \<open>point_ok\<close> states what the documentation calls a usable point (its bit field lies
  inside its data type, its registers inside the 16-bit address space, it is writeable only where
  a register can be written); the main lemma is that \<open>ValidatePoint\<close> reports no error exactly for
  those points and for writeable discrete inputs, the one deviation.
\<close>

definition validDataTypes :: "string list" where
  "validDataTypes =
     [''Bool'', ''Int16'', ''UInt16'', ''Int32'', ''UInt32'', ''Float32'', ''Double'']"

definition validRegTypes :: "string list" where
  "validRegTypes = [''HoldingReg'', ''InputReg'', ''CoilStatus'', ''InputStatus'']"

text \<open>The regular expression \<open>^[A-Za-z_][A-Za-z0-9_]*$\<close>.\<close>

definition tag_first_char :: "char \<Rightarrow> bool" where
  "tag_first_char c \<longleftrightarrow>
     (65 \<le> (of_char c :: nat) \<and> (of_char c :: nat) \<le> 90) \<or>
     (97 \<le> (of_char c :: nat) \<and> (of_char c :: nat) \<le> 122) \<or> c = CHR ''_''"

definition tag_char :: "char \<Rightarrow> bool" where
  "tag_char c \<longleftrightarrow> tag_first_char c \<or> is_digit c"

definition isValidTagName :: "string \<Rightarrow> bool" where
  "isValidTagName s =
     (case s of [] \<Rightarrow> False | c # cs \<Rightarrow> tag_first_char c \<and> list_all tag_char cs)"

definition IsRegTypeBit :: "string \<Rightarrow> bool" where
  "IsRegTypeBit regType \<longleftrightarrow> regType = ''CoilStatus'' \<or> regType = ''InputStatus''"

definition TypeBitWidth :: "string \<Rightarrow> int" where
  "TypeBitWidth dataType =
     (if dataType = ''Bool'' then 1
      else if dataType = ''Int16'' \<or> dataType = ''UInt16'' then 16
      else if dataType = ''Int32'' \<or> dataType = ''UInt32'' \<or> dataType = ''Float32'' then 32
      else if dataType = ''Double'' then 64
      else 16)"

text \<open>The register count \<open>ValidatePoint\<close> computes for a register point.\<close>

definition point_registers :: "string \<Rightarrow> nat" where
  "point_registers dataType =
     (if dataType = ''Int32'' \<or> dataType = ''UInt32'' \<or> dataType = ''Float32'' then 2
      else if dataType = ''Double'' then 4 else 1)"

definition field_error :: "string \<Rightarrow> string \<Rightarrow> FieldError" where
  "field_error f m = \<lparr>fe_Field = f, fe_Message = m\<rparr>"

definition when_err :: "bool \<Rightarrow> string \<Rightarrow> string \<Rightarrow> FieldError list" where
  "when_err b f m = (if b then [field_error f m] else [])"

definition ValidatePoint :: "Point \<Rightarrow> FieldError list" where
  "ValidatePoint point =
     (let errors =
        when_err (255 < RuneCountInString (TrimSpace (p_Description point)))
          ''description'' ''must be at most 255 characters'' @
        when_err (p_Writeable point \<noteq> 0 \<and> p_Writeable point \<noteq> 1)
          ''writeable'' ''must be 0 or 1'' @
        when_err (\<not> isValidTagName (p_TagName point))
          ''tag_name'' ''must contain only letters, digits, and underscores and cannot start with a digit''
      in
      if p_RegType point \<notin> set validRegTypes then
        errors @ [field_error ''reg_type'' ''unsupported register type'']
      else if p_DataType point \<notin> set validDataTypes then
        errors @ [field_error ''data_type'' ''unsupported data type'']
      else if IsRegTypeBit (p_RegType point) then
        errors @
        when_err (p_DataType point \<noteq> ''Bool'')
          ''data_type'' ''coil and input status points require Bool'' @
        when_err (p_BitOffset point \<noteq> 0 \<or> p_BitLen point \<noteq> 0)
          ''bit_offset'' ''bit fields must be zero for coil and input status points''
      else if p_BitOffset point < 0 \<or> p_BitLen point < 0 then
        errors @ [field_error ''bit_offset'' ''bit offset and length must not be negative'']
      else
        let width = TypeBitWidth (p_DataType point);
            effectiveLen = (if p_BitOffset point > 0 \<and> p_BitLen point = 0 then 1 else p_BitLen point);
            registerCount = point_registers (p_DataType point)
        in
        errors @
        when_err (p_DataType point = ''Bool'' \<and> (p_BitOffset point \<noteq> 0 \<or> p_BitLen point \<noteq> 0))
          ''bit_offset'' ''Bool bit offset and length must be zero'' @
        when_err ((p_DataType point = ''Float32'' \<or> p_DataType point = ''Double'') \<and>
            (p_BitOffset point \<noteq> 0 \<or> p_BitLen point \<noteq> 0))
          ''bit_len'' ''floating-point types do not support bit extraction'' @
        when_err (p_DataType point \<noteq> ''Bool'' \<and> p_DataType point \<noteq> ''Float32'' \<and>
            p_DataType point \<noteq> ''Double'' \<and> p_BitOffset point = 0 \<and> p_BitLen point = 0)
          ''bit_len'' ''bit length is required'' @
        when_err (p_BitOffset point \<ge> width \<or> effectiveLen > width \<or>
            p_BitOffset point + effectiveLen > width)
          ''bit_len'' ''bit offset and length exceed the data type width'' @
        when_err (unat (p_Address point) + registerCount - 1 > 65535)
          ''address'' ''point exceeds the Modbus address range'' @
        when_err (p_Writeable point = 1 \<and> p_RegType point \<noteq> ''HoldingReg'' \<and>
            p_RegType point \<noteq> ''CoilStatus'')
          ''writeable'' ''only holding registers and coils can be writeable'')"

section \<open>Collector-side point configuration\<close>

record PointConfig =
  pc_TagName :: string
  pc_Description :: string
  pc_RegType :: string
  pc_Address :: u16
  pc_DataType :: string
  pc_BitOffset :: int
  pc_BitLen :: int
  pc_Writeable :: bool

definition GetRegisterCount :: "PointConfig \<Rightarrow> u16" where
  "GetRegisterCount p =
     (if IsRegTypeBit (pc_RegType p) then 1
      else if pc_DataType p = ''Int32'' \<or> pc_DataType p = ''UInt32'' \<or> pc_DataType p = ''Float32''
        then 2
      else if pc_DataType p = ''Double'' then 4
      else 1)"

lemma GetRegisterCount_bounds:
  "1 \<le> unat (GetRegisterCount p)" "unat (GetRegisterCount p) \<le> 4"
  by (auto simp: GetRegisterCount_def)

section \<open>What a usable point is\<close>

text \<open>
  The bits of the raw value that the collector extracts for a register point: the explicit
  field, the single bit at a positive offset, or the whole type when both columns are zero.
\<close>

definition field_length :: "string \<Rightarrow> int \<Rightarrow> int \<Rightarrow> int" where
  "field_length dataType off len =
     (if len \<noteq> 0 then len else if 0 < off then 1 else TypeBitWidth dataType)"

definition point_bits :: "Point \<Rightarrow> int set" where
  "point_bits p =
     {p_BitOffset p ..< p_BitOffset p + field_length (p_DataType p) (p_BitOffset p) (p_BitLen p)}"

definition whole_value_type :: "string \<Rightarrow> bool" where
  "whole_value_type dataType \<longleftrightarrow>
     dataType = ''Bool'' \<or> dataType = ''Float32'' \<or> dataType = ''Double''"

text \<open>
  What a usable point is, by the configuration guide (\<open>docs\<close>, sections 2 to 7): a bit point is a plain
  \<open>Bool\<close>; a register point has a field inside its type, given exactly for the integer types, and
  registers inside the address space; and only a holding register or a coil may be writeable.
\<close>

definition point_ok :: "Point \<Rightarrow> bool" where
  "point_ok p \<longleftrightarrow>
     RuneCountInString (TrimSpace (p_Description p)) \<le> 255 \<and> isValidTagName (p_TagName p) \<and>
     (p_Writeable p = 0 \<or> p_Writeable p = 1 \<and> p_RegType p \<in> {''HoldingReg'', ''CoilStatus''}) \<and>
     (if p_RegType p \<in> {''CoilStatus'', ''InputStatus''}
      then p_DataType p = ''Bool'' \<and> p_BitOffset p = 0 \<and> p_BitLen p = 0
      else p_RegType p \<in> {''HoldingReg'', ''InputReg''} \<and>
        p_DataType p \<in> {''Bool'', ''Int16'', ''UInt16'', ''Int32'', ''UInt32'', ''Float32'', ''Double''} \<and>
        0 \<le> p_BitOffset p \<and> 0 \<le> p_BitLen p \<and>
        point_bits p \<subseteq> {0 ..< TypeBitWidth (p_DataType p)} \<and>
        (p_BitOffset p = 0 \<and> p_BitLen p = 0 \<longleftrightarrow> whole_value_type (p_DataType p)) \<and>
        unat (p_Address p) + point_registers (p_DataType p) \<le> 2 ^ 16)"

text \<open>The same, branch by branch as the checks come; here a writeable discrete input passes.\<close>

definition point_admissible :: "Point \<Rightarrow> bool" where
  "point_admissible p \<longleftrightarrow>
     RuneCountInString (TrimSpace (p_Description p)) \<le> 255 \<and>
     p_Writeable p \<in> {0, 1} \<and> isValidTagName (p_TagName p) \<and>
     (if IsRegTypeBit (p_RegType p)
      then p_DataType p = ''Bool'' \<and> p_BitOffset p = 0 \<and> p_BitLen p = 0
      else p_RegType p \<in> {''HoldingReg'', ''InputReg''} \<and>
        p_DataType p \<in> set validDataTypes \<and>
        0 \<le> p_BitOffset p \<and> 0 \<le> p_BitLen p \<and>
        point_bits p \<subseteq> {0 ..< TypeBitWidth (p_DataType p)} \<and>
        (p_BitOffset p = 0 \<and> p_BitLen p = 0 \<longleftrightarrow> whole_value_type (p_DataType p)) \<and>
        unat (p_Address p) + point_registers (p_DataType p) \<le> 2 ^ 16 \<and>
        (p_Writeable p = 1 \<longrightarrow> p_RegType p = ''HoldingReg''))"

lemma TypeBitWidth_pos: "0 < TypeBitWidth d"
  by (simp add: TypeBitWidth_def)

lemma TypeBitWidth_le: "TypeBitWidth d \<le> 64"
  by (simp add: TypeBitWidth_def)

lemma when_err_Nil [simp]: "when_err b f m = [] \<longleftrightarrow> \<not> b"
  by (simp add: when_err_def)

lemma point_bits_subset:
  assumes "0 \<le> p_BitOffset p" "0 \<le> p_BitLen p"
  shows "point_bits p \<subseteq> {0 ..< TypeBitWidth (p_DataType p)} \<longleftrightarrow>
    p_BitOffset p + field_length (p_DataType p) (p_BitOffset p) (p_BitLen p)
      \<le> TypeBitWidth (p_DataType p)"
  using assms TypeBitWidth_pos [of "p_DataType p"]
  by (auto simp: point_bits_def field_length_def atLeastLessThan_subset_iff)

lemma IsRegTypeBit_valid: "IsRegTypeBit r \<Longrightarrow> r \<in> set validRegTypes"
  by (auto simp: IsRegTypeBit_def validRegTypes_def)

lemma validRegTypes_register:
  "\<not> IsRegTypeBit r \<Longrightarrow> r \<in> set validRegTypes \<longleftrightarrow> r \<in> {''HoldingReg'', ''InputReg''}"
  by (auto simp: IsRegTypeBit_def validRegTypes_def)

text \<open>The bit-field checks of \<open>ValidatePoint\<close> on a register point, in one statement.\<close>

lemma bit_field_checks:
  fixes d :: string
  assumes "0 \<le> off" "0 \<le> len"
  defines "w \<equiv> TypeBitWidth d" and "el \<equiv> (if off > 0 \<and> len = 0 then 1 else len)"
  shows "\<not> (d = ''Bool'' \<and> (off \<noteq> 0 \<or> len \<noteq> 0)) \<and>
     \<not> ((d = ''Float32'' \<or> d = ''Double'') \<and> (off \<noteq> 0 \<or> len \<noteq> 0)) \<and>
     \<not> (d \<noteq> ''Bool'' \<and> d \<noteq> ''Float32'' \<and> d \<noteq> ''Double'' \<and> off = 0 \<and> len = 0) \<and>
     \<not> (off \<ge> w \<or> el > w \<or> off + el > w) \<longleftrightarrow>
     off + field_length d off len \<le> w \<and> (off = 0 \<and> len = 0 \<longleftrightarrow> whole_value_type d)"
  using assms TypeBitWidth_pos [of d]
  by (auto simp: field_length_def whole_value_type_def)

lemma ValidatePoint_bit_type:
  assumes "IsRegTypeBit (p_RegType p)"
  shows "ValidatePoint p = [] \<longleftrightarrow> point_admissible p"
  using IsRegTypeBit_valid [OF assms] assms
  by (auto simp: ValidatePoint_def point_admissible_def Let_def validDataTypes_def split: if_splits)

lemma ValidatePoint_register:
  assumes b: "\<not> IsRegTypeBit (p_RegType p)"
    and r: "p_RegType p \<in> set validRegTypes" and d: "p_DataType p \<in> set validDataTypes"
    and n: "0 \<le> p_BitOffset p" "0 \<le> p_BitLen p"
  shows "ValidatePoint p = [] \<longleftrightarrow> point_admissible p"
proof -
  let ?off = "p_BitOffset p" and ?len = "p_BitLen p" and ?d = "p_DataType p"
  define el where "el = (if ?off > 0 \<and> ?len = 0 then 1 else ?len)"
  define A where "A \<longleftrightarrow> ?d = ''Bool'' \<and> (?off \<noteq> 0 \<or> ?len \<noteq> 0)"
  define B where "B \<longleftrightarrow> (?d = ''Float32'' \<or> ?d = ''Double'') \<and> (?off \<noteq> 0 \<or> ?len \<noteq> 0)"
  define C where "C \<longleftrightarrow> ?d \<noteq> ''Bool'' \<and> ?d \<noteq> ''Float32'' \<and> ?d \<noteq> ''Double'' \<and> ?off = 0 \<and> ?len = 0"
  define D where "D \<longleftrightarrow> ?off \<ge> TypeBitWidth ?d \<or> el > TypeBitWidth ?d \<or> ?off + el > TypeBitWidth ?d"
  define H where "H \<longleftrightarrow> p_RegType p = ''HoldingReg''"
  have reg: "p_RegType p \<in> {''HoldingReg'', ''InputReg''}"
    using b r validRegTypes_register by blast
  then have w: "(p_RegType p \<noteq> ''HoldingReg'' \<and> p_RegType p \<noteq> ''CoilStatus'') \<longleftrightarrow> \<not> H"
    by (auto simp: H_def)
  have neg: "\<not> (p_BitOffset p < 0 \<or> p_BitLen p < 0)" using n by simp
  have checks: "\<not> A \<and> \<not> B \<and> \<not> C \<and> \<not> D \<longleftrightarrow> ?off + field_length ?d ?off ?len \<le> TypeBitWidth ?d \<and>
      (?off = 0 \<and> ?len = 0 \<longleftrightarrow> whole_value_type ?d)"
    unfolding A_def B_def C_def D_def el_def by (rule bit_field_checks [OF n])
  have V: "ValidatePoint p = [] \<longleftrightarrow>
      \<not> 255 < RuneCountInString (TrimSpace (p_Description p)) \<and>
      \<not> (p_Writeable p \<noteq> 0 \<and> p_Writeable p \<noteq> 1) \<and> isValidTagName (p_TagName p) \<and>
      (\<not> A \<and> \<not> B \<and> \<not> C \<and> \<not> D) \<and>
      \<not> unat (p_Address p) + point_registers ?d - 1 > 65535 \<and>
      \<not> (p_Writeable p = 1 \<and> \<not> H)"
    unfolding ValidatePoint_def Let_def if_not_P [OF b] if_not_P [OF neg] w
      el_def [symmetric] A_def [symmetric] B_def [symmetric] C_def [symmetric] D_def [symmetric]
    by (simp only: r d simp_thms if_False append_is_Nil_conv when_err_Nil conj_assoc)
  show ?thesis
    unfolding V checks point_admissible_def if_not_P [OF b] point_bits_subset [OF n] H_def [symmetric]
    by (simp only: reg d n simp_thms) auto
qed

lemma ValidatePoint_iff_admissible: "ValidatePoint p = [] \<longleftrightarrow> point_admissible p"
proof (cases "IsRegTypeBit (p_RegType p)")
  case True
  then show ?thesis by (rule ValidatePoint_bit_type)
next
  case False
  show ?thesis
  proof (cases "p_RegType p \<in> set validRegTypes \<and> p_DataType p \<in> set validDataTypes \<and>
      0 \<le> p_BitOffset p \<and> 0 \<le> p_BitLen p")
    case True
    with False show ?thesis using ValidatePoint_register [of p] by simp
  next
    case bad: False
    then consider "p_RegType p \<notin> set validRegTypes"
      | "\<not> p_RegType p \<notin> set validRegTypes" "p_DataType p \<notin> set validDataTypes"
      | "\<not> p_RegType p \<notin> set validRegTypes" "\<not> p_DataType p \<notin> set validDataTypes"
        "p_BitOffset p < 0 \<or> p_BitLen p < 0"
      by linarith
    then have "ValidatePoint p \<noteq> []"
      by cases (simp_all only: ValidatePoint_def Let_def if_not_P [OF False] if_P if_not_P
          append_is_Nil_conv list.distinct simp_thms)
    moreover have "\<not> point_admissible p"
      using bad validRegTypes_register [OF False]
      unfolding point_admissible_def if_not_P [OF False] by blast
    ultimately show ?thesis by blast
  qed
qed

text \<open>The gap: the check of the writeable flag comes after the early return for bit types.\<close>

definition writeable_input :: "Point \<Rightarrow> bool" where
  "writeable_input p \<longleftrightarrow>
     p_RegType p = ''InputStatus'' \<and> p_Writeable p = 1 \<and> point_ok (p\<lparr>p_Writeable := 0\<rparr>)"

lemma admissible_split: "point_admissible p \<longleftrightarrow> point_ok p \<or> writeable_input p"
proof (cases "IsRegTypeBit (p_RegType p)")
  case True
  then have "p_RegType p = ''CoilStatus'' \<or> p_RegType p = ''InputStatus''" by (auto simp: IsRegTypeBit_def)
  then show ?thesis
    by (rule disjE) (auto simp: point_admissible_def point_ok_def writeable_input_def IsRegTypeBit_def)
next
  case False
  then have "p_RegType p \<notin> {''CoilStatus'', ''InputStatus''}" "\<not> writeable_input p"
    by (auto simp: IsRegTypeBit_def writeable_input_def)
  with False show ?thesis
    unfolding point_admissible_def point_ok_def validDataTypes_def by (simp split del: if_split) auto
qed

section \<open>Properties\<close>

text \<open>
  C10: the validation gate against the documented rules. \<open>ValidatePoint\<close> reports no field error
  precisely for the usable points, those with a well-formed tag, a supported register and data type, a
  bit field that lies inside the data type (and is given exactly for the integer types), registers
  inside the 16-bit address space, and a writeable flag only on a holding register or a coil, and, the
  one deviation, for a point of type \<open>InputStatus\<close> that is marked writeable but otherwise usable.
\<close>

theorem ValidatePoint_exact: "ValidatePoint p = [] \<longleftrightarrow> point_ok p \<or> writeable_input p"
  by (simp only: ValidatePoint_iff_admissible admissible_split)

text \<open>The deviation is real, against the message \<open>only holding registers and coils can be writeable\<close>.\<close>

lemma writeable_discrete_input_accepted:
  "ValidatePoint \<lparr>p_ID = 0, p_DeviceID = 0, p_TagName = ''x'', p_Description = [],
     p_RegType = ''InputStatus'', p_Address = 0, p_DataType = ''Bool'', p_BitOffset = 0,
     p_BitLen = 0, p_Writeable = 1, p_CreatedAt = 0, p_UpdatedAt = 0\<rparr> = []"
  unfolding ValidatePoint_iff_admissible point_admissible_def
  using le_trans [OF RuneCount_le_length length_TrimSpace, of "[]"]
  by (simp add: IsRegTypeBit_def isValidTagName_def tag_first_char_def)

end
