(* ===== verification/GoSort.thy ===== *)
theory GoSort
  imports Prelude
begin

text \<open>
  The contract of Go's \<open>sort.Slice\<close>, as an interface: the result is a permutation of the
  slice and no later element is less than an earlier one. \<open>sort.Slice\<close> is not stable, so
  nothing is promised about elements that compare equal, and the clients are proved for every
  sort routine that meets the contract. The routine the library runs on short slices, an
  insertion sort, is modelled and discharges it.
\<close>

definition strict_weak :: "('a \<Rightarrow> 'a \<Rightarrow> bool) \<Rightarrow> bool" where
  "strict_weak lt \<longleftrightarrow>
     (\<forall>x y. lt x y \<longrightarrow> \<not> lt y x) \<and> (\<forall>x y z. lt x z \<longrightarrow> lt x y \<or> lt y z)"

lemma strict_weak_key:
  fixes k :: "'a \<Rightarrow> 'k::linorder"
  shows "strict_weak (\<lambda>x y. k x < k y)"
  by (auto simp: strict_weak_def)

locale slice_sort =
  fixes srt :: "('a \<Rightarrow> 'a \<Rightarrow> bool) \<Rightarrow> 'a list \<Rightarrow> 'a list"
  assumes srt_mset: "mset (srt lt xs) = mset xs"
    and srt_sorted: "strict_weak lt \<Longrightarrow> sorted_wrt (\<lambda>x y. \<not> lt y x) (srt lt xs)"
begin

lemma srt_set [simp]: "set (srt lt xs) = set xs"
  using srt_mset [of lt xs] by (metis set_mset_mset)

lemma srt_Nil_iff [simp]: "srt lt xs = [] \<longleftrightarrow> xs = []"
  using srt_mset [of lt xs] by (metis mset_zero_iff)

lemma srt_by_key:
  fixes k :: "'a \<Rightarrow> 'k::linorder"
  shows "sorted_wrt (\<lambda>x y. k x \<le> k y) (srt (\<lambda>x y. k x < k y) xs)"
  using srt_sorted [OF strict_weak_key, of k xs] by (simp add: not_less)

end

text \<open>\<open>insertionSort_func\<close>: the sorted prefix is kept reversed, so the inner loop walks it
  from its end.\<close>

fun ins_back :: "('a \<Rightarrow> 'a \<Rightarrow> bool) \<Rightarrow> 'a \<Rightarrow> 'a list \<Rightarrow> 'a list" where
  "ins_back lt x [] = [x]"
| "ins_back lt x (y # ys) = (if lt x y then y # ins_back lt x ys else x # y # ys)"

definition insertion_sort :: "('a \<Rightarrow> 'a \<Rightarrow> bool) \<Rightarrow> 'a list \<Rightarrow> 'a list" where
  "insertion_sort lt xs = rev (foldl (\<lambda>acc x. ins_back lt x acc) [] xs)"

lemma mset_ins_back [simp]: "mset (ins_back lt x ys) = {#x#} + mset ys"
  by (induction ys) auto

lemma set_ins_back [simp]: "set (ins_back lt x ys) = insert x (set ys)"
  by (induction ys) auto

lemma mset_foldl_ins_back: "mset (foldl (\<lambda>acc x. ins_back lt x acc) acc xs) = mset acc + mset xs"
  by (induction xs arbitrary: acc) auto

lemma sorted_ins_back:
  assumes "strict_weak lt" and "sorted_wrt (\<lambda>x y. \<not> lt x y) ys"
  shows "sorted_wrt (\<lambda>x y. \<not> lt x y) (ins_back lt x ys)"
  using assms(2)
proof (induction ys)
  case (Cons y ys)
  show ?case
  proof (cases "lt x y")
    case True
    with Cons assms(1) show ?thesis by (auto simp: strict_weak_def)
  next
    case False
    with Cons.prems assms(1) have "\<forall>z\<in>set ys. \<not> lt x z"
      unfolding strict_weak_def sorted_wrt.simps by blast
    with False Cons.prems show ?thesis by simp
  qed
qed simp

lemma sorted_foldl_ins_back:
  assumes "strict_weak lt" and "sorted_wrt (\<lambda>x y. \<not> lt x y) acc"
  shows "sorted_wrt (\<lambda>x y. \<not> lt x y) (foldl (\<lambda>acc x. ins_back lt x acc) acc xs)"
  using assms(2) by (induction xs arbitrary: acc) (auto intro: sorted_ins_back [OF assms(1)])

interpretation go_sort: slice_sort insertion_sort
proof unfold_locales
  show "mset (insertion_sort lt xs) = mset xs" for lt :: "'a \<Rightarrow> 'a \<Rightarrow> bool" and xs
    by (simp add: insertion_sort_def mset_foldl_ins_back)
  show "sorted_wrt (\<lambda>x y. \<not> lt y x) (insertion_sort lt xs)"
    if "strict_weak lt" for lt :: "'a \<Rightarrow> 'a \<Rightarrow> bool" and xs
    using sorted_foldl_ins_back [OF that, of "[]" xs]
    by (simp add: insertion_sort_def sorted_wrt_rev)
qed

end
