(* ===== verification/ReadChunks.thy ===== *)
theory ReadChunks
  imports PointConfig GoSort
begin

text \<open>
  \<open>OptimizeChunks\<close> of \<open>internal/config/point_config.go\<close>: points are grouped by register
  type, sorted by address and merged greedily into batch reads of at most 125 registers or
  2000 coils. All addresses and quantities are 16-bit words, as in the code. The sort routine
  is the argument \<open>srt\<close>; the theorems hold for every one that meets \<open>slice_sort\<close>.
\<close>

record ReadChunk =
  rc_StartAddr :: u16
  rc_Quantity :: u16
  rc_Points :: "PointConfig list"

definition maxRegisters :: u16 where
  "maxRegisters = 125"

definition maxCoils :: u16 where
  "maxCoils = 2000"

definition max_qty :: "string \<Rightarrow> u16" where
  "max_qty key = (if IsRegTypeBit key then maxCoils else maxRegisters)"

definition end_addr :: "PointConfig \<Rightarrow> u16" where
  "end_addr p = pc_Address p + GetRegisterCount p - 1"

definition close_chunk :: "ReadChunk \<Rightarrow> u16 \<Rightarrow> ReadChunk" where
  "close_chunk cur chunkEndAddr = cur\<lparr>rc_Quantity := chunkEndAddr - rc_StartAddr cur + 1\<rparr>"

definition open_chunk :: "PointConfig \<Rightarrow> ReadChunk" where
  "open_chunk p = \<lparr>rc_StartAddr = pc_Address p, rc_Quantity = 0, rc_Points = [p]\<rparr>"

fun chunk_loop :: "u16 \<Rightarrow> ReadChunk list \<Rightarrow> ReadChunk \<Rightarrow> u16 \<Rightarrow> PointConfig list \<Rightarrow> ReadChunk list"
  where
  "chunk_loop maxQty chunks cur chunkEndAddr [] = chunks @ [close_chunk cur chunkEndAddr]"
| "chunk_loop maxQty chunks cur chunkEndAddr (p # ps) =
     (let nextAddr = pc_Address p;
          nextEndAddr = end_addr p;
          totalQty = nextEndAddr - rc_StartAddr cur + 1
      in if nextAddr \<le> chunkEndAddr + 1 \<and> totalQty \<le> maxQty
         then chunk_loop maxQty chunks (cur\<lparr>rc_Points := rc_Points cur @ [p]\<rparr>)
                (if nextEndAddr > chunkEndAddr then nextEndAddr else chunkEndAddr) ps
         else chunk_loop maxQty (chunks @ [close_chunk cur chunkEndAddr]) (open_chunk p)
                nextEndAddr ps)"

definition key_chunks ::
  "((PointConfig \<Rightarrow> PointConfig \<Rightarrow> bool) \<Rightarrow> PointConfig list \<Rightarrow> PointConfig list) \<Rightarrow>
     string \<Rightarrow> PointConfig list \<Rightarrow> ReadChunk list" where
  "key_chunks srt key pts =
     (case srt (\<lambda>p q. pc_Address p < pc_Address q) pts of
        [] \<Rightarrow> []
      | p0 # rest \<Rightarrow> chunk_loop (max_qty key) [] (open_chunk p0) (end_addr p0) rest)"

definition group_points :: "PointConfig list \<Rightarrow> string \<Rightarrow> PointConfig list option" where
  "group_points points =
     foldl (\<lambda>groups p. groups(pc_RegType p \<mapsto>
         (case groups (pc_RegType p) of None \<Rightarrow> [p] | Some pts \<Rightarrow> pts @ [p])))
       Map.empty points"

definition OptimizeChunks ::
  "((PointConfig \<Rightarrow> PointConfig \<Rightarrow> bool) \<Rightarrow> PointConfig list \<Rightarrow> PointConfig list) \<Rightarrow>
     PointConfig list \<Rightarrow> string \<Rightarrow> ReadChunk list option" where
  "OptimizeChunks srt points = (\<lambda>key. map_option (key_chunks srt key) (group_points points key))"

section \<open>Specification\<close>

text \<open>The registers (or coils) a point occupies, and those a batch read asks for.\<close>

definition point_span :: "PointConfig \<Rightarrow> nat set" where
  "point_span p = {unat (pc_Address p) ..< unat (pc_Address p) + unat (GetRegisterCount p)}"

definition chunk_span :: "ReadChunk \<Rightarrow> nat set" where
  "chunk_span c = {unat (rc_StartAddr c) ..< unat (rc_StartAddr c) + unat (rc_Quantity c)}"

definition addr_ok :: "PointConfig \<Rightarrow> bool" where
  "addr_ok p \<longleftrightarrow> unat (pc_Address p) + unat (GetRegisterCount p) \<le> 2 ^ 16"

text \<open>
  A batch read is well formed when it asks for at least one and at most the permitted number
  of registers, stays inside the address space, and asks exactly for the registers its points
  occupy, no more and no fewer.
\<close>

definition chunk_wf :: "string \<Rightarrow> ReadChunk \<Rightarrow> bool" where
  "chunk_wf key c \<longleftrightarrow>
     0 < unat (rc_Quantity c) \<and> rc_Quantity c \<le> max_qty key \<and>
     unat (rc_StartAddr c) + unat (rc_Quantity c) \<le> 2 ^ 16 \<and>
     rc_Points c \<noteq> [] \<and> (\<Union>p\<in>set (rc_Points c). point_span p) = chunk_span c"

section \<open>The merge loop\<close>

text \<open>The chunk under construction, with the exact address arithmetic on naturals.\<close>

definition open_wf :: "string \<Rightarrow> ReadChunk \<Rightarrow> u16 \<Rightarrow> bool" where
  "open_wf key cur e \<longleftrightarrow>
     unat (rc_StartAddr cur) \<le> unat e \<and>
     unat e + 1 - unat (rc_StartAddr cur) \<le> unat (max_qty key) \<and>
     rc_Points cur \<noteq> [] \<and>
     (\<Union>p\<in>set (rc_Points cur). point_span p) = {unat (rc_StartAddr cur) .. unat e}"

lemma max_qty_bounds: "4 \<le> unat (max_qty key)" "unat (max_qty key) \<le> 2000"
  by (simp_all add: max_qty_def maxCoils_def maxRegisters_def)

lemma unat_end_addr:
  assumes "addr_ok p"
  shows "unat (end_addr p) = unat (pc_Address p) + unat (GetRegisterCount p) - 1"
proof -
  have g: "unat (GetRegisterCount p - 1) = unat (GetRegisterCount p) - 1"
    using unat_minus_le [of "1::u16" "GetRegisterCount p"] GetRegisterCount_bounds(1) [of p]
    by (simp del: GetRegisterCount_bounds)
  have "end_addr p = pc_Address p + (GetRegisterCount p - 1)"
    by (simp add: end_addr_def)
  moreover have "unat (pc_Address p + (GetRegisterCount p - 1)) =
      unat (pc_Address p) + (unat (GetRegisterCount p) - 1)"
    using assms GetRegisterCount_bounds(1) [of p]
    by (subst unat_plus_le) (auto simp: g addr_ok_def)
  ultimately show ?thesis using GetRegisterCount_bounds(1) [of p] by simp
qed

lemma point_span_end:
  "addr_ok p \<Longrightarrow> point_span p = {unat (pc_Address p) .. unat (end_addr p)}"
  using GetRegisterCount_bounds(1) [of p] by (auto simp: point_span_def unat_end_addr)

lemma open_chunk_wf:
  assumes "addr_ok p"
  shows "open_wf key (open_chunk p) (end_addr p)"
  using assms le_trans [OF GetRegisterCount_bounds(2) [of p] max_qty_bounds(1) [of key]]
    GetRegisterCount_bounds(1) [of p]
  by (auto simp: open_wf_def open_chunk_def point_span_end unat_end_addr)

lemma close_chunk_wf:
  assumes "open_wf key cur e"
  shows "chunk_wf key (close_chunk cur e)"
proof -
  let ?s = "rc_StartAddr cur"
  have le: "unat ?s \<le> unat e" and m: "unat e + 1 - unat ?s \<le> unat (max_qty key)"
    using assms by (auto simp: open_wf_def)
  have d: "unat (e - ?s) = unat e - unat ?s"
    using le by (rule unat_minus_le)
  have q: "unat (e - ?s + 1) = unat e - unat ?s + 1"
    using m max_qty_bounds(2) [of key] le by (subst unat_plus_le) (auto simp: d)
  have "unat e < 2 ^ 16" using unat_u16_bound [of e] by simp
  with assms q le show ?thesis
    by (auto simp: chunk_wf_def close_chunk_def open_wf_def chunk_span_def word_le_nat_alt
        atLeastLessThanSuc_atLeastAtMost)
qed

lemma extend_chunk_wf:
  assumes "open_wf key cur e" and "addr_ok p"
    and s: "unat (rc_StartAddr cur) \<le> unat (pc_Address p)"
    and near: "pc_Address p \<le> e + 1"
    and fits: "end_addr p - rc_StartAddr cur + 1 \<le> max_qty key"
  shows "open_wf key (cur\<lparr>rc_Points := rc_Points cur @ [p]\<rparr>) (if end_addr p > e then end_addr p else e)"
proof -
  let ?s = "rc_StartAddr cur"
  have se: "unat ?s \<le> unat e" and m: "unat e + 1 - unat ?s \<le> unat (max_qty key)"
    and cover: "(\<Union>p\<in>set (rc_Points cur). point_span p) = {unat ?s .. unat e}"
    using assms(1) by (auto simp: open_wf_def)
  have e16: "unat e < 2 ^ 16" using unat_u16_bound [of e] by simp
  have near': "unat (pc_Address p) \<le> unat e + 1"
  proof (cases "unat e + 1 < 2 ^ 16")
    case True
    then show ?thesis using near unat_plus_le [of e 1] by (simp add: word_le_nat_alt)
  next
    case False
    with e16 show ?thesis using unat_u16_bound [of "pc_Address p"] by simp
  qed
  have pe: "unat (pc_Address p) \<le> unat (end_addr p)"
    using GetRegisterCount_bounds(1) [of p] by (simp add: unat_end_addr [OF assms(2)])
  have small: "unat (end_addr p) + 1 - unat ?s \<le> 2004"
    using near' m max_qty_bounds(2) [of key] GetRegisterCount_bounds(2) [of p] se
    by (simp add: unat_end_addr [OF assms(2)])
  have d: "unat (end_addr p - ?s) = unat (end_addr p) - unat ?s"
    using s pe by (intro unat_minus_le) simp
  have "unat (end_addr p - ?s + 1) = unat (end_addr p) - unat ?s + 1"
    using small s pe by (subst unat_plus_le) (auto simp: d)
  then have fits': "unat (end_addr p) + 1 - unat ?s \<le> unat (max_qty key)"
    using fits s pe by (simp add: word_le_nat_alt)
  have "{unat ?s .. unat e} \<union> {unat (pc_Address p) .. unat (end_addr p)} =
      {unat ?s .. max (unat e) (unat (end_addr p))}"
    using s near' pe se by auto
  then show ?thesis
    using cover se m fits' s pe
    by (auto simp: open_wf_def point_span_end [OF assms(2)] word_less_nat_alt max_def Un_commute
        split: if_splits)
qed

lemma chunk_loop_wf:
  assumes "open_wf key cur e" and "\<forall>c\<in>set chunks. chunk_wf key c"
    and "\<forall>p\<in>set ps. addr_ok p"
    and "sorted_wrt (\<lambda>p q. pc_Address p \<le> pc_Address q) ps"
    and "\<forall>p\<in>set ps. rc_StartAddr cur \<le> pc_Address p"
  shows "\<forall>c\<in>set (chunk_loop (max_qty key) chunks cur e ps). chunk_wf key c"
  using assms
proof (induction ps arbitrary: chunks cur e)
  case Nil
  then show ?case by (simp add: close_chunk_wf)
next
  case (Cons p ps)
  have ps: "\<forall>p\<in>set ps. addr_ok p" "sorted_wrt (\<lambda>p q. pc_Address p \<le> pc_Address q) ps"
    "\<forall>q\<in>set ps. pc_Address p \<le> pc_Address q" and p: "addr_ok p"
    using Cons.prems by auto
  show ?case
  proof (cases "pc_Address p \<le> e + 1 \<and> end_addr p - rc_StartAddr cur + 1 \<le> max_qty key")
    case True
    with Cons.prems p have "open_wf key (cur\<lparr>rc_Points := rc_Points cur @ [p]\<rparr>)
        (if end_addr p > e then end_addr p else e)"
      by (intro extend_chunk_wf) (auto simp: word_le_nat_alt)
    then have "\<forall>c\<in>set (chunk_loop (max_qty key) chunks (cur\<lparr>rc_Points := rc_Points cur @ [p]\<rparr>)
        (if end_addr p > e then end_addr p else e) ps). chunk_wf key c"
      using Cons.prems(2,5) ps by (intro Cons.IH) auto
    moreover have "chunk_loop (max_qty key) chunks cur e (p # ps) =
        chunk_loop (max_qty key) chunks (cur\<lparr>rc_Points := rc_Points cur @ [p]\<rparr>)
          (if end_addr p > e then end_addr p else e) ps"
      by (simp only: chunk_loop.simps Let_def if_P [OF True])
    ultimately show ?thesis by simp
  next
    case False
    have "\<forall>c\<in>set (chunk_loop (max_qty key) (chunks @ [close_chunk cur e]) (open_chunk p)
        (end_addr p) ps). chunk_wf key c"
      using Cons.prems(1,2) ps p
      by (intro Cons.IH) (auto simp: open_chunk_wf close_chunk_wf, simp add: open_chunk_def)
    moreover have "chunk_loop (max_qty key) chunks cur e (p # ps) =
        chunk_loop (max_qty key) (chunks @ [close_chunk cur e]) (open_chunk p) (end_addr p) ps"
      by (simp only: chunk_loop.simps Let_def if_not_P [OF False])
    ultimately show ?thesis by simp
  qed
qed

lemma chunk_loop_points:
  "concat (map rc_Points (chunk_loop m chunks cur e ps)) =
     concat (map rc_Points chunks) @ rc_Points cur @ ps"
  by (induction m chunks cur e ps rule: chunk_loop.induct)
    (auto simp: Let_def close_chunk_def open_chunk_def)

section \<open>Grouping and the whole operation\<close>

lemma group_points_foldl:
  "foldl (\<lambda>groups p. groups(pc_RegType p \<mapsto>
       (case groups (pc_RegType p) of None \<Rightarrow> [p] | Some pts \<Rightarrow> pts @ [p]))) g points key =
   (let mine = filter (\<lambda>p. pc_RegType p = key) points in
    case g key of None \<Rightarrow> (if mine = [] then None else Some mine) | Some pts \<Rightarrow> Some (pts @ mine))"
  by (induction points arbitrary: g) (auto simp: Let_def split: option.splits)

lemma group_points_eq:
  "group_points points key =
     (let mine = filter (\<lambda>p. pc_RegType p = key) points in if mine = [] then None else Some mine)"
  by (simp add: group_points_def group_points_foldl)

text \<open>
  The client of the sort contract: whatever the order of equal addresses, the merged reads of
  one register type are well formed and carry every point of the group once.
\<close>

locale point_sort = slice_sort srt
  for srt :: "(PointConfig \<Rightarrow> PointConfig \<Rightarrow> bool) \<Rightarrow> PointConfig list \<Rightarrow> PointConfig list"
begin

lemma sorted_by_address:
  "sorted_wrt (\<lambda>p q. pc_Address p \<le> pc_Address q) (srt (\<lambda>p q. pc_Address p < pc_Address q) pts)"
  by (rule srt_by_key)

lemma key_chunks_points:
  "mset (concat (map rc_Points (key_chunks srt key pts))) = mset pts"
proof (cases "srt (\<lambda>p q. pc_Address p < pc_Address q) pts")
  case Nil
  then show ?thesis
    by (simp only: key_chunks_def Nil list.case) (use Nil in simp)
next
  case (Cons p0 rest)
  then have "concat (map rc_Points (key_chunks srt key pts)) = p0 # rest"
    by (simp add: key_chunks_def chunk_loop_points, simp add: open_chunk_def)
  then show ?thesis by (metis Cons srt_mset)
qed

lemma key_chunks_wf:
  assumes "\<forall>p\<in>set pts. addr_ok p" and "c \<in> set (key_chunks srt key pts)"
  shows "chunk_wf key c"
proof (cases "srt (\<lambda>p q. pc_Address p < pc_Address q) pts")
  case Nil
  with assms(2) show ?thesis by (auto simp: key_chunks_def)
next
  case (Cons p0 rest)
  then have ok: "addr_ok p0" "\<forall>p\<in>set rest. addr_ok p"
    using assms(1) srt_set [of "\<lambda>p q. pc_Address p < pc_Address q" pts] by auto
  have srt: "sorted_wrt (\<lambda>p q. pc_Address p \<le> pc_Address q) (p0 # rest)"
    using sorted_by_address [of pts] Cons by simp
  have "\<forall>c\<in>set (chunk_loop (max_qty key) [] (open_chunk p0) (end_addr p0) rest). chunk_wf key c"
    using ok srt by (intro chunk_loop_wf) (auto simp: open_chunk_wf, simp add: open_chunk_def)
  with assms(2) Cons show ?thesis by (simp add: key_chunks_def)
qed

lemma optimize_points:
  assumes "OptimizeChunks srt points key = Some chunks"
  shows "mset (concat (map rc_Points chunks)) = mset (filter (\<lambda>p. pc_RegType p = key) points)"
  using assms key_chunks_points
  by (auto simp: OptimizeChunks_def group_points_eq Let_def split: if_splits)

lemma optimize_wf:
  assumes "OptimizeChunks srt points key = Some chunks" "c \<in> set chunks"
    and "\<forall>p\<in>set points. addr_ok p"
  shows "chunk_wf key c"
  using assms key_chunks_wf [of "filter (\<lambda>p. pc_RegType p = key) points" c key]
  by (auto simp: OptimizeChunks_def group_points_eq Let_def split: if_splits)

lemma optimize_points_set:
  assumes "OptimizeChunks srt points key = Some chunks"
  shows "(\<Union>c\<in>set chunks. set (rc_Points c)) = {p \<in> set points. pc_RegType p = key}"
  using arg_cong [OF optimize_points [OF assms], of set_mset] by auto

lemma optimize_span:
  assumes "OptimizeChunks srt points key = Some chunks" and "\<forall>p\<in>set points. addr_ok p"
  shows "(\<Union>c\<in>set chunks. chunk_span c) =
    (\<Union>p\<in>{p \<in> set points. pc_RegType p = key}. point_span p)"
proof -
  have "chunk_span c = (\<Union>p\<in>set (rc_Points c). point_span p)" if "c \<in> set chunks" for c
    using optimize_wf [OF assms(1) that assms(2)] by (simp add: chunk_wf_def)
  then have "(\<Union>c\<in>set chunks. chunk_span c) =
      (\<Union>p\<in>(\<Union>c\<in>set chunks. set (rc_Points c)). point_span p)"
    by simp
  then show ?thesis by (simp only: optimize_points_set [OF assms(1)])
qed

end

interpretation go_point_sort: point_sort insertion_sort ..

section \<open>Properties\<close>

text \<open>
  C6: every batch read that \<open>OptimizeChunks\<close> produces asks for between one register and the
  permitted maximum, never runs past address 65535, and asks exactly for the registers that
  its own points occupy; no 16-bit address computation of the merge loop wraps into a wrong
  read.
\<close>

theorem OptimizeChunks_well_formed:
  assumes "slice_sort srt" and "\<forall>p\<in>set points. addr_ok p"
    and "OptimizeChunks srt points key = Some chunks" and "c \<in> set chunks"
  shows "chunk_wf key c"
  by (rule point_sort.optimize_wf [OF point_sort.intro [OF assms(1)] assms(3) assms(4) assms(2)])

text \<open>
  Merging loses no point and reads none twice: the points of the batch reads of a register
  type are, as a multiset, exactly the configured points of that type, whatever order the
  unstable sort gives to equal addresses.
\<close>

lemma OptimizeChunks_partition:
  assumes "slice_sort srt" and "OptimizeChunks srt points key = Some chunks"
  shows "mset (concat (map rc_Points chunks)) = mset (filter (\<lambda>p. pc_RegType p = key) points)"
  by (rule point_sort.optimize_points [OF point_sort.intro [OF assms(1)] assms(2)])

text \<open>
  C12: together the batch reads of a register type request exactly the registers that the
  configured points of that type occupy: every needed register is read, and no device register
  that no point names is ever touched.
\<close>

theorem OptimizeChunks_exact_cover:
  assumes "slice_sort srt" and "\<forall>p\<in>set points. addr_ok p"
    and "OptimizeChunks srt points key = Some chunks"
  shows "(\<Union>c\<in>set chunks. chunk_span c) =
    (\<Union>p\<in>{p \<in> set points. pc_RegType p = key}. point_span p)"
  by (rule point_sort.optimize_span [OF point_sort.intro [OF assms(1)] assms(3) assms(2)])

section \<open>Witnesses\<close>

definition sample_point :: "string \<Rightarrow> nat \<Rightarrow> string \<Rightarrow> PointConfig" where
  "sample_point tag a d = \<lparr>pc_TagName = tag, pc_Description = [], pc_RegType = ''HoldingReg'',
     pc_Address = of_nat a, pc_DataType = d, pc_BitOffset = 0, pc_BitLen = 0, pc_Writeable = False\<rparr>"

lemma sample_point_sel [simp]:
  "pc_RegType (sample_point t a d) = ''HoldingReg''"
  "pc_Address (sample_point t a d) = of_nat a"
  "pc_DataType (sample_point t a d) = d"
  by (simp_all add: sample_point_def)

lemma sample_count [simp]:
  "GetRegisterCount (sample_point t a ''Float32'') = 2"
  "GetRegisterCount (sample_point t a ''UInt16'') = 1"
  "GetRegisterCount (sample_point t a ''Double'') = 4"
  by (simp_all add: GetRegisterCount_def IsRegTypeBit_def)

definition sample_points :: "PointConfig list" where
  "sample_points = [sample_point ''c'' 10 ''Double'', sample_point ''a'' 0 ''UInt16'',
     sample_point ''b'' 1 ''Float32'']"

definition sample_chunks :: "ReadChunk list" where
  "sample_chunks =
     [\<lparr>rc_StartAddr = 0, rc_Quantity = 3,
       rc_Points = [sample_point ''a'' 0 ''UInt16'', sample_point ''b'' 1 ''Float32'']\<rparr>,
      \<lparr>rc_StartAddr = 10, rc_Quantity = 4, rc_Points = [sample_point ''c'' 10 ''Double'']\<rparr>]"

lemma sample_sorted:
  "insertion_sort (\<lambda>p q. pc_Address p < pc_Address q) sample_points =
     [sample_point ''a'' 0 ''UInt16'', sample_point ''b'' 1 ''Float32'', sample_point ''c'' 10 ''Double'']"
  by (simp add: insertion_sort_def sample_points_def)

lemma sample_group: "group_points sample_points ''HoldingReg'' = Some sample_points"
  by (simp add: group_points_eq sample_points_def)

lemma sample_max_qty: "max_qty ''HoldingReg'' = 125"
  by (simp add: max_qty_def IsRegTypeBit_def maxRegisters_def)

lemma sample_optimize:
  "OptimizeChunks insertion_sort sample_points ''HoldingReg'' = Some sample_chunks"
  by (simp add: OptimizeChunks_def sample_group key_chunks_def sample_sorted sample_max_qty
      close_chunk_def open_chunk_def end_addr_def sample_chunks_def)

lemma sample_addr_ok: "\<forall>p\<in>set sample_points. addr_ok p"
  by (simp add: sample_points_def addr_ok_def)

theorem OptimizeChunks_well_formed_witness:
  "chunk_wf ''HoldingReg'' (hd sample_chunks)"
  by (rule OptimizeChunks_well_formed [OF go_sort.slice_sort_axioms sample_addr_ok sample_optimize])
    (simp add: sample_chunks_def)

theorem OptimizeChunks_partition_witness:
  "mset (concat (map rc_Points sample_chunks)) =
     mset (filter (\<lambda>p. pc_RegType p = ''HoldingReg'') sample_points)"
  by (rule OptimizeChunks_partition [OF go_sort.slice_sort_axioms sample_optimize])

theorem OptimizeChunks_exact_cover_witness:
  "(\<Union>c\<in>set sample_chunks. chunk_span c) =
     (\<Union>p\<in>{p \<in> set sample_points. pc_RegType p = ''HoldingReg''}. point_span p)"
  by (rule OptimizeChunks_exact_cover [OF go_sort.slice_sort_axioms sample_addr_ok sample_optimize])

end
