(* ===== verification/GoFloat.thy ===== *)
theory GoFloat
  imports Prelude Complex_Main
begin

text \<open>
  Go's \<open>float64\<close> as its IEEE-754 bit pattern: conversion from integers (round to nearest even)
  and from \<open>float32\<close>, the comparison \<open>==\<close> (a NaN differs from itself, the two zeros agree), and
  the real number a finite pattern stands for. The lemmas say that the conversions the
  collector performs are exact.
\<close>

type_synonym f64 = "64 word"

section \<open>Bit patterns\<close>

definition f64_pack :: "bool \<Rightarrow> nat \<Rightarrow> nat \<Rightarrow> f64" where
  "f64_pack s e m = of_nat ((if s then 2 ^ 63 else 0) + e * 2 ^ 52 + m)"

definition f64_sign :: "f64 \<Rightarrow> bool" where
  "f64_sign w \<longleftrightarrow> 2 ^ 63 \<le> unat w"

definition f64_exp :: "f64 \<Rightarrow> nat" where
  "f64_exp w = unat w div 2 ^ 52 mod 2 ^ 11"

definition f64_man :: "f64 \<Rightarrow> nat" where
  "f64_man w = unat w mod 2 ^ 52"

definition f64_is_nan :: "f64 \<Rightarrow> bool" where
  "f64_is_nan w \<longleftrightarrow> f64_exp w = 2047 \<and> f64_man w \<noteq> 0"

definition f64_is_zero :: "f64 \<Rightarrow> bool" where
  "f64_is_zero w \<longleftrightarrow> f64_exp w = 0 \<and> f64_man w = 0"

definition f64_eq :: "f64 \<Rightarrow> f64 \<Rightarrow> bool" where
  "f64_eq a b \<longleftrightarrow> \<not> f64_is_nan a \<and> \<not> f64_is_nan b \<and> (a = b \<or> f64_is_zero a \<and> f64_is_zero b)"

text \<open>The value of a finite pattern.\<close>

definition f64_value :: "f64 \<Rightarrow> real" where
  "f64_value w = (if f64_sign w then - 1 else 1) *
     (if f64_exp w = 0 then real (f64_man w) * 2 / 2 ^ 1075
      else real (2 ^ 52 + f64_man w) * 2 ^ f64_exp w / 2 ^ 1075)"

lemma unat_of_nat_64: "n < 2 ^ 64 \<Longrightarrow> unat (of_nat n :: 64 word) = n"
  by (simp add: unsigned_of_nat take_bit_nat_eq_self)

lemma unat_f64_pack:
  assumes "e < 2 ^ 11" "m < 2 ^ 52"
  shows "unat (f64_pack s e m) = (if s then 2 ^ 63 else 0) + e * 2 ^ 52 + m"
proof -
  have "e * 2 ^ 52 + m < 2 ^ 63"
    using assms by simp
  then have "(if s then 2 ^ 63 else 0) + e * 2 ^ 52 + m < (2::nat) ^ 64"
    by simp
  then show ?thesis
    unfolding f64_pack_def by (rule unat_of_nat_64)
qed

lemma f64_pack_fields:
  assumes "e < 2 ^ 11" "m < 2 ^ 52"
  shows "f64_sign (f64_pack s e m) = s" "f64_exp (f64_pack s e m) = e" "f64_man (f64_pack s e m) = m"
proof -
  define k where "k = (if s then 2 ^ 11 + e else e)"
  have u: "unat (f64_pack s e m) = k * 2 ^ 52 + m"
    using assms by (simp add: unat_f64_pack k_def)
  have "(k * 2 ^ 52 + m) div 2 ^ 52 = k" "(k * 2 ^ 52 + m) mod 2 ^ 52 = m"
    using assms(2) by simp_all
  moreover have "k mod 2 ^ 11 = e" using assms(1) by (simp add: k_def)
  ultimately show "f64_exp (f64_pack s e m) = e" "f64_man (f64_pack s e m) = m"
    by (simp_all only: f64_exp_def f64_man_def u)
  show "f64_sign (f64_pack s e m) = s"
    using assms by (simp add: f64_sign_def unat_f64_pack)
qed

lemma f64_pack_inj:
  assumes "e < 2 ^ 11" "m < 2 ^ 52" "e' < 2 ^ 11" "m' < 2 ^ 52"
    and "f64_pack s e m = f64_pack s' e' m'"
  shows "s = s' \<and> e = e' \<and> m = m'"
  using assms f64_pack_fields by metis

section \<open>Conversions\<close>

fun ilog2 :: "nat \<Rightarrow> nat" where
  "ilog2 n = (if n < 2 then 0 else Suc (ilog2 (n div 2)))"

declare ilog2.simps [simp del]

lemma ilog2_bounds: "0 < n \<Longrightarrow> 2 ^ ilog2 n \<le> n \<and> n < 2 ^ Suc (ilog2 n)"
proof (induction n rule: ilog2.induct)
  case (1 n)
  show ?case
  proof (cases "n < 2")
    case True
    with "1.prems" show ?thesis by (simp add: ilog2.simps [of n])
  next
    case False
    with 1 have "2 ^ ilog2 (n div 2) \<le> n div 2" "n div 2 < 2 ^ Suc (ilog2 (n div 2))" by auto
    with False show ?thesis by (auto simp: ilog2.simps [of n])
  qed
qed

lemma ilog2_less: "0 < n \<Longrightarrow> n < 2 ^ k \<Longrightarrow> ilog2 n < k"
  using ilog2_bounds [of n] by (metis le_less_trans nat_power_less_imp_less zero_less_numeral)

text \<open>\<open>float64(n)\<close> of a natural number: exact up to 53 bits, then rounded to nearest even.\<close>

definition f64_of_nat :: "bool \<Rightarrow> nat \<Rightarrow> f64" where
  "f64_of_nat s n =
     (if n = 0 then f64_pack s 0 0
      else
        let e = ilog2 n
        in if e \<le> 52 then f64_pack s (e + 1023) (n * 2 ^ (52 - e) - 2 ^ 52)
           else
             let q = n div 2 ^ (e - 52);
                 r = n mod 2 ^ (e - 52);
                 half = 2 ^ (e - 53);
                 q' = (if half < r \<or> half = r \<and> odd q then Suc q else q)
             in f64_pack s (e + 1023) (q' - 2 ^ 52))"

definition f64_of_int :: "int \<Rightarrow> f64" where
  "f64_of_int i = (if i < 0 then f64_of_nat True (nat (- i)) else f64_of_nat False (nat i))"

text \<open>\<open>float64(math.Float32frombits(w))\<close>: widening is exact; a NaN stays a (quiet) NaN.\<close>

definition f64_of_f32 :: "u32 \<Rightarrow> f64" where
  "f64_of_f32 w =
     (let n = unat w; s = (2 ^ 31 \<le> n); e = n div 2 ^ 23 mod 2 ^ 8; m = n mod 2 ^ 23
      in if e = 255 then
           (if m = 0 then f64_pack s 2047 0
            else f64_pack s 2047 ((if m < 2 ^ 22 then m + 2 ^ 22 else m) * 2 ^ 29))
         else if e = 0 then
           (if m = 0 then f64_pack s 0 0
            else f64_pack s (ilog2 m + 874) (m * 2 ^ (52 - ilog2 m) - 2 ^ 52))
         else f64_pack s (e + 896) (m * 2 ^ 29))"

section \<open>Exactness\<close>

lemma normalised_mantissa:
  assumes "0 < n" "ilog2 n \<le> 52"
  shows "2 ^ 52 \<le> n * 2 ^ (52 - ilog2 n)" "n * 2 ^ (52 - ilog2 n) < 2 ^ 53"
proof -
  let ?e = "ilog2 n"
  have "(2::nat) ^ ?e * 2 ^ (52 - ?e) = 2 ^ 52" "(2::nat) ^ Suc ?e * 2 ^ (52 - ?e) = 2 ^ 53"
    using assms(2) by (simp_all flip: power_add)
  then show "2 ^ 52 \<le> n * 2 ^ (52 - ?e)" "n * 2 ^ (52 - ?e) < 2 ^ 53"
    using ilog2_bounds [OF assms(1)] mult_le_mono1 [of "2 ^ ?e" n "2 ^ (52 - ?e)"]
      mult_less_mono1 [of n "2 ^ Suc ?e" "2 ^ (52 - ?e)"]
    by (simp_all only: zero_less_power zero_less_numeral)
qed

lemma f64_value_pack_normal:
  assumes "0 < e" "e < 2047" "m < 2 ^ 52"
  shows "f64_value (f64_pack s e m) = (if s then - 1 else 1) * (real (2 ^ 52 + m) * 2 ^ e / 2 ^ 1075)"
  using assms f64_pack_fields [of e m s] by (simp add: f64_value_def)

lemma f64_value_normalised:
  assumes "0 < n" "ilog2 n \<le> 52" "0 < k" "ilog2 n + k < 2047"
  shows "f64_value (f64_pack s (ilog2 n + k) (n * 2 ^ (52 - ilog2 n) - 2 ^ 52)) =
    (if s then - 1 else 1) * (real n * 2 ^ (52 + k) / 2 ^ 1075)"
proof -
  let ?e = "ilog2 n"
  note b = normalised_mantissa [OF assms(1,2)]
  have "real (2 ^ 52 + (n * 2 ^ (52 - ?e) - 2 ^ 52)) = real n * 2 ^ (52 - ?e)"
    using b(1) by (metis le_add_diff_inverse of_nat_mult of_nat_numeral of_nat_power)
  moreover have "(2::real) ^ (52 - ?e) * 2 ^ (?e + k) = 2 ^ (52 + k)"
    using assms(2) by (simp flip: power_add)
  ultimately show ?thesis
    using b assms by (subst f64_value_pack_normal) (auto simp: mult.assoc)
qed

lemma f64_value_of_nat:
  assumes "n < 2 ^ 53"
  shows "f64_value (f64_of_nat s n) = (if s then - 1 else 1) * real n"
proof (cases "n = 0")
  case True
  then show ?thesis using f64_pack_fields [of 0 0 s] by (simp add: f64_of_nat_def f64_value_def)
next
  case False
  then have e: "ilog2 n \<le> 52" using ilog2_less [of n 53] assms by simp
  have "f64_of_nat s n = f64_pack s (ilog2 n + 1023) (n * 2 ^ (52 - ilog2 n) - 2 ^ 52)"
    using False e by (simp add: f64_of_nat_def Let_def)
  then show ?thesis
    using f64_value_normalised [of n 1023 s] False e by simp
qed

lemma f64_value_of_int:
  assumes "\<bar>i\<bar> < 2 ^ 53"
  shows "f64_value (f64_of_int i) = real_of_int i"
  using assms f64_value_of_nat [of "nat (- i)" True] f64_value_of_nat [of "nat i" False]
  by (auto simp: f64_of_int_def)

lemma f64_exp_of_int: "\<bar>i\<bar> < 2 ^ 53 \<Longrightarrow> f64_exp (f64_of_int i) < 2047"
proof -
  assume i: "\<bar>i\<bar> < 2 ^ 53"
  have "f64_exp (f64_of_nat s n) < 2047" if "n < 2 ^ 53" for s n
  proof (cases "n = 0")
    case True
    then show ?thesis using f64_pack_fields [of 0 0 s] by (simp add: f64_of_nat_def)
  next
    case False
    then have e: "ilog2 n \<le> 52" using ilog2_less [of n 53] that by simp
    note b = normalised_mantissa [OF _ e]
    have "f64_exp (f64_pack s (ilog2 n + 1023) (n * 2 ^ (52 - ilog2 n) - 2 ^ 52)) = ilog2 n + 1023"
      using b False e by (intro f64_pack_fields) auto
    then show ?thesis using False e by (simp add: f64_of_nat_def Let_def)
  qed
  with i show ?thesis by (auto simp: f64_of_int_def)
qed

text \<open>On the integers the collector produces, \<open>==\<close> on \<open>float64\<close> is equality of the numbers.\<close>

lemma f64_eq_of_int:
  assumes "\<bar>i\<bar> < 2 ^ 53" "\<bar>j\<bar> < 2 ^ 53"
  shows "f64_eq (f64_of_int i) (f64_of_int j) \<longleftrightarrow> i = j"
proof
  assume "f64_eq (f64_of_int i) (f64_of_int j)"
  then have "f64_value (f64_of_int i) = f64_value (f64_of_int j)"
    by (auto simp: f64_eq_def f64_is_zero_def f64_value_def)
  with assms show "i = j" by (simp add: f64_value_of_int)
next
  assume "i = j"
  with f64_exp_of_int [OF assms(1)] show "f64_eq (f64_of_int i) (f64_of_int j)"
    by (simp add: f64_eq_def f64_is_nan_def)
qed

lemma f64_eq_sym: "f64_eq a b = f64_eq b a"
  by (auto simp: f64_eq_def)

lemma f64_eq_refl: "f64_eq a a \<longleftrightarrow> \<not> f64_is_nan a"
  by (simp add: f64_eq_def)

text \<open>The value of a finite \<open>float32\<close> pattern, and exactness of widening.\<close>

definition f32_finite :: "u32 \<Rightarrow> bool" where
  "f32_finite w \<longleftrightarrow> unat w div 2 ^ 23 mod 2 ^ 8 \<noteq> 255"

definition f32_value :: "u32 \<Rightarrow> real" where
  "f32_value w =
     (let n = unat w; e = n div 2 ^ 23 mod 2 ^ 8; m = n mod 2 ^ 23
      in (if 2 ^ 31 \<le> n then - 1 else 1) *
         (if e = 0 then real m * 2 / 2 ^ 150 else real (2 ^ 23 + m) * 2 ^ e / 2 ^ 150))"

lemma f64_value_of_f32:
  assumes "f32_finite w"
  shows "f64_value (f64_of_f32 w) = f32_value w"
proof -
  define s where "s = (2 ^ 31 \<le> unat w)"
  define e where "e = unat w div 2 ^ 23 mod 2 ^ 8"
  define m where "m = unat w mod 2 ^ 23"
  have m: "m < 2 ^ 23" and e: "e < 2 ^ 8" "e \<noteq> 255"
    using assms by (simp_all add: m_def e_def f32_finite_def)
  have val: "f32_value w = (if s then - 1 else 1) *
      (if e = 0 then real m * 2 / 2 ^ 150 else real (2 ^ 23 + m) * 2 ^ e / 2 ^ 150)"
    by (simp add: f32_value_def s_def e_def m_def Let_def)
  have conv: "f64_of_f32 w =
      (if e = 0 then (if m = 0 then f64_pack s 0 0
         else f64_pack s (ilog2 m + 874) (m * 2 ^ (52 - ilog2 m) - 2 ^ 52))
       else f64_pack s (e + 896) (m * 2 ^ 29))"
    using e(2) unfolding f64_of_f32_def Let_def s_def e_def m_def by (simp only: if_False)
  consider "e = 0" "m = 0" | "e = 0" "0 < m" | "0 < e" by blast
  then show ?thesis
  proof cases
    case 1
    then show ?thesis
      using f64_pack_fields [of 0 0 s] by (simp add: conv val f64_value_def)
  next
    case 2
    have "ilog2 m < 23" using 2(2) m by (rule ilog2_less)
    then have "f64_value (f64_of_f32 w) = (if s then - 1 else 1) * (real m * 2 ^ (52 + 874) / 2 ^ 1075)"
      using 2 f64_value_normalised [of m 874 s] by (simp add: conv)
    moreover have "(2::real) ^ (52 + 874) / 2 ^ 1075 = 2 / 2 ^ 150"
      using power_diff [of "2::real" 149 1075] by (simp add: field_simps)
    ultimately show ?thesis using 2 by (simp add: val)
  next
    case 3
    have "f64_value (f64_of_f32 w) =
        (if s then - 1 else 1) * (real (2 ^ 52 + m * 2 ^ 29) * 2 ^ (e + 896) / 2 ^ 1075)"
      using 3 e m by (simp only: conv if_not_P [of "e = 0"])
        (subst f64_value_pack_normal, auto)
    moreover have "real (2 ^ 52 + m * 2 ^ 29) * 2 ^ (e + 896) / 2 ^ 1075 =
        real (2 ^ 23 + m) * 2 ^ e / 2 ^ 150"
      by (simp add: power_add field_simps)
    moreover have "\<not> e = 0" using 3 by simp
    ultimately show ?thesis by (simp only: val if_False)
  qed
qed

end
