(* ===== verification/Udm.thy ===== *)
theory Udm
  imports DataModel GoFloat
begin

text \<open>
  \<open>internal/udm\<close>: the store of current point values. A collected value is an \<open>interface{}\<close>;
  the dynamic types the program puts into one are the constructors of \<open>anyval\<close>. The store is
  two maps, values and update times, that every write changes together; the interface
  \<open>value_store\<close> states what its clients rely on.
\<close>

datatype anyval =
    VBool bool
  | VFloat64 f64
  | VUint16 u16
  | VInt16 u16
  | VInt int
  | VOther string

text \<open>\<open>reflect.DeepEqual\<close> on two such values: same dynamic type and \<open>==\<close>.\<close>

fun deep_equal :: "anyval \<Rightarrow> anyval \<Rightarrow> bool" where
  "deep_equal (VBool a) (VBool b) = (a = b)"
| "deep_equal (VFloat64 a) (VFloat64 b) = f64_eq a b"
| "deep_equal (VUint16 a) (VUint16 b) = (a = b)"
| "deep_equal (VInt16 a) (VInt16 b) = (a = b)"
| "deep_equal (VInt a) (VInt b) = (a = b)"
| "deep_equal (VOther a) (VOther b) = (a = b)"
| "deep_equal _ _ = False"

record Value =
  v_Value :: anyval
  v_UpdatedAt :: instant

record UniversalDataModel =
  udm_data :: "string \<rightharpoonup> anyval"
  udm_times :: "string \<rightharpoonup> instant"

definition udm_New :: UniversalDataModel where
  "udm_New = \<lparr>udm_data = Map.empty, udm_times = Map.empty\<rparr>"

definition udm_UpdateAt :: "UniversalDataModel \<Rightarrow> string \<Rightarrow> anyval \<Rightarrow> instant \<Rightarrow> UniversalDataModel" where
  "udm_UpdateAt u tag val obs =
     u\<lparr>udm_data := (udm_data u)(tag \<mapsto> val), udm_times := (udm_times u)(tag \<mapsto> obs)\<rparr>"

text \<open>\<open>Update\<close> takes the time from the clock, which is the argument \<open>now\<close>.\<close>

definition udm_Update :: "UniversalDataModel \<Rightarrow> string \<Rightarrow> anyval \<Rightarrow> instant \<Rightarrow> UniversalDataModel" where
  "udm_Update u tag val now = udm_UpdateAt u tag val now"

text \<open>A missing entry of the time map reads as the zero instant, as in Go.\<close>

definition udm_Snapshot :: "UniversalDataModel \<Rightarrow> string \<Rightarrow> Value option" where
  "udm_Snapshot u = (\<lambda>tag. map_option (\<lambda>value. \<lparr>v_Value = value,
     v_UpdatedAt = (case udm_times u tag of None \<Rightarrow> 0 | Some t \<Rightarrow> t)\<rparr>) (udm_data u tag))"

definition udm_Get :: "UniversalDataModel \<Rightarrow> string \<Rightarrow> anyval option" where
  "udm_Get u tag = udm_data u tag"

definition udm_GetAll :: "UniversalDataModel \<Rightarrow> string \<Rightarrow> anyval option" where
  "udm_GetAll u = udm_data u"

definition udm_wf :: "UniversalDataModel \<Rightarrow> bool" where
  "udm_wf u \<longleftrightarrow> dom (udm_data u) = dom (udm_times u)"

section \<open>The interface\<close>

text \<open>A value store: reading gives the last write to the tag with its time.\<close>

locale value_store =
  fixes new :: 's
    and upd :: "'s \<Rightarrow> string \<Rightarrow> anyval \<Rightarrow> instant \<Rightarrow> 's"
    and snap :: "'s \<Rightarrow> string \<Rightarrow> Value option"
    and wf :: "'s \<Rightarrow> bool"
  assumes new_wf: "wf new"
    and upd_wf: "wf s \<Longrightarrow> wf (upd s tag v t)"
    and snap_new: "snap new tag = None"
    and snap_upd: "wf s \<Longrightarrow> snap (upd s tag v t) =
      (snap s)(tag \<mapsto> \<lparr>v_Value = v, v_UpdatedAt = t\<rparr>)"
begin

definition run :: "'s \<Rightarrow> (string \<times> anyval \<times> instant) list \<Rightarrow> 's" where
  "run s ws = foldl (\<lambda>s (tag, v, t). upd s tag v t) s ws"

lemma run_wf: "wf s \<Longrightarrow> wf (run s ws)"
  unfolding run_def by (induction ws arbitrary: s) (auto simp: upd_wf)

lemma run_append: "run s (ws @ ws') = run (run s ws) ws'"
  by (simp add: run_def)

lemma run_last_write:
  assumes "wf s" and "tag \<notin> fst ` set later"
  shows "snap (run s (earlier @ (tag, v, t) # later)) tag = Some \<lparr>v_Value = v, v_UpdatedAt = t\<rparr>"
proof -
  have keep: "snap (run s' later) tag = snap s' tag" if "wf s'" "tag \<notin> fst ` set later" for s' later
    using that unfolding run_def
    by (induction later arbitrary: s') (auto simp: snap_upd upd_wf)
  have "run s (earlier @ (tag, v, t) # later) = run (upd (run s earlier) tag v t) later"
    by (simp add: run_def)
  then show ?thesis
    using assms by (simp add: keep snap_upd upd_wf run_wf)
qed

lemma run_untouched:
  "wf s \<Longrightarrow> tag \<notin> fst ` set ws \<Longrightarrow> snap (run s ws) tag = snap s tag"
  unfolding run_def by (induction ws arbitrary: s) (auto simp: snap_upd upd_wf)

end

lemma udm_Snapshot_UpdateAt:
  "udm_Snapshot (udm_UpdateAt u tag v t) = (udm_Snapshot u)(tag \<mapsto> \<lparr>v_Value = v, v_UpdatedAt = t\<rparr>)"
  by (rule ext) (simp add: udm_Snapshot_def udm_UpdateAt_def)

lemma udm_Snapshot_New: "udm_Snapshot udm_New tag = None"
  by (simp add: udm_Snapshot_def udm_New_def)

lemma udm_UpdateAt_wf [wf_intros]: "udm_wf u \<Longrightarrow> udm_wf (udm_UpdateAt u tag v t)"
  by (simp add: udm_wf_def udm_UpdateAt_def)

lemma udm_New_wf [wf_intros]: "udm_wf udm_New"
  by (simp add: udm_wf_def udm_New_def)

interpretation vs: value_store udm_New udm_UpdateAt udm_Snapshot udm_wf
  by unfold_locales
    (simp_all add: udm_Snapshot_UpdateAt udm_UpdateAt_wf udm_New_wf udm_Snapshot_New)

section \<open>Properties\<close>

definition udm_run :: "UniversalDataModel \<Rightarrow> (string \<times> anyval \<times> instant) list \<Rightarrow> UniversalDataModel" where
  "udm_run u ws = foldl (\<lambda>u (tag, v, t). udm_UpdateAt u tag v t) u ws"

lemma udm_run_vs: "udm_run = vs.run"
  by (intro ext) (simp add: udm_run_def vs.run_def)

text \<open>
  After any history of updates, a snapshot shows for each tag exactly the value and the
  observation time of the last update of that tag, whatever was written to other tags later.
\<close>

lemma udm_snapshot_last_write:
  assumes "tag \<notin> fst ` set later"
  shows "udm_Snapshot (udm_run udm_New (earlier @ (tag, v, t) # later)) tag =
    Some \<lparr>v_Value = v, v_UpdatedAt = t\<rparr>"
  unfolding udm_run_vs using udm_New_wf assms by (rule vs.run_last_write)

theorem udm_snapshot_last_write_witness:
  "udm_Snapshot (udm_run udm_New ([(''a'', VBool True, 1)] @ (''a'', VBool False, 2) # [(''b'', VBool True, 3)]))
     ''a'' = Some \<lparr>v_Value = VBool False, v_UpdatedAt = 2\<rparr>"
  by (rule udm_snapshot_last_write) simp

end
