(* ===== verification/Decode.thy ===== *)
theory Decode
  imports ReadChunks Udm
begin

unbundle bit_operations_syntax

text \<open>
  The value decoding of \<open>internal/collector/collector.go\<close>: \<open>applyGlobalByteOrder\<close> and the
  per-point part of \<open>parseAndUpdate\<close>, from the raw response bytes of one batch read to the
  value stored for one point. Addresses and byte offsets are 16-bit words and the extraction
  works on 64-bit words, as in the code; a slice expression out of range and a shift by a
  negative count are the panics they are in Go.
\<close>

section \<open>Byte order\<close>

definition applyGlobalByteOrder :: "string \<Rightarrow> u8 list \<Rightarrow> u8 list" where
  "applyGlobalByteOrder byteOrder d =
     (if byteOrder = ''ABCD'' \<or> byteOrder = [] then d
      else if length d = 2 then d
      else if length d = 4 then
        (if byteOrder = ''DCBA'' then [d ! 3, d ! 2, d ! 1, d ! 0]
         else if byteOrder = ''CDAB'' then [d ! 2, d ! 3, d ! 0, d ! 1]
         else if byteOrder = ''BADC'' then [d ! 1, d ! 0, d ! 3, d ! 2]
         else replicate 4 0)
      else if length d = 8 then
        (if byteOrder = ''DCBA'' then map (\<lambda>i. d ! (7 - i)) [0 ..< 8]
         else if byteOrder = ''CDAB'' then
           [d ! 2, d ! 3, d ! 0, d ! 1, d ! 6, d ! 7, d ! 4, d ! 5]
         else if byteOrder = ''BADC'' then
           [d ! 1, d ! 0, d ! 3, d ! 2, d ! 5, d ! 4, d ! 7, d ! 6]
         else replicate 8 0)
      else d)"

definition valid_byte_order :: "string \<Rightarrow> bool" where
  "valid_byte_order bo \<longleftrightarrow> bo \<in> {''ABCD'', ''DCBA'', ''CDAB'', ''BADC''}"

lemma list_of_length_4:
  assumes "length d = 4"
  obtains a b c e where "d = [a, b, c, e]"
  using assms by (auto simp: numeral_eq_Suc length_Suc_conv)

lemma list_of_length_8:
  assumes "length d = 8"
  obtains a b c e f g h i where "d = [a, b, c, e, f, g, h, i]"
  using assms by (auto simp: numeral_eq_Suc length_Suc_conv)

lemma upt_8: "[0 ..< 8] = [0, 1, 2, 3, 4, 5, 6, 7]"
  by (simp add: upt_rec)

lemma length_applyGlobalByteOrder [simp]:
  "length (applyGlobalByteOrder bo d) = length d"
  by (simp add: applyGlobalByteOrder_def)

lemma byte_order_involution:
  assumes "valid_byte_order bo"
  shows "applyGlobalByteOrder bo (applyGlobalByteOrder bo d) = d"
proof -
  consider (four) "length d = 4" | (eight) "length d = 8" | (other) "length d \<noteq> 4" "length d \<noteq> 8"
    by blast
  then show ?thesis
  proof cases
    case four
    then show ?thesis
      using assms by (elim list_of_length_4) (auto simp: applyGlobalByteOrder_def valid_byte_order_def)
  next
    case eight
    then show ?thesis
      using assms by (elim list_of_length_8)
        (auto simp: applyGlobalByteOrder_def valid_byte_order_def upt_8)
  next
    case other
    then show ?thesis
      using assms by (auto simp: applyGlobalByteOrder_def valid_byte_order_def)
  qed
qed

lemma byte_order_permutation:
  assumes "valid_byte_order bo"
  shows "mset (applyGlobalByteOrder bo d) = mset d"
proof -
  consider (four) "length d = 4" | (eight) "length d = 8" | (other) "length d \<noteq> 4" "length d \<noteq> 8"
    by blast
  then show ?thesis
  proof cases
    case four
    then show ?thesis
      using assms by (elim list_of_length_4) (auto simp: applyGlobalByteOrder_def valid_byte_order_def)
  next
    case eight
    then show ?thesis
      using assms by (elim list_of_length_8)
        (auto simp: applyGlobalByteOrder_def valid_byte_order_def upt_8)
  next
    case other
    then show ?thesis
      using assms by (auto simp: applyGlobalByteOrder_def valid_byte_order_def)
  qed
qed

section \<open>Extraction and conversion\<close>

definition be_nat :: "u8 list \<Rightarrow> nat" where
  "be_nat bs = foldl (\<lambda>n b. n * 256 + unat b) 0 bs"

text \<open>\<open>binary.BigEndian.Uint16/Uint32/Uint64\<close> widened to \<open>uint64\<close>; any other length leaves
  the zero value.\<close>

definition raw_uint :: "u8 list \<Rightarrow> u64" where
  "raw_uint bs = (if length bs = 2 \<or> length bs = 4 \<or> length bs = 8 then of_nat (be_nat bs) else 0)"

definition effective_len :: "PointConfig \<Rightarrow> int" where
  "effective_len pt =
     (let l = (if pc_BitOffset pt > 0 \<and> pc_BitLen pt = 0 then 1 else pc_BitLen pt)
      in if l = 0 then TypeBitWidth (pc_DataType pt) else l)"

definition extract_bits :: "u64 \<Rightarrow> int \<Rightarrow> int \<Rightarrow> u64" where
  "extract_bits rawUint off len =
     (let mask = push_bit (nat len) 1 - 1 in drop_bit (nat off) rawUint AND mask)"

definition convert_value :: "string \<Rightarrow> int \<Rightarrow> u64 \<Rightarrow> anyval" where
  "convert_value dataType effectiveLen extracted =
     (if dataType = ''Bool'' then VBool (extracted = 1)
      else if dataType = ''Int16'' then
        (if effectiveLen = 16 then VFloat64 (f64_of_int (sint (ucast extracted :: u16)))
         else VFloat64 (f64_of_int (uint extracted)))
      else if dataType = ''UInt16'' then VFloat64 (f64_of_int (uint extracted))
      else if dataType = ''Int32'' then
        (if effectiveLen = 32 then VFloat64 (f64_of_int (sint (ucast extracted :: u32)))
         else VFloat64 (f64_of_int (uint extracted)))
      else if dataType = ''UInt32'' then VFloat64 (f64_of_int (uint extracted))
      else if dataType = ''Float32'' then VFloat64 (f64_of_f32 (ucast extracted))
      else if dataType = ''Double'' then VFloat64 extracted
      else VFloat64 (f64_of_int (uint extracted)))"

text \<open>What happens for one point: a run-time panic, a logged skip, or a value.\<close>

datatype point_result = Panic | Skip | Got anyval

definition parse_bit_point :: "u16 \<Rightarrow> u8 list \<Rightarrow> PointConfig \<Rightarrow> point_result" where
  "parse_bit_point start raw pt =
     (let bitIdx = pc_Address pt - start;
          byteIdx = bitIdx div 8;
          bitOffset = bitIdx mod 8
      in if length raw \<le> unat byteIdx then Skip
         else Got (VBool (drop_bit (unat bitOffset) (raw ! unat byteIdx) AND 1 = 1)))"

definition parse_register_point :: "string \<Rightarrow> u16 \<Rightarrow> u8 list \<Rightarrow> PointConfig \<Rightarrow> point_result" where
  "parse_register_point byteOrder start raw pt =
     (let byteOffset = (pc_Address pt - start) * 2;
          requiredBytes = GetRegisterCount pt * 2
      in if byteOffset + requiredBytes > of_nat (length raw) then Skip
         else if unat (byteOffset + requiredBytes) < unat byteOffset then Panic
         else
           let dataSlice = take (unat (byteOffset + requiredBytes) - unat byteOffset)
                 (drop (unat byteOffset) raw);
               rawUint = raw_uint (applyGlobalByteOrder byteOrder dataSlice);
               effectiveLen = effective_len pt
           in if effectiveLen < 0 \<or> pc_BitOffset pt < 0 then Panic
              else Got (convert_value (pc_DataType pt) effectiveLen
                     (extract_bits rawUint (pc_BitOffset pt) effectiveLen)))"

definition parse_point :: "string \<Rightarrow> bool \<Rightarrow> u16 \<Rightarrow> u8 list \<Rightarrow> PointConfig \<Rightarrow> point_result" where
  "parse_point byteOrder isBit start raw pt =
     (if isBit then parse_bit_point start raw pt else parse_register_point byteOrder start raw pt)"

section \<open>The bytes a device sends\<close>

fun be_bytes :: "nat \<Rightarrow> nat \<Rightarrow> u8 list" where
  "be_bytes 0 n = []"
| "be_bytes (Suc k) n = be_bytes k (n div 256) @ [of_nat (n mod 256)]"

lemma be_bytes_numeral:
  "be_bytes (numeral v) n = be_bytes (pred_numeral v) (n div 256) @ [of_nat (n mod 256)]"
  by (simp only: numeral_eq_Suc be_bytes.simps(2))

lemma length_be_bytes [simp]: "length (be_bytes k n) = k"
  by (induction k arbitrary: n) auto

lemma be_nat_snoc: "be_nat (bs @ [b]) = be_nat bs * 256 + unat b"
  by (simp add: be_nat_def)

lemma unat_byte: "unat (of_nat (n mod 256) :: u8) = n mod 256"
  by (simp add: unsigned_of_nat take_bit_nat_eq_self)

lemma be_nat_be_bytes: "be_nat (be_bytes k n) = n mod 256 ^ k"
proof (induction k arbitrary: n)
  case (Suc k)
  have "n mod (256 * 256 ^ k) = 256 * (n div 256 mod 256 ^ k) + n mod 256"
    by (rule mod_mult2_eq)
  then show ?case
    by (simp add: be_nat_snoc Suc unat_byte)
qed (simp add: be_nat_def)

lemma raw_uint_be_bytes:
  assumes "k \<in> {2, 4, 8}" and "n < 256 ^ k"
  shows "raw_uint (be_bytes k n) = of_nat n"
  using assms by (simp add: raw_uint_def be_nat_be_bytes)

text \<open>
  The device's byte orders, as the comment on \<open>applyGlobalByteOrder\<close> documents them: which byte
  of the big-endian number the \<open>i\<close>-th byte on the wire is. A single register is always
  big-endian; \<open>DCBA\<close> reverses everything, \<open>CDAB\<close> swaps neighbouring registers and \<open>BADC\<close> the
  two bytes of each register.
\<close>

definition wire_index :: "string \<Rightarrow> nat \<Rightarrow> nat \<Rightarrow> nat" where
  "wire_index bo k i =
     (if k = 2 \<or> bo = ''ABCD'' then i
      else if bo = ''DCBA'' then k - 1 - i
      else if bo = ''CDAB'' then (if i mod 4 < 2 then i + 2 else i - 2)
      else (if even i then i + 1 else i - 1))"

definition wire_bytes :: "string \<Rightarrow> nat \<Rightarrow> nat \<Rightarrow> u8 list" where
  "wire_bytes bo k n = map (\<lambda>i. be_bytes k n ! wire_index bo k i) [0 ..< k]"

lemma length_wire_bytes [simp]: "length (wire_bytes bo k n) = k"
  by (simp add: wire_bytes_def)

lemma upt_2_4: "[0 ..< 2] = [0, 1]" "[0 ..< 4] = [0, 1, 2, 3]"
  by (simp_all add: upt_rec)

lemma list_of_length_2:
  assumes "length d = 2"
  obtains a b where "d = [a, b]"
  using assms by (auto simp: numeral_eq_Suc length_Suc_conv)

lemma wire_bytes_eq:
  assumes "valid_byte_order bo" "k \<in> {2, 4, 8}"
  shows "wire_bytes bo k n = applyGlobalByteOrder bo (be_bytes k n)"
proof -
  define d where "d = be_bytes k n"
  have len: "length d = k" by (simp add: d_def)
  have w: "wire_bytes bo k n = map (\<lambda>i. d ! wire_index bo k i) [0 ..< k]"
    by (simp add: wire_bytes_def d_def)
  consider "k = 2" | "k = 4" | "k = 8" using assms(2) by blast
  then have "map (\<lambda>i. d ! wire_index bo k i) [0 ..< k] = applyGlobalByteOrder bo d"
  proof cases
    case 1
    with len list_of_length_2 [of d] obtain a b where d: "d = [a, b]" by blast
    show ?thesis
      using 1 by (simp add: d wire_index_def upt_2_4 applyGlobalByteOrder_def)
  next
    case 2
    with len list_of_length_4 [of d] obtain a b c e where d: "d = [a, b, c, e]" by blast
    show ?thesis
      using 2 assms(1)
      by (auto simp: d wire_index_def upt_2_4 applyGlobalByteOrder_def valid_byte_order_def)
  next
    case 3
    with len list_of_length_8 [of d] obtain a b c e f g h i where d: "d = [a, b, c, e, f, g, h, i]"
      by blast
    show ?thesis
      using 3 assms(1)
      by (auto simp: d wire_index_def upt_8 applyGlobalByteOrder_def valid_byte_order_def)
  qed
  then show ?thesis by (simp only: w d_def)
qed

lemma raw_uint_wire_bytes:
  assumes "valid_byte_order bo" "k \<in> {2, 4, 8}" "n < 256 ^ k"
  shows "raw_uint (applyGlobalByteOrder bo (wire_bytes bo k n)) = of_nat n"
  using assms by (simp add: wire_bytes_eq byte_order_involution raw_uint_be_bytes)

section \<open>Reading one point\<close>

lemma effective_len_field_length:
  "effective_len pt = field_length (pc_DataType pt) (pc_BitOffset pt) (pc_BitLen pt)"
  by (simp add: effective_len_def field_length_def)

lemma effective_len_nonneg: "0 \<le> pc_BitLen pt \<Longrightarrow> 0 \<le> effective_len pt"
  using TypeBitWidth_pos [of "pc_DataType pt"] by (simp add: effective_len_def Let_def)

lemma unat_twice:
  fixes w :: u16
  assumes "2 * unat w < 2 ^ 16"
  shows "unat (w * 2) = 2 * unat w"
  using assms by (simp add: unat_word_ariths)

text \<open>Inside the response, the 16-bit offsets are the exact ones and nothing panics.\<close>

lemma parse_register_point_inside:
  assumes a: "unat start \<le> unat (pc_Address pt)"
    and o: "off = 2 * (unat (pc_Address pt) - unat start)"
    and n: "n = 2 * unat (GetRegisterCount pt)"
    and l: "off + n \<le> length raw" "length raw < 2 ^ 16"
    and b: "0 \<le> pc_BitOffset pt" "0 \<le> pc_BitLen pt"
  shows "parse_register_point bo start raw pt =
     Got (convert_value (pc_DataType pt) (effective_len pt)
       (extract_bits (raw_uint (applyGlobalByteOrder bo (take n (drop off raw))))
         (pc_BitOffset pt) (effective_len pt)))"
proof -
  have u: "unat (pc_Address pt - start) = unat (pc_Address pt) - unat start"
    using a by (rule unat_minus_le)
  have off: "unat ((pc_Address pt - start) * 2) = off"
    using l o by (subst unat_twice) (auto simp: u)
  have req: "unat (GetRegisterCount pt * 2) = n"
    using n GetRegisterCount_bounds(2) [of pt] by (subst unat_twice) auto
  have sum: "unat ((pc_Address pt - start) * 2 + GetRegisterCount pt * 2) = off + n"
    using l unfolding off [symmetric] req [symmetric] by (intro unat_plus_le) simp
  have len: "unat (of_nat (length raw) :: u16) = length raw"
    using l(2) by (simp add: unsigned_of_nat take_bit_nat_eq_self)
  have g1: "\<not> (pc_Address pt - start) * 2 + GetRegisterCount pt * 2 > of_nat (length raw)"
    using l by (simp only: word_less_nat_alt sum len)
  have g2: "\<not> off + n < off" by simp
  have g3: "\<not> (effective_len pt < 0 \<or> pc_BitOffset pt < 0)"
    using b effective_len_nonneg [OF b(2)] by simp
  show ?thesis
    by (simp only: parse_register_point_def Let_def if_not_P [OF g1] sum off if_not_P [OF g2]
        if_not_P [OF g3] add_diff_cancel_left')
qed

lemma parse_bit_point_inside:
  assumes a: "unat start \<le> unat (pc_Address pt)"
    and i: "i = unat (pc_Address pt) - unat start" and l: "i div 8 < length raw"
  shows "parse_bit_point start raw pt = Got (VBool (drop_bit (i mod 8) (raw ! (i div 8)) AND 1 = 1))"
proof -
  have u: "unat (pc_Address pt - start) = i"
    using a unfolding i by (rule unat_minus_le)
  then have "unat ((pc_Address pt - start) div 8) = i div 8" "unat ((pc_Address pt - start) mod 8) = i mod 8"
    by (simp_all add: unat_div unat_mod)
  with l show ?thesis by (simp add: parse_bit_point_def Let_def)
qed

section \<open>What the value of a point is\<close>

text \<open>The integer types: number of bytes, and whether the whole value is signed.\<close>

definition int_type :: "string \<Rightarrow> (nat \<times> bool) option" where
  "int_type d =
     (if d = ''Int16'' then Some (2, True) else if d = ''UInt16'' then Some (2, False)
      else if d = ''Int32'' then Some (4, True) else if d = ''UInt32'' then Some (4, False)
      else None)"

text \<open>
  The number a bit field of a \<open>k\<close>-byte integer denotes: the bits \<open>off .. off + l - 1\<close>, read
  as unsigned, except that a field as wide as a signed type is in two's complement.
\<close>

definition field_value :: "bool \<Rightarrow> nat \<Rightarrow> nat \<Rightarrow> nat \<Rightarrow> nat \<Rightarrow> int" where
  "field_value sg k off l n =
     (let x = int (n div 2 ^ off mod 2 ^ l)
      in if sg \<and> l = 8 * k \<and> 2 ^ (l - 1) \<le> x then x - 2 ^ l else x)"

lemma unat_extract_bits:
  assumes "n < 2 ^ 64" "l < 64"
  shows "unat (extract_bits (of_nat n) (int off) (int l)) = n div 2 ^ off mod 2 ^ l"
proof -
  have m: "(push_bit l 1 - 1 :: u64) = mask l"
    by (simp add: mask_eq_exp_minus_1 push_bit_eq_mult)
  have "extract_bits (of_nat n) (int off) (int l) = take_bit l (drop_bit off (of_nat n))"
    by (simp only: extract_bits_def Let_def nat_int m take_bit_eq_mask)
  then show ?thesis
    using assms(1)
    by (simp add: unsigned_take_bit_eq unsigned_drop_bit_eq unsigned_of_nat take_bit_nat_eq_self)
      (simp add: take_bit_eq_mod drop_bit_eq_div)
qed

lemma signed_take_bit_range:
  fixes x :: int
  assumes "0 \<le> x" "x < 2 ^ Suc m"
  shows "signed_take_bit m x = (if 2 ^ m \<le> x then x - 2 ^ Suc m else x)"
proof (cases "2 ^ m \<le> x")
  case True
  have "take_bit (Suc m) x = take_bit (Suc m) (x - 2 ^ Suc m)"
    by (simp only: take_bit_eq_mod minus_mod_self2)
  then have "signed_take_bit m x = signed_take_bit m (x - 2 ^ Suc m)"
    by (simp only: signed_take_bit_eq_iff_take_bit_eq)
  also have "\<dots> = x - 2 ^ Suc m"
    using True assms(2) by (intro signed_take_bit_int_eq_self) auto
  finally show ?thesis using True by simp
next
  case False
  then show ?thesis using assms(1) by (simp add: signed_take_bit_int_eq_self)
qed

lemma sint_of_nat_Suc:
  assumes m: "LENGTH('a::len) = Suc m" and "n < 2 ^ Suc m"
  shows "sint (of_nat n :: 'a word) = (if 2 ^ m \<le> int n then int n - 2 ^ Suc m else int n)"
proof -
  have "uint (of_nat n :: 'a word) = int n"
    using assms by (simp add: unsigned_of_nat take_bit_nat_eq_self)
  then have "sint (of_nat n :: 'a word) = signed_take_bit m (int n)"
    by (simp only: sint_uint m One_nat_def diff_Suc_Suc diff_zero)
  moreover have "int n < 2 ^ Suc m"
    using assms(2) by (metis of_nat_less_iff of_nat_numeral of_nat_power)
  ultimately show ?thesis by (simp only: signed_take_bit_range [OF of_nat_0_le_iff])
qed

lemma sint_ucast_16:
  assumes "n < 2 ^ 16"
  shows "sint (ucast (of_nat n :: u64) :: u16) = (if 2 ^ 15 \<le> int n then int n - 2 ^ 16 else int n)"
proof -
  have "(ucast (of_nat n :: u64) :: u16) = of_nat n"
    using assms by (simp add: unsigned_of_nat take_bit_nat_eq_self)
  then show ?thesis using sint_of_nat_Suc [where 'a = 16, of 15 n] assms by simp
qed

lemma sint_ucast_32:
  assumes "n < 2 ^ 32"
  shows "sint (ucast (of_nat n :: u64) :: u32) = (if 2 ^ 31 \<le> int n then int n - 2 ^ 32 else int n)"
proof -
  have "(ucast (of_nat n :: u64) :: u32) = of_nat n"
    using assms by (simp add: unsigned_of_nat take_bit_nat_eq_self)
  then show ?thesis using sint_of_nat_Suc [where 'a = 32, of 31 n] assms by simp
qed

text \<open>The conversion of an extracted integer field is exact.\<close>

lemma int_type_cases:
  assumes "int_type d = Some (k, sg)"
  obtains "d = ''Int16''" "k = 2" "sg" | "d = ''UInt16''" "k = 2" "\<not> sg"
    | "d = ''Int32''" "k = 4" "sg" | "d = ''UInt32''" "k = 4" "\<not> sg"
  using assms by (auto simp: int_type_def split: if_splits)

lemma convert_value_integer:
  assumes d: "int_type d = Some (k, sg)" and l: "l \<le> 8 * k"
    and w: "unat w = x" and x: "x < 2 ^ l"
  shows "convert_value d (int l) w =
    VFloat64 (f64_of_int (if sg \<and> l = 8 * k \<and> 2 ^ (l - 1) \<le> int x then int x - 2 ^ l else int x))"
proof -
  have w': "w = of_nat x" using w by auto
  have u: "uint w = int x" using w by (metis uint_nat)
  show ?thesis
    using d
  proof (cases rule: int_type_cases)
    case 1
    then show ?thesis
      using x u sint_ucast_16 [of x] unfolding w' by (auto simp: convert_value_def)
  next
    case 2
    then show ?thesis by (simp add: convert_value_def u)
  next
    case 3
    then show ?thesis
      using x u sint_ucast_32 [of x] unfolding w' by (auto simp: convert_value_def)
  next
    case 4
    then show ?thesis by (simp add: convert_value_def u)
  qed
qed

lemma field_value_bound:
  assumes "0 < l" "l \<le> 32"
  shows "\<bar>field_value sg k off l n\<bar> < 2 ^ 53"
proof -
  define x where "x = int (n div 2 ^ off mod 2 ^ l)"
  have "0 \<le> x" "x < 2 ^ l" by (simp_all add: x_def zmod_int)
  moreover have "(2::int) ^ l \<le> 2 ^ 32" using assms(2) by (intro power_increasing) auto
  ultimately show ?thesis unfolding field_value_def x_def [symmetric] Let_def by auto
qed

text \<open>A response whose registers for the point hold \<open>n\<close>.\<close>

definition response_holds :: "string \<Rightarrow> u16 \<Rightarrow> PointConfig \<Rightarrow> nat \<Rightarrow> u8 list \<Rightarrow> bool" where
  "response_holds bo start pt n raw \<longleftrightarrow>
     (let off = 2 * (unat (pc_Address pt) - unat start); k = 2 * unat (GetRegisterCount pt)
      in unat start \<le> unat (pc_Address pt) \<and> off + k \<le> length raw \<and> length raw < 2 ^ 16 \<and>
         n < 256 ^ k \<and> take k (drop off raw) = wire_bytes bo k n)"

lemma parse_register_point_holds:
  assumes h: "response_holds bo start pt n raw" and bo: "valid_byte_order bo"
    and b: "0 \<le> pc_BitOffset pt" "0 \<le> pc_BitLen pt"
  shows "parse_register_point bo start raw pt =
     Got (convert_value (pc_DataType pt) (effective_len pt)
       (extract_bits (of_nat n) (pc_BitOffset pt) (effective_len pt)))"
proof -
  let ?k = "2 * unat (GetRegisterCount pt)"
  have k: "?k \<in> {2, 4, 8}"
    by (simp add: GetRegisterCount_def)
  have "raw_uint (applyGlobalByteOrder bo (take ?k (drop (2 * (unat (pc_Address pt) - unat start)) raw)))
      = of_nat n"
    using h raw_uint_wire_bytes [OF bo k] by (simp add: response_holds_def Let_def)
  then show ?thesis
    using h b by (subst parse_register_point_inside [OF _ refl refl]) (auto simp: response_holds_def Let_def)
qed

lemma convert_value_float32:
  "n < 2 ^ 32 \<Longrightarrow> convert_value ''Float32'' 32 (extract_bits (of_nat n) 0 32) =
     VFloat64 (f64_of_f32 (of_nat n))"
proof -
  assume n: "n < 2 ^ 32"
  have "unat (extract_bits (of_nat n) (int 0) (int 32)) = n"
    using n by (subst unat_extract_bits) auto
  then have "extract_bits (of_nat n) 0 32 = of_nat n"
    using n by (simp add: word_unat_eq_iff unsigned_of_nat take_bit_nat_eq_self)
  moreover have "(ucast (of_nat n :: u64) :: u32) = of_nat n"
    using n by (simp add: unsigned_of_nat take_bit_nat_eq_self)
  ultimately show ?thesis by (simp add: convert_value_def)
qed

lemma extract_bits_64: "extract_bits w 0 64 = w"
proof -
  have "(push_bit 64 1 - 1 :: u64) = - 1"
    by (simp add: push_bit_eq_mult)
  then show ?thesis by (simp only: extract_bits_def Let_def nat_numeral bit.conj_one_right) simp
qed

lemma convert_value_bool:
  "n < 2 ^ 16 \<Longrightarrow> convert_value ''Bool'' 1 (extract_bits (of_nat n) 0 1) = VBool (odd n)"
proof -
  assume n: "n < 2 ^ 16"
  have "unat (extract_bits (of_nat n) (int 0) (int 1)) = n mod 2"
    using n by (subst unat_extract_bits) auto
  then have "unat (extract_bits (of_nat n) 0 1) = n mod 2" by simp
  moreover have "(w :: u64) = 1 \<longleftrightarrow> unat w = 1" for w
    by (metis unsigned_1 unsigned_word_eqI)
  ultimately show ?thesis by (simp add: convert_value_def odd_iff_mod_2_eq_one)
qed

section \<open>Batch responses\<close>

definition response_length :: "string \<Rightarrow> u16 \<Rightarrow> nat" where
  "response_length key qty =
     (if IsRegTypeBit key then (unat qty + 7) div 8 else 2 * unat qty)"

lemma span_within_chunk:
  assumes "chunk_wf key c" and "pt \<in> set (rc_Points c)"
  shows "unat (rc_StartAddr c) \<le> unat (pc_Address pt)"
    and "unat (pc_Address pt) + unat (GetRegisterCount pt) \<le>
      unat (rc_StartAddr c) + unat (rc_Quantity c)"
proof -
  have "point_span pt \<subseteq> chunk_span c"
    using assms by (auto simp: chunk_wf_def)
  then show "unat (rc_StartAddr c) \<le> unat (pc_Address pt)"
    and "unat (pc_Address pt) + unat (GetRegisterCount pt) \<le>
      unat (rc_StartAddr c) + unat (rc_Quantity c)"
    using GetRegisterCount_bounds(1) [of pt]
    by (auto simp: point_span_def chunk_span_def atLeastLessThan_subset_iff)
qed

lemma parse_point_in_chunk:
  assumes wf: "chunk_wf key c" and pt: "pt \<in> set (rc_Points c)"
    and key: "pc_RegType pt = key"
    and b: "0 \<le> pc_BitOffset pt" "0 \<le> pc_BitLen pt"
    and len: "length raw = response_length key (rc_Quantity c)"
  shows "\<exists>v. parse_point bo (IsRegTypeBit key) (rc_StartAddr c) raw pt = Got v"
proof (cases "IsRegTypeBit key")
  case True
  note s = span_within_chunk [OF wf pt]
  have "GetRegisterCount pt = 1" using True key by (simp add: GetRegisterCount_def)
  then have "(unat (pc_Address pt) - unat (rc_StartAddr c)) div 8 < length raw"
    using s True len by (simp add: response_length_def)
  then show ?thesis
    using parse_bit_point_inside [OF s(1) refl] True by (simp add: parse_point_def)
next
  case False
  note s = span_within_chunk [OF wf pt]
  have q: "unat (rc_Quantity c) \<le> 2000"
    using wf max_qty_bounds(2) [of key] by (simp add: chunk_wf_def word_le_nat_alt)
  have "2 * (unat (pc_Address pt) - unat (rc_StartAddr c)) + 2 * unat (GetRegisterCount pt) \<le> length raw"
    "length raw < 2 ^ 16"
    using s q False len by (simp_all add: response_length_def)
  then show ?thesis
    using parse_register_point_inside [OF s(1) refl refl _ _ b] False by (simp add: parse_point_def)
qed

section \<open>Properties\<close>

text \<open>
  C2: an integer point reads exactly the number its bit field denotes: for each of the four
  byte orders and the four integer types, when the response carries \<open>n\<close> in the point's
  registers, the stored \<open>float64\<close> is exactly the unsigned value of the bits
  \<open>off .. off + l - 1\<close> of \<open>n\<close>, and the two's complement value when the field is a whole
  \<open>Int16\<close> or \<open>Int32\<close>.
\<close>

theorem integer_point_value:
  assumes d: "int_type (pc_DataType pt) = Some (k, sg)"
    and bo: "valid_byte_order bo" and h: "response_holds bo start pt n raw"
    and o: "pc_BitOffset pt = int off" and b: "0 \<le> pc_BitLen pt"
    and l: "field_length (pc_DataType pt) (pc_BitOffset pt) (pc_BitLen pt) = int l" "0 < l"
    and fits: "off + l \<le> 8 * k"
  shows "\<exists>w. parse_register_point bo start raw pt = Got (VFloat64 w) \<and>
    f64_value w = real_of_int (field_value sg k off l n)"
proof -
  have k: "k \<le> 4" using d by (cases rule: int_type_cases) auto
  have n: "n < 2 ^ 64"
  proof -
    have "n < 256 ^ (2 * unat (GetRegisterCount pt))" using h by (simp add: response_holds_def Let_def)
    also have "(256::nat) ^ (2 * unat (GetRegisterCount pt)) \<le> 256 ^ 8"
      using GetRegisterCount_bounds(2) [of pt] by (intro power_increasing) auto
    finally show ?thesis by simp
  qed
  have u: "unat (extract_bits (of_nat n) (int off) (int l)) = n div 2 ^ off mod 2 ^ l"
    using n fits k by (intro unat_extract_bits) auto
  have "parse_register_point bo start raw pt =
      Got (convert_value (pc_DataType pt) (int l) (extract_bits (of_nat n) (int off) (int l)))"
    using parse_register_point_holds [OF h bo] o b l by (simp add: effective_len_field_length)
  also have "\<dots> = Got (VFloat64 (f64_of_int (field_value sg k off l n)))"
    using convert_value_integer [OF d _ u] fits by (simp add: field_value_def Let_def)
  finally show ?thesis
    using f64_value_of_int [OF field_value_bound [OF l(2)]] fits k by simp
qed

text \<open>
  The whole-value types are read without loss: a finite \<open>Float32\<close> keeps its exact value
  when widened, a \<open>Double\<close> keeps its very bit pattern (NaN payloads included), and a \<open>Bool\<close>
  in a register is its lowest bit.
\<close>

lemma whole_value_point:
  assumes bo: "valid_byte_order bo" and h: "response_holds bo start pt n raw"
    and z: "pc_BitOffset pt = 0" "pc_BitLen pt = 0" and r: "\<not> IsRegTypeBit (pc_RegType pt)"
  shows "(pc_DataType pt = ''Float32'' \<longrightarrow> f32_finite (of_nat n) \<longrightarrow>
      (\<exists>w. parse_register_point bo start raw pt = Got (VFloat64 w) \<and> f64_value w = f32_value (of_nat n))) \<and>
    (pc_DataType pt = ''Double'' \<longrightarrow> parse_register_point bo start raw pt = Got (VFloat64 (of_nat n))) \<and>
    (pc_DataType pt = ''Bool'' \<longrightarrow> parse_register_point bo start raw pt = Got (VBool (odd n)))"
proof -
  have n: "n < 256 ^ (2 * unat (GetRegisterCount pt))"
    using h by (simp add: response_holds_def Let_def)
  have p: "parse_register_point bo start raw pt =
      Got (convert_value (pc_DataType pt) (TypeBitWidth (pc_DataType pt))
        (extract_bits (of_nat n) 0 (TypeBitWidth (pc_DataType pt))))"
    using parse_register_point_holds [OF h bo] z by (simp add: effective_len_def)
  show ?thesis
    using n r p convert_value_float32 [of n] convert_value_bool [of n]
    by (auto simp: GetRegisterCount_def TypeBitWidth_def extract_bits_64 f64_value_of_f32)
      (simp add: convert_value_def)
qed

text \<open>
  Decoding a complete response of an optimised batch read never panics and never skips a
  point: with the number of bytes the Modbus function returns for the requested quantity,
  every point of the read gets a value.
\<close>

lemma chunk_response_decodes:
  assumes "slice_sort srt" and "\<forall>p\<in>set points. addr_ok p \<and> 0 \<le> pc_BitOffset p \<and> 0 \<le> pc_BitLen p"
    and "OptimizeChunks srt points key = Some chunks" and "c \<in> set chunks"
    and "pt \<in> set (rc_Points c)" and "length raw = response_length key (rc_Quantity c)"
  shows "\<exists>v. parse_point bo (IsRegTypeBit key) (rc_StartAddr c) raw pt = Got v"
proof -
  have ps: "point_sort srt" using assms(1) by (rule point_sort.intro)
  have pt: "pt \<in> set points" "pc_RegType pt = key"
    using point_sort.optimize_points_set [OF ps assms(3)] assms(4,5) by auto
  moreover have "chunk_wf key c"
    using assms(2) by (intro point_sort.optimize_wf [OF ps assms(3,4)]) blast
  ultimately show ?thesis
    using assms(2,5,6) by (intro parse_point_in_chunk) auto
qed

section \<open>Witnesses\<close>

definition sample_field :: "string \<Rightarrow> int \<Rightarrow> int \<Rightarrow> PointConfig" where
  "sample_field d off len = \<lparr>pc_TagName = ''v'', pc_Description = [], pc_RegType = ''HoldingReg'',
     pc_Address = 3, pc_DataType = d, pc_BitOffset = off, pc_BitLen = len, pc_Writeable = False\<rparr>"

lemma sample_field_sel [simp]:
  "pc_RegType (sample_field d off len) = ''HoldingReg''"
  "pc_Address (sample_field d off len) = 3"
  "pc_DataType (sample_field d off len) = d"
  "pc_BitOffset (sample_field d off len) = off"
  "pc_BitLen (sample_field d off len) = len"
  by (simp_all add: sample_field_def)

lemma sample_field_count [simp]:
  "GetRegisterCount (sample_field ''Int32'' off len) = 2"
  "GetRegisterCount (sample_field ''Float32'' off len) = 2"
  "GetRegisterCount (sample_field ''Double'' off len) = 4"
  by (simp_all add: GetRegisterCount_def IsRegTypeBit_def)

text \<open>The 32-bit value \<open>-5\<close> in \<open>CDAB\<close> order behind one foreign register, and \<open>1.5\<close>.\<close>

lemma sample_holds_int:
  "response_holds ''CDAB'' 2 (sample_field ''Int32'' 0 32) 4294967291 [9, 9, 255, 251, 255, 255]"
  unfolding response_holds_def Let_def
  by (simp add: wire_bytes_eq valid_byte_order_def applyGlobalByteOrder_def be_bytes_numeral)

theorem integer_point_value_witness:
  "\<exists>w. parse_register_point ''CDAB'' 2 [9, 9, 255, 251, 255, 255] (sample_field ''Int32'' 0 32) =
     Got (VFloat64 w) \<and> f64_value w = - 5"
proof -
  have "field_value True 4 0 32 4294967291 = - 5"
    by (simp add: field_value_def)
  then show ?thesis
    using integer_point_value [OF _ _ sample_holds_int, of 4 True 0 32]
    by (simp add: int_type_def valid_byte_order_def field_length_def)
qed

lemma sample_holds_float:
  "response_holds ''ABCD'' 3 (sample_field ''Float32'' 0 0) 1069547520 [63, 192, 0, 0]"
  unfolding response_holds_def Let_def
  by (simp add: wire_bytes_eq valid_byte_order_def applyGlobalByteOrder_def be_bytes_numeral)

theorem whole_value_point_witness:
  "\<exists>w. parse_register_point ''ABCD'' 3 [63, 192, 0, 0] (sample_field ''Float32'' 0 0) =
     Got (VFloat64 w) \<and> f64_value w = 3 / 2"
proof -
  have u: "unat (of_nat 1069547520 :: u32) = 1069547520"
    by (simp add: unsigned_of_nat take_bit_nat_eq_self)
  have "f32_finite (of_nat 1069547520)" "f32_value (of_nat 1069547520) = 3 / 2"
    unfolding f32_finite_def f32_value_def Let_def u by simp_all
  then show ?thesis
    using whole_value_point [OF _ sample_holds_float]
    by (auto simp: valid_byte_order_def IsRegTypeBit_def)
qed

theorem chunk_response_decodes_witness:
  "\<exists>v. parse_point ''DCBA'' (IsRegTypeBit ''HoldingReg'') 10 [1, 2, 3, 4, 5, 6, 7, 8]
     (sample_point ''c'' 10 ''Double'') = Got v"
proof -
  have "\<forall>p\<in>set sample_points. addr_ok p \<and> 0 \<le> pc_BitOffset p \<and> 0 \<le> pc_BitLen p"
    using sample_addr_ok by (auto simp: sample_points_def sample_point_def)
  from chunk_response_decodes [OF go_sort.slice_sort_axioms this sample_optimize,
      of "sample_chunks ! 1" "sample_point ''c'' 10 ''Double''" "[1, 2, 3, 4, 5, 6, 7, 8]" "''DCBA''"]
  show ?thesis
    by (simp add: sample_chunks_def response_length_def IsRegTypeBit_def)
qed

end
