(* ===== verification/DeviceConfig.thy ===== *)
theory DeviceConfig
  imports DataModel
begin

text \<open>
  \<open>internal/config/device_config.go\<close>: the TOML device list. The TOML decoder is the argument
  \<open>decode\<close> of \<open>LoadDeviceConfigs\<close> (a file name to a decoded file or an error text) and the
  Unicode case tables are the argument \<open>uni\<close>. The errors of the loader are the constructors
  of \<open>config_error\<close>, one for each \<open>fmt.Errorf\<close>.
\<close>

record ModbusConfig =
  mb_Address :: string
  mb_Port :: int
  mb_SlaveID :: u8
  mb_ByteOrder :: string
  mb_TimeoutSec :: int
  mb_ScanIntervalMs :: int

record DeviceConfig =
  dc_Name :: string
  dc_Enabled :: bool
  dc_CSV :: string
  dc_Modbus :: ModbusConfig

record rawDeviceConfig =
  raw_Name :: string
  raw_Enabled :: "bool option"
  raw_CSV :: string
  raw_Address :: string
  raw_Port :: int
  raw_SlaveID :: u8
  raw_ByteOrder :: string
  raw_TimeoutSec :: int
  raw_ScanIntervalMs :: int

record configFile =
  cf_Modbus :: ModbusConfig
  cf_Devices :: "rawDeviceConfig list"

datatype config_error =
    DecodeFailed string
  | BadAddressOrPort
  | BadSlaveID
  | BadByteOrder string
  | NoDeviceSection
  | NoDevices
  | InDevice nat string config_error

definition validOrders :: "string list" where
  "validOrders = [''ABCD'', ''DCBA'', ''CDAB'', ''BADC'']"

definition normalizeDeviceConfig ::
  "(string \<Rightarrow> string) \<Rightarrow> DeviceConfig \<Rightarrow> config_error + DeviceConfig" where
  "normalizeDeviceConfig uni cfg =
     (let m = dc_Modbus cfg in
      if mb_Address m = [] \<or> mb_Port m \<le> 0 then Inl BadAddressOrPort
      else if mb_SlaveID m = 0 then Inl BadSlaveID
      else
        let m1 = (if mb_TimeoutSec m \<le> 0 then m\<lparr>mb_TimeoutSec := 5\<rparr> else m);
            m2 = (if mb_ScanIntervalMs m1 \<le> 0 then m1\<lparr>mb_ScanIntervalMs := 2000\<rparr> else m1);
            m3 = (if mb_ByteOrder m2 = [] then m2\<lparr>mb_ByteOrder := ''ABCD''\<rparr> else m2);
            m4 = m3\<lparr>mb_ByteOrder := ToUpper uni (mb_ByteOrder m3)\<rparr>
        in if mb_ByteOrder m4 \<notin> set validOrders then Inl (BadByteOrder (mb_ByteOrder m4))
           else Inr (cfg\<lparr>dc_Modbus := m4\<rparr>))"

text \<open>One turn of the device loop: the defaults for the name, the flag and the point file.\<close>

definition raw_device :: "string \<Rightarrow> nat \<Rightarrow> rawDeviceConfig \<Rightarrow> DeviceConfig" where
  "raw_device defaultCSV i raw =
     \<lparr>dc_Name = (if TrimSpace (raw_Name raw) = [] then ''device-'' @ FormatUint (i + 1)
                 else TrimSpace (raw_Name raw)),
      dc_Enabled = (case raw_Enabled raw of None \<Rightarrow> True | Some e \<Rightarrow> e),
      dc_CSV = (if TrimSpace (raw_CSV raw) = [] then defaultCSV else TrimSpace (raw_CSV raw)),
      dc_Modbus = \<lparr>mb_Address = raw_Address raw, mb_Port = raw_Port raw,
        mb_SlaveID = raw_SlaveID raw, mb_ByteOrder = raw_ByteOrder raw,
        mb_TimeoutSec = raw_TimeoutSec raw, mb_ScanIntervalMs = raw_ScanIntervalMs raw\<rparr>\<rparr>"

fun load_devices :: "(string \<Rightarrow> string) \<Rightarrow> string \<Rightarrow> nat \<Rightarrow> rawDeviceConfig list \<Rightarrow>
    DeviceConfig list \<Rightarrow> config_error + DeviceConfig list" where
  "load_devices uni defaultCSV i [] devices = Inr devices"
| "load_devices uni defaultCSV i (raw # raws) devices =
     (let device = raw_device defaultCSV i raw in
      case normalizeDeviceConfig uni device of
        Inl err \<Rightarrow> Inl (InDevice i (dc_Name device) err)
      | Inr device' \<Rightarrow> load_devices uni defaultCSV (i + 1) raws (devices @ [device']))"

definition LoadDeviceConfigs :: "(string \<Rightarrow> string) \<Rightarrow> (string \<Rightarrow> string + configFile) \<Rightarrow>
    string \<Rightarrow> string \<Rightarrow> config_error + DeviceConfig list" where
  "LoadDeviceConfigs uni decode filePath defaultCSV =
     (case decode filePath of
        Inl err \<Rightarrow> Inl (DecodeFailed err)
      | Inr fileCfg \<Rightarrow>
          if cf_Devices fileCfg \<noteq> [] then load_devices uni defaultCSV 0 (cf_Devices fileCfg) []
          else if mb_Address (cf_Modbus fileCfg) = [] \<and> mb_Port (cf_Modbus fileCfg) = 0 \<and>
            mb_SlaveID (cf_Modbus fileCfg) = 0 then Inl NoDeviceSection
          else
            (case normalizeDeviceConfig uni \<lparr>dc_Name = ''default'', dc_Enabled = True,
                dc_CSV = defaultCSV, dc_Modbus = cf_Modbus fileCfg\<rparr> of
               Inl err \<Rightarrow> Inl err
             | Inr device \<Rightarrow> Inr [device]))"

definition LoadDeviceConfig :: "(string \<Rightarrow> string) \<Rightarrow> (string \<Rightarrow> string + configFile) \<Rightarrow>
    string \<Rightarrow> config_error + DeviceConfig" where
  "LoadDeviceConfig uni decode filePath =
     (case LoadDeviceConfigs uni decode filePath [] of
        Inl err \<Rightarrow> Inl err
      | Inr devices \<Rightarrow> (case devices of [] \<Rightarrow> Inl NoDevices | d # _ \<Rightarrow> Inr d))"

section \<open>What a loaded device is\<close>

definition modbus_ok :: "ModbusConfig \<Rightarrow> bool" where
  "modbus_ok m \<longleftrightarrow> mb_Address m \<noteq> [] \<and> 0 < mb_Port m \<and> mb_SlaveID m \<noteq> 0 \<and>
     0 < mb_TimeoutSec m \<and> 0 < mb_ScanIntervalMs m \<and>
     mb_ByteOrder m \<in> {''ABCD'', ''DCBA'', ''CDAB'', ''BADC''}"

lemma ToUpper_order: "s \<in> set validOrders \<Longrightarrow> ToUpper uni s = s"
  by (auto simp: validOrders_def ToUpper_def is_ascii_def upper_char_def)

lemma normalize_ok: "normalizeDeviceConfig uni cfg = Inr cfg' \<Longrightarrow> modbus_ok (dc_Modbus cfg')"
  unfolding normalizeDeviceConfig_def Let_def modbus_ok_def
  by (auto simp: validOrders_def split: if_splits)

lemma normalize_keeps:
  "normalizeDeviceConfig uni cfg = Inr cfg' \<Longrightarrow>
     dc_Name cfg' = dc_Name cfg \<and> dc_Enabled cfg' = dc_Enabled cfg \<and> dc_CSV cfg' = dc_CSV cfg \<and>
     mb_Address (dc_Modbus cfg') = mb_Address (dc_Modbus cfg) \<and>
     mb_Port (dc_Modbus cfg') = mb_Port (dc_Modbus cfg) \<and>
     mb_SlaveID (dc_Modbus cfg') = mb_SlaveID (dc_Modbus cfg)"
  unfolding normalizeDeviceConfig_def Let_def by (auto split: if_splits)

lemma normalize_fixpoint:
  assumes "modbus_ok (dc_Modbus cfg)"
  shows "normalizeDeviceConfig uni cfg = Inr cfg"
proof -
  have "mb_ByteOrder (dc_Modbus cfg) \<in> set validOrders"
    using assms by (simp add: modbus_ok_def validOrders_def)
  moreover from this have "ToUpper uni (mb_ByteOrder (dc_Modbus cfg)) = mb_ByteOrder (dc_Modbus cfg)"
    "mb_ByteOrder (dc_Modbus cfg) \<noteq> []"
    by (rule ToUpper_order) (use assms in \<open>auto simp: modbus_ok_def\<close>)
  ultimately show ?thesis
    using assms by (simp add: normalizeDeviceConfig_def Let_def modbus_ok_def)
qed

lemma load_devices_all:
  "load_devices uni csv i raws acc = Inr ds \<Longrightarrow>
     \<exists>new. ds = acc @ new \<and>
       list_all2 (\<lambda>(j, raw) d. normalizeDeviceConfig uni (raw_device csv j raw) = Inr d)
         (enumerate i raws) new"
proof (induction raws arbitrary: i acc)
  case (Cons raw raws)
  then obtain d where d: "normalizeDeviceConfig uni (raw_device csv i raw) = Inr d"
    and rest: "load_devices uni csv (i + 1) raws (acc @ [d]) = Inr ds"
    by (auto simp: Let_def split: sum.splits)
  from Cons.IH [OF rest] obtain new where "ds = (acc @ [d]) @ new"
    "list_all2 (\<lambda>(j, raw) d. normalizeDeviceConfig uni (raw_device csv j raw) = Inr d)
      (enumerate (i + 1) raws) new" by blast
  with d show ?case by (intro exI [of _ "d # new"]) simp
qed simp

section \<open>Properties\<close>

text \<open>
  Whatever the TOML file says, a device that the loader returns is usable: it has an
  address, a positive port, a non-zero slave number, one of the four byte orders and positive
  timeout and scan interval; loading it again from its own fields changes nothing.
\<close>

lemma LoadDeviceConfigs_usable:
  assumes "LoadDeviceConfigs uni decode path csv = Inr devices" and "d \<in> set devices"
  shows "modbus_ok (dc_Modbus d) \<and> normalizeDeviceConfig uni d = Inr d"
proof -
  have "modbus_ok (dc_Modbus d)"
  proof -
    from assms(1) consider
        raws where "load_devices uni csv 0 raws [] = Inr devices"
      | cfg d' where "normalizeDeviceConfig uni cfg = Inr d'" "devices = [d']"
      unfolding LoadDeviceConfigs_def by (auto split: sum.splits if_splits)
    then show ?thesis
    proof cases
      case 1
      then have "list_all2 (\<lambda>(j, raw) d. normalizeDeviceConfig uni (raw_device csv j raw) = Inr d)
          (enumerate 0 raws) devices"
        using load_devices_all by fastforce
      with assms(2) obtain x where "normalizeDeviceConfig uni x = Inr d"
        by (auto simp: list_all2_conv_all_nth in_set_conv_nth split_beta)
      then show ?thesis by (rule normalize_ok)
    next
      case 2
      with assms(2) show ?thesis using normalize_ok by simp
    qed
  qed
  then show ?thesis by (simp add: normalize_fixpoint)
qed

text \<open>
  A device list is loaded as a whole and in order: on success there is one device per
  \<open>[[devices]]\<close> entry, the \<open>i\<close>-th from the \<open>i\<close>-th entry, with the trimmed name (or
  \<open>device-<i+1>\<close>), the entry's own flag (enabled when absent) and its address, port and
  slave number unchanged.
\<close>

lemma LoadDeviceConfigs_entries:
  assumes "decode path = Inr file" and "cf_Devices file \<noteq> []"
    and "LoadDeviceConfigs uni decode path csv = Inr devices"
  shows "length devices = length (cf_Devices file) \<and>
    (\<forall>i < length devices. let raw = cf_Devices file ! i; d = devices ! i in
       dc_Name d = (if TrimSpace (raw_Name raw) = [] then ''device-'' @ FormatUint (i + 1)
         else TrimSpace (raw_Name raw)) \<and>
       dc_Enabled d = (raw_Enabled raw \<noteq> Some False) \<and>
       mb_Address (dc_Modbus d) = raw_Address raw \<and> mb_Port (dc_Modbus d) = raw_Port raw \<and>
       mb_SlaveID (dc_Modbus d) = raw_SlaveID raw)"
proof -
  have "load_devices uni csv 0 (cf_Devices file) [] = Inr devices"
    using assms by (simp add: LoadDeviceConfigs_def)
  then have all: "list_all2 (\<lambda>(j, raw) d. normalizeDeviceConfig uni (raw_device csv j raw) = Inr d)
      (enumerate 0 (cf_Devices file)) devices"
    using load_devices_all by fastforce
  then have len: "length devices = length (cf_Devices file)"
    by (simp add: list_all2_conv_all_nth)
  have "normalizeDeviceConfig uni (raw_device csv i (cf_Devices file ! i)) = Inr (devices ! i)"
    if "i < length devices" for i
    using all that by (simp add: list_all2_conv_all_nth nth_enumerate_eq)
  from normalize_keeps [OF this] len show ?thesis
    by (auto simp: Let_def raw_device_def split: option.splits)
qed

section \<open>Witnesses\<close>

definition sample_raw :: rawDeviceConfig where
  "sample_raw = \<lparr>raw_Name = [], raw_Enabled = None, raw_CSV = [], raw_Address = ''plc'',
     raw_Port = 502, raw_SlaveID = 1, raw_ByteOrder = ''cdab'', raw_TimeoutSec = 0,
     raw_ScanIntervalMs = 500\<rparr>"

definition sample_file :: configFile where
  "sample_file = \<lparr>cf_Modbus = \<lparr>mb_Address = [], mb_Port = 0, mb_SlaveID = 0, mb_ByteOrder = [],
     mb_TimeoutSec = 0, mb_ScanIntervalMs = 0\<rparr>, cf_Devices = [sample_raw]\<rparr>"

definition sample_device :: DeviceConfig where
  "sample_device = \<lparr>dc_Name = ''device-1'', dc_Enabled = True, dc_CSV = ''p.csv'',
     dc_Modbus = \<lparr>mb_Address = ''plc'', mb_Port = 502, mb_SlaveID = 1, mb_ByteOrder = ''CDAB'',
       mb_TimeoutSec = 5, mb_ScanIntervalMs = 500\<rparr>\<rparr>"

lemma sample_trim: "TrimSpace [] = []"
  using length_TrimSpace [of "[]"] by simp

lemma sample_number: "FormatUint (Suc 0) = ''1''"
  by code_simp

lemma sample_load: "LoadDeviceConfigs id (\<lambda>_. Inr sample_file) ''f'' ''p.csv'' = Inr [sample_device]"
proof -
  have "raw_device ''p.csv'' 0 sample_raw = \<lparr>dc_Name = ''device-1'', dc_Enabled = True,
     dc_CSV = ''p.csv'', dc_Modbus = \<lparr>mb_Address = ''plc'', mb_Port = 502, mb_SlaveID = 1,
       mb_ByteOrder = ''cdab'', mb_TimeoutSec = 0, mb_ScanIntervalMs = 500\<rparr>\<rparr>"
    by (simp add: raw_device_def sample_raw_def sample_trim sample_number)
  moreover have "ToUpper id ''cdab'' = ''CDAB''"
    by code_simp
  ultimately show ?thesis
    by (simp add: LoadDeviceConfigs_def sample_file_def Let_def normalizeDeviceConfig_def
        sample_device_def validOrders_def)
qed

theorem LoadDeviceConfigs_usable_witness: "modbus_ok (dc_Modbus sample_device)"
  using LoadDeviceConfigs_usable [OF sample_load] by simp

theorem LoadDeviceConfigs_entries_witness: "mb_Port (dc_Modbus sample_device) = raw_Port sample_raw"
  using LoadDeviceConfigs_entries [OF _ _ sample_load, of sample_file]
  by (simp add: sample_file_def Let_def)

end
