(* ===== verification/Collector.thy ===== *)
theory Collector
  imports Decode DeviceConfig
begin

text \<open>
  The \<open>Collector\<close> of \<open>internal/collector/collector.go\<close>: one scan over the batch reads and the
  write path. The Modbus client is the argument \<open>client\<close> (the answer to the \<open>n\<close>-th request of
  the collector, an error text or the response bytes), the clock is the argument \<open>now\<close> (the
  \<open>n\<close>-th reading of \<open>time.Now\<close>), and the order in which Go ranges over the chunk map is the
  list \<open>keys\<close>. What the collector does to its surroundings is recorded in the state: requests
  sent, values handed to \<open>publish\<close>, snapshots handed to \<open>scanComplete\<close>, reconnects begun.
\<close>

section \<open>State\<close>

datatype modreq =
    ReadHoldingRegisters u16 u16
  | ReadInputRegisters u16 u16
  | ReadCoils u16 u16
  | ReadDiscreteInputs u16 u16
  | WriteSingleRegister u16 u16
  | WriteSingleCoil u16 u16

type_synonym client = "nat \<Rightarrow> modreq \<Rightarrow> string + u8 list"

record Collector =
  c_udm :: UniversalDataModel
  c_chunks :: "string \<rightharpoonup> ReadChunk list"
  c_byteOrder :: string
  c_publish :: bool
  c_scanComplete :: bool
  c_scanValues :: "(string \<rightharpoonup> anyval) option"
  c_ticks :: nat
  c_requests :: "modreq list"
  c_published :: "(string \<times> Value) list"
  c_completed :: "((string \<rightharpoonup> anyval) \<times> instant) list"
  c_reconnects :: nat

definition NewCollector :: "(string \<Rightarrow> string) \<Rightarrow> UniversalDataModel \<Rightarrow>
    (string \<rightharpoonup> ReadChunk list) \<Rightarrow> DeviceConfig \<Rightarrow> bool \<Rightarrow> Collector" where
  "NewCollector uni u chunks cfg publisher =
     \<lparr>c_udm = u, c_chunks = chunks, c_byteOrder = ToUpper uni (mb_ByteOrder (dc_Modbus cfg)),
      c_publish = publisher, c_scanComplete = False, c_scanValues = None, c_ticks = 0,
      c_requests = [], c_published = [], c_completed = [], c_reconnects = 0\<rparr>"

definition SetScanComplete :: "Collector \<Rightarrow> Collector" where
  "SetScanComplete c = c\<lparr>c_scanComplete := True\<rparr>"

section \<open>Operations\<close>

definition updateValue :: "(nat \<Rightarrow> instant) \<Rightarrow> string \<Rightarrow> anyval \<Rightarrow> Collector \<Rightarrow> Collector" where
  "updateValue now tag val c =
     (let t = now (c_ticks c);
          c1 = c\<lparr>c_ticks := c_ticks c + 1, c_udm := udm_UpdateAt (c_udm c) tag val t\<rparr>;
          c2 = (if c_publish c1
                then c1\<lparr>c_published := c_published c1 @ [(tag, \<lparr>v_Value = val, v_UpdatedAt = t\<rparr>)]\<rparr>
                else c1)
      in case c_scanValues c2 of
           None \<Rightarrow> c2
         | Some vals \<Rightarrow> c2\<lparr>c_scanValues := Some (vals(tag \<mapsto> val))\<rparr>)"

definition completeScan :: "(nat \<Rightarrow> instant) \<Rightarrow> (string \<rightharpoonup> anyval) \<Rightarrow> Collector \<Rightarrow> Collector" where
  "completeScan now values c =
     (if \<not> c_scanComplete c then c
      else c\<lparr>c_completed := c_completed c @ [(values, now (c_ticks c))],
             c_ticks := c_ticks c + 1\<rparr>)"

text \<open>The request of one batch read; \<open>None\<close> is the unknown register type, which is skipped.\<close>

definition read_request :: "string \<Rightarrow> u16 \<Rightarrow> u16 \<Rightarrow> modreq option" where
  "read_request regType start qty =
     (if regType = ''HoldingReg'' then Some (ReadHoldingRegisters start qty)
      else if regType = ''InputReg'' then Some (ReadInputRegisters start qty)
      else if regType = ''CoilStatus'' then Some (ReadCoils start qty)
      else if regType = ''InputStatus'' then Some (ReadDiscreteInputs start qty)
      else None)"

text \<open>The loop of \<open>parseAndUpdate\<close> over the points of one chunk; \<open>None\<close> is a panic.\<close>

fun update_points :: "(nat \<Rightarrow> instant) \<Rightarrow> bool \<Rightarrow> u16 \<Rightarrow> u8 list \<Rightarrow> PointConfig list \<Rightarrow>
    Collector \<Rightarrow> Collector option" where
  "update_points now isBit start raw [] c = Some c"
| "update_points now isBit start raw (pt # pts) c =
     (case parse_point (c_byteOrder c) isBit start raw pt of
        Panic \<Rightarrow> None
      | Skip \<Rightarrow> update_points now isBit start raw pts c
      | Got v \<Rightarrow> update_points now isBit start raw pts (updateValue now (pc_TagName pt) v c))"

definition parseAndUpdate :: "(nat \<Rightarrow> instant) \<Rightarrow> ReadChunk \<Rightarrow> u8 list \<Rightarrow> Collector \<Rightarrow> Collector option"
  where
  "parseAndUpdate now chunk raw c =
     (case rc_Points chunk of
        [] \<Rightarrow> None
      | p0 # _ \<Rightarrow> update_points now (IsRegTypeBit (pc_RegType p0)) (rc_StartAddr chunk) raw
          (rc_Points chunk) c)"

datatype scan_result = Continue Collector | Abort Collector | ScanPanic

definition scan_chunk :: "(nat \<Rightarrow> instant) \<Rightarrow> client \<Rightarrow> ReadChunk \<Rightarrow> Collector \<Rightarrow> scan_result" where
  "scan_chunk now client chunk c =
     (case rc_Points chunk of
        [] \<Rightarrow> ScanPanic
      | p0 # _ \<Rightarrow>
         (case read_request (pc_RegType p0) (rc_StartAddr chunk) (rc_Quantity chunk) of
            None \<Rightarrow> Continue c
          | Some rq \<Rightarrow>
             (let c1 = c\<lparr>c_requests := c_requests c @ [rq]\<rparr> in
              case client (length (c_requests c)) rq of
                Inl err \<Rightarrow> Abort (c1\<lparr>c_reconnects := c_reconnects c1 + 1, c_scanValues := None\<rparr>)
              | Inr results \<Rightarrow>
                 (case parseAndUpdate now chunk results c1 of
                    None \<Rightarrow> ScanPanic
                  | Some c2 \<Rightarrow> Continue c2))))"

fun scan_chunks :: "(nat \<Rightarrow> instant) \<Rightarrow> client \<Rightarrow> ReadChunk list \<Rightarrow> Collector \<Rightarrow> scan_result" where
  "scan_chunks now client [] c = Continue c"
| "scan_chunks now client (chunk # chunks) c =
     (case scan_chunk now client chunk c of
        Continue c' \<Rightarrow> scan_chunks now client chunks c'
      | r \<Rightarrow> r)"

definition chunks_in_order :: "(string \<rightharpoonup> ReadChunk list) \<Rightarrow> string list \<Rightarrow> ReadChunk list" where
  "chunks_in_order chunks keys =
     concat (map (\<lambda>k. case chunks k of None \<Rightarrow> [] | Some cs \<Rightarrow> cs) keys)"

text \<open>\<open>scanOnce\<close>; \<open>conn\<close> is what \<open>GetClient\<close> returned, \<open>None\<close> for nil.\<close>

definition scanOnce :: "(nat \<Rightarrow> instant) \<Rightarrow> client option \<Rightarrow> string list \<Rightarrow> Collector \<Rightarrow>
    Collector option" where
  "scanOnce now conn keys c =
     (case conn of
        None \<Rightarrow> Some c
      | Some client \<Rightarrow>
         (case scan_chunks now client (chunks_in_order (c_chunks c) keys)
             (c\<lparr>c_scanValues := Some Map.empty\<rparr>) of
            ScanPanic \<Rightarrow> None
          | Abort c' \<Rightarrow> Some c'
          | Continue c' \<Rightarrow>
              Some (completeScan now (case c_scanValues c' of None \<Rightarrow> Map.empty | Some v \<Rightarrow> v)
                (c'\<lparr>c_scanValues := None\<rparr>))))"

section \<open>Writing\<close>

definition findPoint :: "(string \<rightharpoonup> ReadChunk list) \<Rightarrow> string list \<Rightarrow> string \<Rightarrow> PointConfig option" where
  "findPoint chunks keys tagName =
     find (\<lambda>pt. pc_TagName pt = tagName) (concat (map rc_Points (chunks_in_order chunks keys)))"

datatype write_error =
    TagNotFound string
  | TagReadOnly string
  | DeviceOffline
  | WrongRegType string
  | OutOfUint16Range int
  | UnsupportedWriteType
  | DeviceError string

definition send :: "client \<Rightarrow> modreq \<Rightarrow> Collector \<Rightarrow> (write_error + unit) \<times> Collector" where
  "send client rq c =
     (case client (length (c_requests c)) rq of
        Inl err \<Rightarrow> (Inl (DeviceError err), c\<lparr>c_requests := c_requests c @ [rq]\<rparr>)
      | Inr _ \<Rightarrow> (Inr (), c\<lparr>c_requests := c_requests c @ [rq]\<rparr>))"

fun write_value :: "client \<Rightarrow> PointConfig \<Rightarrow> anyval \<Rightarrow> Collector \<Rightarrow> (write_error + unit) \<times> Collector" where
  "write_value client pt (VUint16 v) c =
     (if pc_RegType pt = ''HoldingReg'' then send client (WriteSingleRegister (pc_Address pt) v) c
      else (Inl (WrongRegType (pc_RegType pt)), c))"
| "write_value client pt (VInt16 v) c =
     (if pc_RegType pt = ''HoldingReg'' then send client (WriteSingleRegister (pc_Address pt) v) c
      else (Inl (WrongRegType (pc_RegType pt)), c))"
| "write_value client pt (VInt v) c =
     (if pc_RegType pt = ''HoldingReg'' then
        (if v < 0 \<or> v > 65535 then (Inl (OutOfUint16Range v), c)
         else send client (WriteSingleRegister (pc_Address pt) (of_int v)) c)
      else (Inl (WrongRegType (pc_RegType pt)), c))"
| "write_value client pt (VBool v) c =
     (if pc_RegType pt = ''CoilStatus'' then
        send client (WriteSingleCoil (pc_Address pt) (if v then 0xFF00 else 0)) c
      else (Inl (WrongRegType (pc_RegType pt)), c))"
| "write_value client pt _ c = (Inl UnsupportedWriteType, c)"

definition WriteTag :: "client option \<Rightarrow> string list \<Rightarrow> string \<Rightarrow> anyval \<Rightarrow> Collector \<Rightarrow>
    (write_error + unit) \<times> Collector" where
  "WriteTag conn keys tagName val c =
     (case findPoint (c_chunks c) keys tagName of
        None \<Rightarrow> (Inl (TagNotFound tagName), c)
      | Some pt \<Rightarrow>
          if \<not> pc_Writeable pt then (Inl (TagReadOnly tagName), c)
          else
            (case conn of
               None \<Rightarrow> (Inl DeviceOffline, c)
             | Some client \<Rightarrow> write_value client pt val c))"

section \<open>What a scan writes\<close>

text \<open>The abstract effect of a list of writes, and the writes one response causes.\<close>

definition apply_writes :: "(nat \<Rightarrow> instant) \<Rightarrow> (string \<times> anyval) list \<Rightarrow> Collector \<Rightarrow> Collector" where
  "apply_writes now ws c = foldl (\<lambda>c (tag, v). updateValue now tag v c) c ws"

definition point_writes :: "string \<Rightarrow> bool \<Rightarrow> u16 \<Rightarrow> u8 list \<Rightarrow> PointConfig list \<Rightarrow> (string \<times> anyval) list"
  where
  "point_writes bo isBit start raw pts =
     concat (map (\<lambda>pt. case parse_point bo isBit start raw pt of
       Got v \<Rightarrow> [(pc_TagName pt, v)] | _ \<Rightarrow> []) pts)"

lemma updateValue_fields [simp]:
  "c_byteOrder (updateValue now tag v c) = c_byteOrder c"
  "c_chunks (updateValue now tag v c) = c_chunks c"
  "c_publish (updateValue now tag v c) = c_publish c"
  "c_scanComplete (updateValue now tag v c) = c_scanComplete c"
  "c_ticks (updateValue now tag v c) = Suc (c_ticks c)"
  "c_requests (updateValue now tag v c) = c_requests c"
  "c_completed (updateValue now tag v c) = c_completed c"
  "c_reconnects (updateValue now tag v c) = c_reconnects c"
  "c_udm (updateValue now tag v c) = udm_UpdateAt (c_udm c) tag v (now (c_ticks c))"
  "c_scanValues (updateValue now tag v c) = map_option (\<lambda>m. m(tag \<mapsto> v)) (c_scanValues c)"
  "c_published (updateValue now tag v c) = c_published c @
     (if c_publish c then [(tag, \<lparr>v_Value = v, v_UpdatedAt = now (c_ticks c)\<rparr>)] else [])"
  by (auto simp: updateValue_def Let_def split: option.splits)

lemma apply_writes_Nil [simp]: "apply_writes now [] c = c"
  by (simp add: apply_writes_def)

lemma apply_writes_Cons [simp]:
  "apply_writes now ((tag, v) # ws) c = apply_writes now ws (updateValue now tag v c)"
  by (simp add: apply_writes_def)

lemma apply_writes_append:
  "apply_writes now (ws @ ws') c = apply_writes now ws' (apply_writes now ws c)"
  by (simp add: apply_writes_def)

lemma apply_writes_fields [simp]:
  "c_byteOrder (apply_writes now ws c) = c_byteOrder c \<and>
   c_chunks (apply_writes now ws c) = c_chunks c \<and>
   c_publish (apply_writes now ws c) = c_publish c \<and>
   c_scanComplete (apply_writes now ws c) = c_scanComplete c \<and>
   c_ticks (apply_writes now ws c) = c_ticks c + length ws \<and>
   c_requests (apply_writes now ws c) = c_requests c \<and>
   c_completed (apply_writes now ws c) = c_completed c \<and>
   c_reconnects (apply_writes now ws c) = c_reconnects c"
proof (induction ws arbitrary: c)
  case (Cons w ws)
  then show ?case by (cases w) simp
qed simp

lemma apply_writes_scanValues:
  "c_scanValues (apply_writes now ws c) = map_option (\<lambda>m. m ++ map_of (rev ws)) (c_scanValues c)"
  by (induction ws arbitrary: c) (auto simp: option.map_comp comp_def map_add_assoc option.map_ident)

text \<open>Each write is stamped with the next reading of the clock.\<close>

definition stamped :: "(nat \<Rightarrow> instant) \<Rightarrow> nat \<Rightarrow> (string \<times> anyval) list \<Rightarrow>
    (string \<times> anyval \<times> instant) list" where
  "stamped now n ws = map (\<lambda>(i, tag, v). (tag, v, now i)) (enumerate n ws)"

lemma stamped_simps [simp]:
  "stamped now n [] = []"
  "stamped now n ((tag, v) # ws) = (tag, v, now n) # stamped now (Suc n) ws"
  by (simp_all add: stamped_def)

lemma apply_writes_udm:
  "c_udm (apply_writes now ws c) = udm_run (c_udm c) (stamped now (c_ticks c) ws)"
  by (induction ws arbitrary: c) (auto simp: udm_run_def)

lemma apply_writes_published:
  "c_publish c \<Longrightarrow> c_published (apply_writes now ws c) = c_published c @
     map (\<lambda>(tag, v, t). (tag, \<lparr>v_Value = v, v_UpdatedAt = t\<rparr>)) (stamped now (c_ticks c) ws)"
  by (induction ws arbitrary: c) auto

lemma update_points_writes:
  assumes "\<forall>pt\<in>set pts. parse_point (c_byteOrder c) isBit start raw pt \<noteq> Panic"
  shows "update_points now isBit start raw pts c =
    Some (apply_writes now (point_writes (c_byteOrder c) isBit start raw pts) c)"
  using assms
proof (induction pts arbitrary: c)
  case (Cons pt pts)
  then show ?case
    by (cases "parse_point (c_byteOrder c) isBit start raw pt")
      (auto simp: point_writes_def)
qed (simp add: point_writes_def)

lemma stamped_append:
  "stamped now n (ws @ ws') = stamped now n ws @ stamped now (n + length ws) ws'"
  by (simp add: stamped_def enumerate_append_eq)

lemma fst_stamped: "fst ` set (stamped now n ws) = fst ` set ws"
proof (induction ws arbitrary: n)
  case (Cons w ws)
  then show ?case by (cases w) simp
qed simp

section \<open>A device with a memory\<close>

text \<open>
  A reference device for the delivery theorem: registers and coils per register type, and the
  response bytes of the four read functions as the Modbus protocol lays them out (registers
  big-endian, coil \<open>i\<close> in bit \<open>i mod 8\<close> of byte \<open>i div 8\<close>, unused bits zero).
\<close>

definition reg_bytes :: "(nat \<Rightarrow> u16) \<Rightarrow> nat \<Rightarrow> nat \<Rightarrow> u8 list" where
  "reg_bytes regs a q =
     concat (map (\<lambda>i. [ucast (drop_bit 8 (regs i)), ucast (regs i)]) [a ..< a + q])"

definition coil_bytes :: "(nat \<Rightarrow> bool) \<Rightarrow> nat \<Rightarrow> nat \<Rightarrow> u8 list" where
  "coil_bytes coils a q =
     map (\<lambda>j. horner_sum of_bool 2 (map (\<lambda>i. 8 * j + i < q \<and> coils (a + 8 * j + i)) [0 ..< 8]))
       [0 ..< (q + 7) div 8]"

definition device_reply ::
  "(string \<Rightarrow> nat \<Rightarrow> u16) \<Rightarrow> (string \<Rightarrow> nat \<Rightarrow> bool) \<Rightarrow> string \<Rightarrow> u16 \<Rightarrow> u16 \<Rightarrow> u8 list" where
  "device_reply regs coils key start qty =
     (if IsRegTypeBit key then coil_bytes (coils key) (unat start) (unat qty)
      else reg_bytes (regs key) (unat start) (unat qty))"

definition serves ::
  "(string \<Rightarrow> nat \<Rightarrow> u16) \<Rightarrow> (string \<Rightarrow> nat \<Rightarrow> bool) \<Rightarrow> client \<Rightarrow> bool" where
  "serves regs coils client \<longleftrightarrow>
     (\<forall>n key start qty rq. read_request key start qty = Some rq \<longrightarrow>
        client n rq = Inr (device_reply regs coils key start qty))"

lemma reg_bytes_add: "reg_bytes regs a (k + m) = reg_bytes regs a k @ reg_bytes regs (a + k) m"
proof -
  have "[a ..< a + (k + m)] = [a ..< a + k] @ [a + k ..< a + k + m]"
    by (metis add.assoc le_add1 upt_add_eq_append)
  then show ?thesis by (simp add: reg_bytes_def)
qed

lemma length_reg_bytes [simp]: "length (reg_bytes regs a q) = 2 * q"
  by (simp add: reg_bytes_def length_concat comp_def sum_list_triv)

lemma reg_bytes_slice:
  assumes "k + m \<le> q"
  shows "take (2 * m) (drop (2 * k) (reg_bytes regs a q)) = reg_bytes regs (a + k) m"
proof -
  obtain r where "q = k + (m + r)" using assms by (metis add.assoc le_Suc_ex)
  then show ?thesis by (simp only: reg_bytes_add) simp
qed

lemma length_coil_bytes [simp]: "length (coil_bytes coils a q) = (q + 7) div 8"
  by (simp add: coil_bytes_def)

lemma coil_bytes_bit:
  assumes "i < q"
  shows "drop_bit (i mod 8) (coil_bytes coils a q ! (i div 8)) AND 1 = 1 \<longleftrightarrow> coils (a + i)"
proof -
  have j: "i div 8 < (q + 7) div 8" using assms by (simp add: less_eq_div_iff_mult_less_eq Suc_leI)
  have "bit (coil_bytes coils a q ! (i div 8)) (i mod 8) \<longleftrightarrow> coils (a + i)"
    using j assms by (simp add: coil_bytes_def bit_horner_sum_bit_iff add.assoc)
  moreover have "drop_bit n w AND 1 = 1 \<longleftrightarrow> bit w n" for w :: u8 and n
    by (simp add: and_one_eq bit_iff_odd_drop_bit odd_iff_mod_2_eq_one)
  ultimately show ?thesis by simp
qed

lemma length_device_reply: "length (device_reply regs coils key start qty) = response_length key qty"
  by (simp add: device_reply_def response_length_def)

text \<open>The value of a point read on its own, with a request for just its own registers.\<close>

definition point_value ::
  "(string \<Rightarrow> nat \<Rightarrow> u16) \<Rightarrow> (string \<Rightarrow> nat \<Rightarrow> bool) \<Rightarrow> string \<Rightarrow> PointConfig \<Rightarrow> point_result" where
  "point_value regs coils bo pt =
     parse_point bo (IsRegTypeBit (pc_RegType pt)) (pc_Address pt)
       (device_reply regs coils (pc_RegType pt) (pc_Address pt) (GetRegisterCount pt)) pt"

definition register_value :: "string \<Rightarrow> (nat \<Rightarrow> u16) \<Rightarrow> PointConfig \<Rightarrow> anyval" where
  "register_value bo regs pt = convert_value (pc_DataType pt) (effective_len pt)
     (extract_bits (raw_uint (applyGlobalByteOrder bo
         (reg_bytes regs (unat (pc_Address pt)) (unat (GetRegisterCount pt)))))
       (pc_BitOffset pt) (effective_len pt))"

lemma parse_register_point_memory:
  assumes s: "unat start \<le> unat (pc_Address pt)"
    "unat (pc_Address pt) + unat (GetRegisterCount pt) \<le> unat start + q" and q: "q \<le> 2000"
    and b: "0 \<le> pc_BitOffset pt" "0 \<le> pc_BitLen pt"
  shows "parse_register_point bo start (reg_bytes regs (unat start) q) pt =
    Got (register_value bo regs pt)"
proof -
  define i where "i = unat (pc_Address pt) - unat start"
  have a: "unat start + i = unat (pc_Address pt)" using s(1) by (simp add: i_def)
  have fits: "i + unat (GetRegisterCount pt) \<le> q" using s(2) a by simp
  have slice: "take (2 * unat (GetRegisterCount pt)) (drop (2 * i) (reg_bytes regs (unat start) q)) =
      reg_bytes regs (unat (pc_Address pt)) (unat (GetRegisterCount pt))"
    using reg_bytes_slice [OF fits] by (simp only: a)
  have l: "2 * i + 2 * unat (GetRegisterCount pt) \<le> length (reg_bytes regs (unat start) q)"
    "length (reg_bytes regs (unat start) q) < 2 ^ 16"
    using fits q by simp_all
  show ?thesis
    unfolding register_value_def slice [symmetric]
    by (rule parse_register_point_inside [OF s(1) _ refl l b]) (simp add: i_def)
qed

lemma parse_bit_point_memory:
  assumes s: "unat start \<le> unat (pc_Address pt)" "unat (pc_Address pt) < unat start + q"
  shows "parse_bit_point start (coil_bytes coils (unat start) q) pt =
    Got (VBool (coils (unat (pc_Address pt))))"
proof -
  define i where "i = unat (pc_Address pt) - unat start"
  have a: "unat start + i = unat (pc_Address pt)" using s(1) by (simp add: i_def)
  have i: "i < q" using s(2) a by simp
  then have "i div 8 < length (coil_bytes coils (unat start) q)"
    by (simp add: less_eq_div_iff_mult_less_eq Suc_leI)
  from parse_bit_point_inside [OF s(1) i_def this] coil_bytes_bit [OF i, of coils "unat start"]
  show ?thesis by (simp only: a)
qed

lemma point_value_batched:
  assumes wf: "chunk_wf key c" and pt: "pt \<in> set (rc_Points c)" and key: "pc_RegType pt = key"
    and b: "0 \<le> pc_BitOffset pt" "0 \<le> pc_BitLen pt"
  shows "parse_point bo (IsRegTypeBit key) (rc_StartAddr c)
      (device_reply regs coils key (rc_StartAddr c) (rc_Quantity c)) pt = point_value regs coils bo pt"
proof -
  note s = span_within_chunk [OF wf pt]
  have q: "unat (rc_Quantity c) \<le> 2000"
    using wf max_qty_bounds(2) [of key] by (simp add: chunk_wf_def word_le_nat_alt)
  have g: "1 \<le> unat (GetRegisterCount pt)" "unat (GetRegisterCount pt) \<le> 2000"
    using GetRegisterCount_bounds [of pt] by simp_all
  show ?thesis
  proof (cases "IsRegTypeBit key")
    case True
    have "parse_bit_point (rc_StartAddr c)
        (coil_bytes (coils key) (unat (rc_StartAddr c)) (unat (rc_Quantity c))) pt =
      parse_bit_point (pc_Address pt)
        (coil_bytes (coils key) (unat (pc_Address pt)) (unat (GetRegisterCount pt))) pt"
      using s g(1) by (simp add: parse_bit_point_memory)
    with True key show ?thesis by (simp add: point_value_def parse_point_def device_reply_def)
  next
    case False
    have "parse_register_point bo (rc_StartAddr c)
        (reg_bytes (regs key) (unat (rc_StartAddr c)) (unat (rc_Quantity c))) pt =
      parse_register_point bo (pc_Address pt)
        (reg_bytes (regs key) (unat (pc_Address pt)) (unat (GetRegisterCount pt))) pt"
      by (simp only: parse_register_point_memory [OF s q b]
          parse_register_point_memory [OF order_refl order_refl g(2) b])
    with False key show ?thesis by (simp add: point_value_def parse_point_def device_reply_def)
  qed
qed

section \<open>A complete scan\<close>

definition memory_writes ::
  "(string \<Rightarrow> nat \<Rightarrow> u16) \<Rightarrow> (string \<Rightarrow> nat \<Rightarrow> bool) \<Rightarrow> string \<Rightarrow> PointConfig list \<Rightarrow> (string \<times> anyval) list"
  where
  "memory_writes regs coils bo pts =
     concat (map (\<lambda>pt. case point_value regs coils bo pt of
       Got v \<Rightarrow> [(pc_TagName pt, v)] | _ \<Rightarrow> []) pts)"

text \<open>A chunk the merge step can produce: well formed for the register type of its points.\<close>

definition chunk_good :: "ReadChunk \<Rightarrow> bool" where
  "chunk_good c \<longleftrightarrow> rc_Points c \<noteq> [] \<and>
     (let key = pc_RegType (hd (rc_Points c))
      in key \<in> set validRegTypes \<and> chunk_wf key c \<and>
         (\<forall>p\<in>set (rc_Points c). pc_RegType p = key \<and> 0 \<le> pc_BitOffset p \<and> 0 \<le> pc_BitLen p))"

lemma if_Some_ex:
  "(\<exists>x. (if A then Some a else if B then Some b else if C then Some c else if D then Some d else None)
     = Some x) \<longleftrightarrow> A \<or> B \<or> C \<or> D"
  by (cases A; cases B; cases C; cases D; simp)

lemma read_request_valid:
  "key \<in> set validRegTypes \<longleftrightarrow> (\<exists>rq. read_request key start qty = Some rq)"
  unfolding read_request_def if_Some_ex validRegTypes_def list.set insert_iff empty_iff simp_thms
  by (rule TrueI)

definition chunk_requests :: "ReadChunk list \<Rightarrow> modreq list" where
  "chunk_requests cs = concat (map (\<lambda>c. case rc_Points c of [] \<Rightarrow> []
     | p0 # _ \<Rightarrow> (case read_request (pc_RegType p0) (rc_StartAddr c) (rc_Quantity c) of
         None \<Rightarrow> [] | Some rq \<Rightarrow> [rq])) cs)"

lemma point_value_Got:
  assumes "chunk_good c" "p \<in> set (rc_Points c)"
  shows "\<exists>v. point_value regs coils bo p = Got v"
proof -
  let ?key = "pc_RegType (hd (rc_Points c))"
  have g: "chunk_wf ?key c" "pc_RegType p = ?key" "0 \<le> pc_BitOffset p" "0 \<le> pc_BitLen p"
    using assms unfolding chunk_good_def Let_def by blast+
  show ?thesis
    using parse_point_in_chunk [OF g(1) assms(2) g(2-4) length_device_reply,
        of bo regs coils "rc_StartAddr c"]
      point_value_batched [OF g(1) assms(2) g(2-4), of bo regs coils]
    by simp
qed

lemma scan_chunk_good:
  assumes g: "chunk_good chunk" and srv: "serves regs coils client"
  shows "scan_chunk now client chunk c =
    Continue (apply_writes now (memory_writes regs coils (c_byteOrder c) (rc_Points chunk))
      (c\<lparr>c_requests := c_requests c @ chunk_requests [chunk]\<rparr>))"
proof -
  from g obtain p0 ps where pts: "rc_Points chunk = p0 # ps"
    by (auto simp: chunk_good_def neq_Nil_conv)
  define key where "key = pc_RegType p0"
  have k: "key \<in> set validRegTypes" and wf: "chunk_wf key chunk"
    and all: "\<And>p. p \<in> set (rc_Points chunk) \<Longrightarrow>
      pc_RegType p = key \<and> 0 \<le> pc_BitOffset p \<and> 0 \<le> pc_BitLen p"
    using g unfolding chunk_good_def Let_def pts list.sel key_def by blast+
  from k read_request_valid obtain rq where
    rq: "read_request key (rc_StartAddr chunk) (rc_Quantity chunk) = Some rq" by blast
  let ?raw = "device_reply regs coils key (rc_StartAddr chunk) (rc_Quantity chunk)"
  let ?c1 = "c\<lparr>c_requests := c_requests c @ [rq]\<rparr>"
  have reply: "client n rq = Inr ?raw" for n
    using srv rq by (auto simp: serves_def)
  have same: "parse_point (c_byteOrder c) (IsRegTypeBit key) (rc_StartAddr chunk) ?raw p =
      point_value regs coils (c_byteOrder c) p" if "p \<in> set (rc_Points chunk)" for p
    using all [OF that] by (intro point_value_batched [OF wf that]) auto
  have np: "\<forall>p\<in>set (rc_Points chunk). parse_point (c_byteOrder ?c1) (IsRegTypeBit key)
      (rc_StartAddr chunk) ?raw p \<noteq> Panic"
  proof
    fix p assume p: "p \<in> set (rc_Points chunk)"
    show "parse_point (c_byteOrder ?c1) (IsRegTypeBit key) (rc_StartAddr chunk) ?raw p \<noteq> Panic"
      using same [OF p] point_value_Got [OF g p, of regs coils "c_byteOrder c"] by auto
  qed
  have writes: "point_writes (c_byteOrder c) (IsRegTypeBit key) (rc_StartAddr chunk) ?raw
      (rc_Points chunk) = memory_writes regs coils (c_byteOrder c) (rc_Points chunk)"
    unfolding point_writes_def memory_writes_def
    by (intro arg_cong [of _ _ concat] map_cong refl) (simp add: same)
  have "parseAndUpdate now chunk ?raw ?c1 =
      update_points now (IsRegTypeBit key) (rc_StartAddr chunk) ?raw (rc_Points chunk) ?c1"
    by (simp only: parseAndUpdate_def pts list.case key_def)
  also have "\<dots> = Some (apply_writes now (memory_writes regs coils (c_byteOrder c) (rc_Points chunk)) ?c1)"
    using update_points_writes [OF np] writes by simp
  finally have parse: "parseAndUpdate now chunk ?raw ?c1 =
      Some (apply_writes now (memory_writes regs coils (c_byteOrder c) (rc_Points chunk)) ?c1)" .
  have req: "chunk_requests [chunk] = [rq]"
    using rq by (simp add: chunk_requests_def pts key_def)
  show ?thesis
    unfolding scan_chunk_def pts list.case key_def [symmetric] rq option.case Let_def reply sum.case
      parse scan_result.case req by (simp only: option.case parse flip: pts)
qed

lemma memory_writes_append:
  "memory_writes regs coils bo (ps @ qs) = memory_writes regs coils bo ps @ memory_writes regs coils bo qs"
  by (simp add: memory_writes_def)

lemma chunk_requests_Cons: "chunk_requests (c # cs) = chunk_requests [c] @ chunk_requests cs"
  by (simp add: chunk_requests_def)

lemma apply_writes_requests_commute:
  "(apply_writes now ws c)\<lparr>c_requests := rqs\<rparr> = apply_writes now ws (c\<lparr>c_requests := rqs\<rparr>)"
proof (induction ws arbitrary: c)
  case (Cons w ws)
  obtain t v where w: "w = (t, v)" by (cases w)
  have "(updateValue now t v c)\<lparr>c_requests := rqs\<rparr> = updateValue now t v (c\<lparr>c_requests := rqs\<rparr>)"
    by (simp add: updateValue_def Let_def split: option.split)
  then show ?case unfolding w apply_writes_Cons Cons.IH by (rule arg_cong)
qed simp

lemma scan_chunks_good:
  assumes "\<forall>c\<in>set cs. chunk_good c" and "serves regs coils client"
  shows "scan_chunks now client cs c =
    Continue (apply_writes now (memory_writes regs coils (c_byteOrder c) (concat (map rc_Points cs)))
      (c\<lparr>c_requests := c_requests c @ chunk_requests cs\<rparr>))"
  using assms(1)
proof (induction cs arbitrary: c)
  case Nil
  then show ?case by (simp add: memory_writes_def chunk_requests_def)
next
  case (Cons chunk cs)
  then have g: "chunk_good chunk" "\<forall>c\<in>set cs. chunk_good c" by simp_all
  show ?case
    unfolding scan_chunks.simps(2) scan_chunk_good [OF g(1) assms(2)] scan_result.case
      Cons.IH [OF g(2)] chunk_requests_Cons [of chunk cs]
    by (simp add: apply_writes_requests_commute memory_writes_append apply_writes_append)
qed

lemma memory_writes_fst:
  assumes "\<forall>p\<in>set pts. \<exists>v. point_value regs coils bo p = Got v"
  shows "map fst (memory_writes regs coils bo pts) = map pc_TagName pts"
  using assms unfolding memory_writes_def by (induction pts) auto

lemma memory_writes_mem:
  "p \<in> set pts \<Longrightarrow> point_value regs coils bo p = Got v \<Longrightarrow>
     (pc_TagName p, v) \<in> set (memory_writes regs coils bo pts)"
  unfolding memory_writes_def by (force split: point_result.split)

text \<open>With distinct tags, every write is the last one of its tag.\<close>

lemma apply_writes_distinct:
  assumes d: "distinct (map fst ws)" and m: "(tag, v) \<in> set ws" and wf: "udm_wf (c_udm c)"
  shows "\<exists>t. udm_Snapshot (c_udm (apply_writes now ws c)) tag = Some \<lparr>v_Value = v, v_UpdatedAt = t\<rparr>"
    and "map_of (rev ws) tag = Some v"
proof -
  from m obtain ws1 ws2 where ws: "ws = ws1 @ (tag, v) # ws2" by (meson split_list)
  have "tag \<notin> fst ` set ws2" using d by (auto simp: ws)
  then have "tag \<notin> fst ` set (stamped now (Suc (c_ticks c + length ws1)) ws2)"
    by (simp only: fst_stamped not_False_eq_True)
  from vs.run_last_write [OF wf this, of "stamped now (c_ticks c) ws1" v]
  show "\<exists>t. udm_Snapshot (c_udm (apply_writes now ws c)) tag = Some \<lparr>v_Value = v, v_UpdatedAt = t\<rparr>"
    unfolding apply_writes_udm udm_run_vs ws stamped_append by auto
  show "map_of (rev ws) tag = Some v"
    using d m by (intro map_of_is_SomeI) (auto simp: rev_map [symmetric])
qed

lemma scanOnce_served:
  assumes g: "\<forall>ch\<in>set (chunks_in_order (c_chunks c) keys). chunk_good ch"
    and srv: "serves regs coils client"
  defines "cs \<equiv> chunks_in_order (c_chunks c) keys"
  defines "ws \<equiv> memory_writes regs coils (c_byteOrder c) (concat (map rc_Points cs))"
  shows "\<exists>c'. scanOnce now (Some client) keys c = Some c' \<and>
    c_requests c' = c_requests c @ chunk_requests cs \<and>
    c_udm c' = c_udm (apply_writes now ws c) \<and> c_scanValues c' = None \<and>
    c_reconnects c' = c_reconnects c \<and>
    c_completed c' = c_completed c @
      (if c_scanComplete c then [(map_of (rev ws), now (c_ticks c + length ws))] else [])"
proof -
  let ?c0 = "c\<lparr>c_scanValues := Some Map.empty\<rparr>"
  let ?c1 = "apply_writes now ws (?c0\<lparr>c_requests := c_requests c @ chunk_requests cs\<rparr>)"
  have "scan_chunks now client cs ?c0 = Continue ?c1"
    using scan_chunks_good [OF g srv, of now ?c0] by (simp add: cs_def ws_def)
  then have "scanOnce now (Some client) keys c =
      Some (completeScan now (map_of (rev ws)) (?c1\<lparr>c_scanValues := None\<rparr>))"
    by (simp add: scanOnce_def cs_def apply_writes_scanValues)
  then show ?thesis
    by (simp add: completeScan_def apply_writes_udm)
qed

section \<open>Any scan, any device\<close>

lemma update_points_is_writes:
  "update_points now isBit start raw pts c = Some c' \<Longrightarrow> \<exists>ws. c' = apply_writes now ws c"
proof (induction pts arbitrary: c)
  case Nil
  then show ?case by (intro exI [of _ "[]"]) simp
next
  case (Cons pt pts)
  show ?case
  proof (cases "parse_point (c_byteOrder c) isBit start raw pt")
    case (Got v)
    with Cons obtain ws where "c' = apply_writes now ws (updateValue now (pc_TagName pt) v c)"
      by fastforce
    then show ?thesis by (intro exI [of _ "(pc_TagName pt, v) # ws"]) simp
  qed (use Cons in auto)
qed

text \<open>What is true of the collector in the middle of a scan that began in state \<open>c0\<close>.\<close>

definition scan_progress ::
  "(nat \<Rightarrow> instant) \<Rightarrow> client \<Rightarrow> Collector \<Rightarrow> Collector \<Rightarrow> bool" where
  "scan_progress now client c0 c \<longleftrightarrow>
     (\<exists>ws rqs. c_requests c = c_requests c0 @ rqs \<and>
        (\<forall>i < length rqs. \<exists>raw. client (length (c_requests c0) + i) (rqs ! i) = Inr raw) \<and>
        c_udm c = udm_run (c_udm c0) (stamped now (c_ticks c0) ws) \<and>
        c_ticks c = c_ticks c0 + length ws \<and> c_publish c = c_publish c0 \<and>
        (c_publish c0 \<longrightarrow> c_published c = c_published c0 @
           map (\<lambda>(tag, v, t). (tag, \<lparr>v_Value = v, v_UpdatedAt = t\<rparr>)) (stamped now (c_ticks c0) ws)) \<and>
        c_scanValues c = Some (map_of (rev ws)) \<and> c_chunks c = c_chunks c0 \<and>
        c_scanComplete c = c_scanComplete c0 \<and> c_completed c = c_completed c0 \<and>
        c_reconnects c = c_reconnects c0)"

lemma scan_progress_writes:
  assumes "scan_progress now client c0 c"
    and "client (length (c_requests c)) rq = Inr raw"
  shows "scan_progress now client c0
    (apply_writes now ws (c\<lparr>c_requests := c_requests c @ [rq]\<rparr>))"
proof -
  from assms(1) obtain ws0 rqs where
      r: "c_requests c = c_requests c0 @ rqs"
        "\<forall>i < length rqs. \<exists>raw. client (length (c_requests c0) + i) (rqs ! i) = Inr raw"
    and u: "c_udm c = udm_run (c_udm c0) (stamped now (c_ticks c0) ws0)"
        "c_ticks c = c_ticks c0 + length ws0" "c_publish c = c_publish c0"
        "c_publish c0 \<longrightarrow> c_published c = c_published c0 @
           map (\<lambda>(tag, v, t). (tag, \<lparr>v_Value = v, v_UpdatedAt = t\<rparr>)) (stamped now (c_ticks c0) ws0)"
    and v: "c_scanValues c = Some (map_of (rev ws0))"
    and f: "c_chunks c = c_chunks c0" "c_scanComplete c = c_scanComplete c0"
        "c_completed c = c_completed c0" "c_reconnects c = c_reconnects c0"
    unfolding scan_progress_def by blast
  let ?c = "apply_writes now ws (c\<lparr>c_requests := c_requests c @ [rq]\<rparr>)"
  have pub: "c_publish c0 \<longrightarrow> c_published ?c = c_published c0 @
      map (\<lambda>(tag, v, t). (tag, \<lparr>v_Value = v, v_UpdatedAt = t\<rparr>)) (stamped now (c_ticks c0) (ws0 @ ws))"
    using u by (simp add: apply_writes_published stamped_append)
  have rqs: "\<forall>i < length (rqs @ [rq]). \<exists>raw.
      client (length (c_requests c0) + i) ((rqs @ [rq]) ! i) = Inr raw"
    using r assms(2) by (auto simp: nth_append less_Suc_eq)
  show ?thesis
    unfolding scan_progress_def
    by (rule exI [of _ "ws0 @ ws"], rule exI [of _ "rqs @ [rq]"])
      (use r u v f pub rqs in \<open>simp add: apply_writes_udm apply_writes_scanValues stamped_append
        udm_run_def\<close>)
qed

lemma scan_chunk_progress:
  assumes p: "scan_progress now client c0 c"
  shows "scan_chunk now client chunk c = Continue c' \<Longrightarrow> scan_progress now client c0 c'"
    and "scan_chunk now client chunk c = Abort c' \<Longrightarrow>
      \<exists>cm rq err. scan_progress now client c0 cm \<and> client (length (c_requests cm)) rq = Inl err \<and>
        c' = cm\<lparr>c_requests := c_requests cm @ [rq], c_reconnects := c_reconnects cm + 1,
                c_scanValues := None\<rparr>"
proof -
  assume "scan_chunk now client chunk c = Continue c'"
  then consider "c' = c" | rq raw where "client (length (c_requests c)) rq = Inr raw"
      "parseAndUpdate now chunk raw (c\<lparr>c_requests := c_requests c @ [rq]\<rparr>) = Some c'"
    by (auto simp: scan_chunk_def Let_def split: list.splits option.splits sum.splits)
  then show "scan_progress now client c0 c'"
  proof cases
    case 2
    then obtain ws where "c' = apply_writes now ws (c\<lparr>c_requests := c_requests c @ [rq]\<rparr>)"
      using update_points_is_writes by (fastforce simp: parseAndUpdate_def split: list.splits)
    then show ?thesis using scan_progress_writes [OF p 2(1)] by simp
  qed (use p in simp)
next
  assume "scan_chunk now client chunk c = Abort c'"
  then obtain rq err where "client (length (c_requests c)) rq = Inl err"
      "c' = c\<lparr>c_requests := c_requests c @ [rq], c_reconnects := c_reconnects c + 1,
              c_scanValues := None\<rparr>"
    by (auto simp: scan_chunk_def Let_def split: list.splits option.splits sum.splits)
  with p show "\<exists>cm rq err. scan_progress now client c0 cm \<and>
      client (length (c_requests cm)) rq = Inl err \<and>
      c' = cm\<lparr>c_requests := c_requests cm @ [rq], c_reconnects := c_reconnects cm + 1,
              c_scanValues := None\<rparr>"
    by blast
qed

lemma scan_chunks_progress:
  "scan_progress now client c0 c \<Longrightarrow>
   (case scan_chunks now client chunks c of
      Continue c' \<Rightarrow> scan_progress now client c0 c'
    | Abort c' \<Rightarrow> \<exists>cm rq err. scan_progress now client c0 cm \<and>
        client (length (c_requests cm)) rq = Inl err \<and>
        c' = cm\<lparr>c_requests := c_requests cm @ [rq], c_reconnects := c_reconnects cm + 1,
                c_scanValues := None\<rparr>
    | ScanPanic \<Rightarrow> True)"
proof (induction chunks arbitrary: c)
  case (Cons chunk chunks)
  show ?case
  proof (cases "scan_chunk now client chunk c")
    case (Continue c')
    from Cons.IH [OF scan_chunk_progress(1) [OF Cons.prems Continue]] Continue
    show ?thesis by simp
  next
    case (Abort c')
    from scan_chunk_progress(2) [OF Cons.prems Abort] Abort show ?thesis by simp
  qed simp
qed simp

lemma scan_progress_start:
  "scan_progress now client c (c\<lparr>c_scanValues := Some Map.empty\<rparr>)"
  unfolding scan_progress_def by (rule exI [of _ "[]"], rule exI [of _ "[]"]) (simp add: udm_run_def)

section \<open>Properties\<close>

text \<open>
  C3: a scan is atomic towards its consumers, for every device behaviour. Either every request
  of the scan was answered, then exactly one snapshot is delivered (when a consumer is
  installed) and no reconnect is begun; or the last request failed, then the scan stops right
  there, delivers no snapshot and begins exactly one reconnect. In both cases the scan's own
  value buffer is gone afterwards.
\<close>

theorem scan_atomic:
  assumes "scanOnce now (Some client) keys c = Some c'"
  shows "\<exists>rqs. c_requests c' = c_requests c @ rqs \<and> c_scanValues c' = None \<and>
    ((\<forall>i < length rqs. \<exists>raw. client (length (c_requests c) + i) (rqs ! i) = Inr raw) \<and>
       c_reconnects c' = c_reconnects c \<and>
       (\<exists>vals t. c_completed c' = c_completed c @ (if c_scanComplete c then [(vals, t)] else [])) \<or>
     rqs \<noteq> [] \<and>
       (\<forall>i < length rqs - 1. \<exists>raw. client (length (c_requests c) + i) (rqs ! i) = Inr raw) \<and>
       (\<exists>err. client (length (c_requests c) + (length rqs - 1)) (last rqs) = Inl err) \<and>
       c_reconnects c' = c_reconnects c + 1 \<and> c_completed c' = c_completed c)"
proof (cases "scan_chunks now client (chunks_in_order (c_chunks c) keys)
    (c\<lparr>c_scanValues := Some Map.empty\<rparr>)")
  case (Continue c1)
  have "scan_progress now client c c1"
    using scan_chunks_progress [OF scan_progress_start, of now client c
        "chunks_in_order (c_chunks c) keys"] Continue by simp
  then obtain rqs vals where p: "c_requests c1 = c_requests c @ rqs"
      "\<forall>i < length rqs. \<exists>raw. client (length (c_requests c) + i) (rqs ! i) = Inr raw"
      "c_scanValues c1 = Some vals" "c_scanComplete c1 = c_scanComplete c"
      "c_completed c1 = c_completed c" "c_reconnects c1 = c_reconnects c"
    unfolding scan_progress_def by blast
  have c': "c' = completeScan now vals (c1\<lparr>c_scanValues := None\<rparr>)"
    using assms Continue p(3) by (simp add: scanOnce_def)
  show ?thesis
    by (rule exI [of _ rqs]) (use p in \<open>simp add: c' completeScan_def\<close>)
next
  case (Abort c1)
  have "\<exists>cm rq err. scan_progress now client c cm \<and> client (length (c_requests cm)) rq = Inl err \<and>
        c1 = cm\<lparr>c_requests := c_requests cm @ [rq], c_reconnects := c_reconnects cm + 1,
                c_scanValues := None\<rparr>"
    using scan_chunks_progress [OF scan_progress_start, of now client c
        "chunks_in_order (c_chunks c) keys"] Abort by simp
  moreover have "c' = c1" using assms Abort by (simp add: scanOnce_def)
  ultimately obtain cm rq err rqs where f: "client (length (c_requests cm)) rq = Inl err"
      "c' = cm\<lparr>c_requests := c_requests cm @ [rq], c_reconnects := c_reconnects cm + 1,
              c_scanValues := None\<rparr>"
    and p: "c_requests cm = c_requests c @ rqs"
      "\<forall>i < length rqs. \<exists>raw. client (length (c_requests c) + i) (rqs ! i) = Inr raw"
      "c_completed cm = c_completed c" "c_reconnects cm = c_reconnects c"
    unfolding scan_progress_def by blast
  show ?thesis
    by (rule exI [of _ "rqs @ [rq]"]) (use f p in \<open>auto simp: nth_append\<close>)
next
  case ScanPanic
  with assms show ?thesis by (simp add: scanOnce_def)
qed

text \<open>
  C18: the live feed and the value store agree, for every device behaviour: the events a scan
  hands to the publisher, replayed as updates on the store as it was before the scan, give
  exactly the store after it, with the same values, the same order and the same time stamps,
  also when the scan is cut short by an error.
\<close>

theorem scan_feed_matches_store:
  assumes "scanOnce now (Some client) keys c = Some c'" and "c_publish c"
  shows "\<exists>feed. c_published c' = c_published c @ feed \<and>
    c_udm c' = udm_run (c_udm c) (map (\<lambda>(tag, val). (tag, v_Value val, v_UpdatedAt val)) feed)"
proof -
  have feed: "\<exists>feed. c_published cm = c_published c @ feed \<and>
      c_udm cm = udm_run (c_udm c) (map (\<lambda>(tag, val). (tag, v_Value val, v_UpdatedAt val)) feed)"
    if p: "scan_progress now client c cm" for cm
  proof -
    from p assms(2) obtain ws where "c_udm cm = udm_run (c_udm c) (stamped now (c_ticks c) ws)"
      "c_published cm = c_published c @
        map (\<lambda>(tag, v, t). (tag, \<lparr>v_Value = v, v_UpdatedAt = t\<rparr>)) (stamped now (c_ticks c) ws)"
      unfolding scan_progress_def by blast
    moreover have "map (\<lambda>(tag, val). (tag, v_Value val, v_UpdatedAt val))
        (map (\<lambda>(tag, v, t). (tag, \<lparr>v_Value = v, v_UpdatedAt = t\<rparr>)) xs) = xs"
      for xs :: "(string \<times> anyval \<times> instant) list"
      by (induction xs) auto
    ultimately show ?thesis
      by (intro exI [of _ "map (\<lambda>(tag, v, t). (tag, \<lparr>v_Value = v, v_UpdatedAt = t\<rparr>))
        (stamped now (c_ticks c) ws)"]) (simp only: simp_thms)
  qed
  note prog = scan_chunks_progress [OF scan_progress_start, of now client c
      "chunks_in_order (c_chunks c) keys"]
  show ?thesis
  proof (cases "scan_chunks now client (chunks_in_order (c_chunks c) keys)
      (c\<lparr>c_scanValues := Some Map.empty\<rparr>)")
    case (Continue c1)
    with prog have "scan_progress now client c c1" by simp
    from feed [OF this] show ?thesis
      using assms(1) Continue by (auto simp: scanOnce_def completeScan_def split: if_splits)
  next
    case (Abort c1)
    with prog obtain cm rq where "scan_progress now client c cm"
      "c1 = cm\<lparr>c_requests := c_requests cm @ [rq], c_reconnects := c_reconnects cm + 1,
              c_scanValues := None\<rparr>" by auto
    with feed [of cm] show ?thesis using assms(1) Abort by (auto simp: scanOnce_def)
  next
    case ScanPanic
    with assms show ?thesis by (simp add: scanOnce_def)
  qed
qed

text \<open>The register word or coil word a value is written as, where the write is allowed.\<close>

fun write_request :: "PointConfig \<Rightarrow> anyval \<Rightarrow> modreq option" where
  "write_request pt (VUint16 v) =
     (if pc_RegType pt = ''HoldingReg'' then Some (WriteSingleRegister (pc_Address pt) v) else None)"
| "write_request pt (VInt16 v) =
     (if pc_RegType pt = ''HoldingReg'' then Some (WriteSingleRegister (pc_Address pt) v) else None)"
| "write_request pt (VInt v) =
     (if pc_RegType pt = ''HoldingReg'' \<and> 0 \<le> v \<and> v < 2 ^ 16
      then Some (WriteSingleRegister (pc_Address pt) (of_int v)) else None)"
| "write_request pt (VBool v) =
     (if pc_RegType pt = ''CoilStatus''
      then Some (WriteSingleCoil (pc_Address pt) (if v then 0xFF00 else 0)) else None)"
| "write_request pt _ = None"

lemma write_value_cases:
  "write_value client pt val c =
     (case write_request pt val of
        Some rq \<Rightarrow> send client rq c
      | None \<Rightarrow> (fst (write_value client pt val c), c))
   \<and> (write_request pt val = None \<longrightarrow> (\<exists>e. fst (write_value client pt val c) = Inl e))"
  by (cases val) auto

text \<open>
  C20: writing is safe: \<open>WriteTag\<close> sends at most one request, and it sends one only when the tag
  names a writeable point, the device is connected and the value fits the point (a word for a
  holding register, an \<open>int\<close> only in 0..65535, a bool for a coil); the request addresses that
  very point with that very value. Otherwise it returns an error and the device is not touched;
  it reports success exactly when the device acknowledged the request.
\<close>

theorem WriteTag_safe:
  assumes "WriteTag conn keys tag val c = (r, c')"
  shows "c' = c \<and> (\<exists>e. r = Inl e) \<or>
    (\<exists>pt client rq. findPoint (c_chunks c) keys tag = Some pt \<and> pc_TagName pt = tag \<and>
       pc_Writeable pt \<and> conn = Some client \<and> write_request pt val = Some rq \<and>
       c' = c\<lparr>c_requests := c_requests c @ [rq]\<rparr> \<and>
       (r = Inr () \<longleftrightarrow> (\<exists>raw. client (length (c_requests c)) rq = Inr raw)))"
proof (cases "\<exists>pt client. findPoint (c_chunks c) keys tag = Some pt \<and> pc_Writeable pt \<and> conn = Some client")
  case False
  with assms show ?thesis by (auto simp: WriteTag_def split: option.splits if_splits)
next
  case True
  then obtain pt client where t: "findPoint (c_chunks c) keys tag = Some pt" "pc_Writeable pt"
      "conn = Some client" by blast
  have tag: "pc_TagName pt = tag"
    using t(1) by (auto simp: findPoint_def find_Some_iff)
  have w: "write_value client pt val c = (r, c')"
    using assms t by (simp add: WriteTag_def)
  show ?thesis
  proof (cases "write_request pt val")
    case None
    then show ?thesis
      using w write_value_cases [of client pt val c] by auto
  next
    case (Some rq)
    then have "(r, c') = send client rq c"
      using w write_value_cases [of client pt val c] by simp
    then show ?thesis
      using t tag Some by (cases "client (length (c_requests c)) rq") (auto simp: send_def)
  qed
qed

section \<open>Witnesses\<close>

definition sample_collector :: Collector where
  "sample_collector =
     \<lparr>c_udm = udm_New, c_chunks = [''HoldingReg'' \<mapsto> sample_chunks], c_byteOrder = ''ABCD'',
      c_publish = True, c_scanComplete = True, c_scanValues = None, c_ticks = 0,
      c_requests = [], c_published = [], c_completed = [], c_reconnects = 0\<rparr>"

lemma sample_order: "chunks_in_order (c_chunks sample_collector) [''HoldingReg''] = sample_chunks"
  by (simp add: chunks_in_order_def sample_collector_def)

text \<open>A device that answers both batch reads, and one whose connection breaks before the second.\<close>

definition sample_device :: client where
  "sample_device n rq = (if n = 0 then Inr [0, 7, 0x3F, 0x80, 0, 0] else Inr [0x40, 0, 0, 0, 0, 0, 0, 0])"

definition cut_device :: client where
  "cut_device n rq = (if n = 0 then sample_device n rq else Inl ''broken pipe'')"

lemma sample_point_lengths [simp]:
  "effective_len (sample_point t a ''UInt16'') = 16" "effective_len (sample_point t a ''Float32'') = 32"
  "effective_len (sample_point t a ''Double'') = 64" "pc_BitOffset (sample_point t a d) = 0"
  "pc_TagName (sample_point t a d) = t"
  by (simp_all add: effective_len_def sample_point_def TypeBitWidth_def Let_def)

lemma sample_scan_points:
  "parse_point ''ABCD'' False 0 [0, 7, 0x3F, 0x80, 0, 0] (sample_point ''a'' 0 ''UInt16'') = Got (VFloat64 (f64_of_int 7))"
  "\<exists>v. parse_point ''ABCD'' False 0 [0, 7, 0x3F, 0x80, 0, 0] (sample_point ''b'' 1 ''Float32'') = Got v"
  "\<exists>v. parse_point ''ABCD'' False 10 [0x40, 0, 0, 0, 0, 0, 0, 0] (sample_point ''c'' 10 ''Double'') = Got v"
  by (simp_all add: parse_point_def parse_register_point_def Let_def)
    (simp add: convert_value_def applyGlobalByteOrder_def raw_uint_def be_nat_def extract_bits_def)

lemmas sample_scan_simps = sample_chunks_def scan_chunk_def read_request_def sample_device_def
  parseAndUpdate_def sample_scan_points(1) IsRegTypeBit_def sample_collector_def completeScan_def
  updateValue_def

lemma sample_served:
  "\<exists>c' vals t b c. scanOnce int (Some sample_device) [''HoldingReg''] sample_collector = Some c' \<and>
    c_requests c' = [ReadHoldingRegisters 0 3, ReadHoldingRegisters 10 4] \<and> c_completed c' = [(vals, t)] \<and>
    c_reconnects c' = 0 \<and>
    c_published c' = [(''a'', \<lparr>v_Value = VFloat64 (f64_of_int 7), v_UpdatedAt = 0\<rparr>), (''b'', b), (''c'', c)]"
proof -
  obtain b c where
    "parse_point ''ABCD'' False 0 [0, 7, 0x3F, 0x80, 0, 0] (sample_point ''b'' 1 ''Float32'') = Got b"
    "parse_point ''ABCD'' False 10 [0x40, 0, 0, 0, 0, 0, 0, 0] (sample_point ''c'' 10 ''Double'') = Got c"
    using sample_scan_points(2,3) by blast
  note v = this this [simplified]
  show ?thesis
    unfolding scanOnce_def sample_order by (simp add: sample_scan_simps v Let_def)
qed

lemma sample_cut:
  "\<exists>c'. scanOnce int (Some cut_device) [''HoldingReg''] sample_collector = Some c' \<and>
    c_requests c' = [ReadHoldingRegisters 0 3, ReadHoldingRegisters 10 4]"
proof -
  obtain b where
    "parse_point ''ABCD'' False 0 [0, 7, 0x3F, 0x80, 0, 0] (sample_point ''b'' 1 ''Float32'') = Got b"
    using sample_scan_points(2) by blast
  note v = this this [simplified]
  show ?thesis
    unfolding scanOnce_def sample_order by (simp add: sample_scan_simps cut_device_def v Let_def)
qed

theorem scan_atomic_witness:
  "(\<exists>c' vals t. scanOnce int (Some sample_device) [''HoldingReg''] sample_collector = Some c' \<and>
      c_requests c' = [ReadHoldingRegisters 0 3, ReadHoldingRegisters 10 4] \<and>
      c_completed c' = [(vals, t)] \<and> c_reconnects c' = 0 \<and> c_scanValues c' = None) \<and>
   (\<exists>c'. scanOnce int (Some cut_device) [''HoldingReg''] sample_collector = Some c' \<and>
      c_requests c' = [ReadHoldingRegisters 0 3, ReadHoldingRegisters 10 4] \<and>
      c_completed c' = [] \<and> c_reconnects c' = 1 \<and> c_scanValues c' = None)"
proof (intro conjI)
  have e: "c_requests sample_collector = []" "c_completed sample_collector = []" "c_reconnects sample_collector = 0"
    "c_scanComplete sample_collector"
    by (simp_all add: sample_collector_def)
  show "\<exists>c' vals t. scanOnce int (Some sample_device) [''HoldingReg''] sample_collector = Some c' \<and>
      c_requests c' = [ReadHoldingRegisters 0 3, ReadHoldingRegisters 10 4] \<and>
      c_completed c' = [(vals, t)] \<and> c_reconnects c' = 0 \<and> c_scanValues c' = None"
  proof -
    obtain c' where c: "scanOnce int (Some sample_device) [''HoldingReg''] sample_collector = Some c'"
      "c_requests c' = [ReadHoldingRegisters 0 3, ReadHoldingRegisters 10 4]" using sample_served by blast
    from scan_atomic [OF c(1)] c e show ?thesis by (auto simp: sample_device_def split: if_splits)
  qed
  obtain c' where c: "scanOnce int (Some cut_device) [''HoldingReg''] sample_collector = Some c'"
    "c_requests c' = [ReadHoldingRegisters 0 3, ReadHoldingRegisters 10 4]" using sample_cut by blast
  have "\<not> (\<forall>i<length (c_requests c'). \<exists>raw. cut_device i (c_requests c' ! i) = Inr raw)"
    using c(2) by (auto simp: cut_device_def intro!: exI [of _ 1])
  with scan_atomic [OF c(1)] c e show "\<exists>c'. scanOnce int (Some cut_device) [''HoldingReg''] sample_collector = Some c' \<and>
      c_requests c' = [ReadHoldingRegisters 0 3, ReadHoldingRegisters 10 4] \<and>
      c_completed c' = [] \<and> c_reconnects c' = 1 \<and> c_scanValues c' = None"
    by auto
qed

theorem scan_feed_matches_store_witness:
  "\<exists>c' b c. scanOnce int (Some sample_device) [''HoldingReg''] sample_collector = Some c' \<and>
     c_published c' = [(''a'', \<lparr>v_Value = VFloat64 (f64_of_int 7), v_UpdatedAt = 0\<rparr>), (''b'', b), (''c'', c)] \<and>
     c_udm c' = udm_run udm_New (map (\<lambda>(tag, val). (tag, v_Value val, v_UpdatedAt val)) (c_published c'))"
proof -
  obtain c' b c where c: "scanOnce int (Some sample_device) [''HoldingReg''] sample_collector = Some c'"
    "c_published c' = [(''a'', \<lparr>v_Value = VFloat64 (f64_of_int 7), v_UpdatedAt = 0\<rparr>), (''b'', b), (''c'', c)]"
    using sample_served by blast
  from scan_feed_matches_store [OF c(1)] c show ?thesis by (simp add: sample_collector_def)
qed

text \<open>A device that acknowledges a write to a writeable holding register.\<close>

definition sample_writeable :: Collector where
  "sample_writeable = sample_collector\<lparr>c_chunks := [''HoldingReg'' \<mapsto>
     [\<lparr>rc_StartAddr = 7, rc_Quantity = 1,
       rc_Points = [(sample_point ''w'' 7 ''UInt16'')\<lparr>pc_Writeable := True\<rparr>]\<rparr>]]\<rparr>"

lemma sample_write:
  "WriteTag (Some (\<lambda>_ _. Inr [])) [''HoldingReg''] ''w'' (VInt 5) sample_writeable =
     (Inr (), sample_writeable\<lparr>c_requests := [WriteSingleRegister 7 5]\<rparr>)"
  by (simp add: WriteTag_def findPoint_def chunks_in_order_def sample_writeable_def sample_point_def
      send_def sample_collector_def)

theorem WriteTag_safe_witness:
  "\<exists>pt. findPoint (c_chunks sample_writeable) [''HoldingReg''] ''w'' = Some pt \<and>
     pc_Writeable pt \<and> write_request pt (VInt 5) = Some (WriteSingleRegister 7 5)"
proof -
  have e: "c_requests sample_writeable = []" by (simp add: sample_writeable_def sample_collector_def)
  from WriteTag_safe [OF sample_write] obtain pt rq where
    "findPoint (c_chunks sample_writeable) [''HoldingReg''] ''w'' = Some pt" "pc_Writeable pt"
    "write_request pt (VInt 5) = Some rq"
    "sample_writeable\<lparr>c_requests := [WriteSingleRegister 7 5]\<rparr> =
       sample_writeable\<lparr>c_requests := c_requests sample_writeable @ [rq]\<rparr>"
    by auto
  moreover from this(4) have "c_requests (sample_writeable\<lparr>c_requests := [WriteSingleRegister 7 5]\<rparr>) =
      c_requests (sample_writeable\<lparr>c_requests := c_requests sample_writeable @ [rq]\<rparr>)"
    by (rule arg_cong)
  ultimately show ?thesis by (simp add: e)
qed

end
