(* ===== verification/MessageQueue.thy ===== *)
theory MessageQueue
  imports Udm "HOL-Library.AList"
begin

text \<open>
  \<open>internal/kafkapub/queue.go\<close>: the bounded outbound queue, a ring buffer that drops its oldest
  message on overflow. A Go map of point values is an association list in the order Go happens
  to range over it. The interface \<open>bounded_queue\<close> is what the coordinator relies on, stated over
  the abstract contents; the ring buffer discharges it. Every operation runs under the queue's
  lock and is one step; the one place where the consumer waits outside the lock, the wake-up
  channel of \<open>next\<close>, is modelled as a step relation between a producer and the consumer.
\<close>

type_synonym gomap = "(string \<times> anyval) list"

record DeviceIdentity =
  di_ID :: int
  di_Name :: string

record Message =
  m_SchemaVersion :: int
  m_Type :: string
  m_Device :: DeviceIdentity
  m_CollectedAt :: instant
  m_Points :: gomap
  m_Topic :: string

definition zero_message :: Message where
  "zero_message = \<lparr>m_SchemaVersion = 0, m_Type = [], m_Device = \<lparr>di_ID = 0, di_Name = []\<rparr>,
     m_CollectedAt = 0, m_Points = [], m_Topic = []\<rparr>"

text \<open>\<open>mq_wake\<close> says whether the one-place wake-up channel holds a token.\<close>

record messageQueue =
  mq_items :: "Message list"
  mq_head :: nat
  mq_size :: nat
  mq_accepting :: bool
  mq_wake :: bool
  mq_dropped :: u64

definition newMessageQueue :: "int \<Rightarrow> messageQueue" where
  "newMessageQueue capacity =
     (let capacity = (if capacity < 1 then 1 else capacity)
      in \<lparr>mq_items = replicate (nat capacity) zero_message, mq_head = 0, mq_size = 0,
          mq_accepting = True, mq_wake = False, mq_dropped = 0\<rparr>)"

definition mq_push :: "Message \<Rightarrow> messageQueue \<Rightarrow> (u64 \<times> bool) \<times> messageQueue" where
  "mq_push message q =
     (if \<not> mq_accepting q then ((mq_dropped q, False), q)
      else
        let n = length (mq_items q);
            didDrop = (mq_size q = n);
            q1 = (if didDrop then
                    q\<lparr>mq_items := (mq_items q)[mq_head q := message],
                      mq_head := (mq_head q + 1) mod n, mq_dropped := mq_dropped q + 1\<rparr>
                  else
                    q\<lparr>mq_items := (mq_items q)[(mq_head q + mq_size q) mod n := message],
                      mq_size := mq_size q + 1\<rparr>);
            q2 = q1\<lparr>mq_wake := True\<rparr>
        in ((mq_dropped q2, didDrop), q2))"

text \<open>The critical section of \<open>next\<close>: the oldest message, or \<open>None\<close> when the queue is empty.\<close>

definition mq_take :: "messageQueue \<Rightarrow> (Message \<times> messageQueue) option" where
  "mq_take q =
     (if 0 < mq_size q then
        Some (mq_items q ! mq_head q,
          q\<lparr>mq_items := (mq_items q)[mq_head q := zero_message],
            mq_head := (mq_head q + 1) mod length (mq_items q), mq_size := mq_size q - 1\<rparr>)
      else None)"

definition mq_stopAccepting :: "messageQueue \<Rightarrow> messageQueue" where
  "mq_stopAccepting q = q\<lparr>mq_accepting := False\<rparr>"

definition mq_discardAll :: "messageQueue \<Rightarrow> messageQueue" where
  "mq_discardAll q = q\<lparr>mq_items := map (\<lambda>_. zero_message) (mq_items q), mq_head := 0, mq_size := 0\<rparr>"

definition mq_droppedCount :: "messageQueue \<Rightarrow> u64" where
  "mq_droppedCount q = mq_dropped q"

section \<open>The interface\<close>

text \<open>
  A bounded queue that drops its oldest element: what its client relies on, over the abstract
  contents (oldest first).
\<close>

locale bounded_queue =
  fixes push :: "'m \<Rightarrow> 'q \<Rightarrow> (u64 \<times> bool) \<times> 'q"
    and take1 :: "'q \<Rightarrow> ('m \<times> 'q) option"
    and wf :: "'q \<Rightarrow> bool"
    and contents :: "'q \<Rightarrow> 'm list"
    and capacity :: "'q \<Rightarrow> nat"
    and accepting :: "'q \<Rightarrow> bool"
    and dropped :: "'q \<Rightarrow> u64"
  assumes bounded: "wf q \<Longrightarrow> length (contents q) \<le> capacity q \<and> 0 < capacity q"
    and push_wf: "wf q \<Longrightarrow> wf (snd (push m q)) \<and> capacity (snd (push m q)) = capacity q \<and>
      accepting (snd (push m q)) = accepting q"
    and push_refused: "\<not> accepting q \<Longrightarrow> snd (push m q) = q"
    and push_room: "wf q \<Longrightarrow> accepting q \<Longrightarrow> length (contents q) < capacity q \<Longrightarrow>
      contents (snd (push m q)) = contents q @ [m] \<and> dropped (snd (push m q)) = dropped q"
    and push_full: "wf q \<Longrightarrow> accepting q \<Longrightarrow> length (contents q) = capacity q \<Longrightarrow>
      contents (snd (push m q)) = tl (contents q) @ [m] \<and> dropped (snd (push m q)) = dropped q + 1"
    and take_empty: "wf q \<Longrightarrow> contents q = [] \<Longrightarrow> take1 q = None"
    and take_oldest: "wf q \<Longrightarrow> contents q = m # ms \<Longrightarrow>
      \<exists>q'. take1 q = Some (m, q') \<and> wf q' \<and> contents q' = ms \<and> capacity q' = capacity q \<and>
        accepting q' = accepting q \<and> dropped q' = dropped q"
begin

definition push_all :: "'m list \<Rightarrow> 'q \<Rightarrow> 'q" where
  "push_all ms q = foldl (\<lambda>q m. snd (push m q)) q ms"

lemma push_all_wf:
  "wf q \<Longrightarrow> wf (push_all ms q) \<and> capacity (push_all ms q) = capacity q \<and>
     accepting (push_all ms q) = accepting q"
  unfolding push_all_def by (induction ms arbitrary: q) (auto simp: push_wf)

text \<open>One push: append, dropping the oldest when full.\<close>

lemma push_contents:
  assumes "wf q" "accepting q"
  shows "contents (snd (push m q)) =
    (if length (contents q) < capacity q then contents q else tl (contents q)) @ [m]"
  using push_room [OF assms] push_full [OF assms] bounded [OF assms(1)]
  by (metis le_neq_implies_less)

text \<open>Overflow keeps the newest messages, in order, and counts every loss.\<close>

lemma push_all_newest:
  assumes "wf q" "accepting q"
  shows "contents (push_all ms q) =
      drop (length (contents q) + length ms - capacity q) (contents q @ ms) \<and>
    dropped (push_all ms q) = dropped q + of_nat (length (contents q) + length ms - capacity q)"
proof (induction ms rule: rev_induct)
  case Nil
  then show ?case using bounded [OF assms(1)] by (simp add: push_all_def)
next
  case (snoc m ms)
  let ?p = "push_all ms q"
  have p: "wf ?p" "accepting ?p" "capacity ?p = capacity q"
    using push_all_wf assms by auto
  have step: "push_all (ms @ [m]) q = snd (push m ?p)"
    by (simp add: push_all_def)
  show ?case
  proof (cases "length (contents q) + length ms < capacity q")
    case True
    then have "contents ?p = contents q @ ms" "dropped ?p = dropped q" using snoc by simp_all
    then show ?thesis using push_room [OF p(1,2), of m] True p(3) by (simp add: step)
  next
    case False
    then obtain k where k: "length (contents q) + length ms = capacity q + k"
      by (metis le_Suc_ex not_less)
    have "length (contents ?p) = capacity ?p"
      using snoc k p(3) by simp
    from push_full [OF p(1,2) this, of m]
    have full: "contents (snd (push m ?p)) = tl (contents ?p) @ [m]"
        "dropped (snd (push m ?p)) = dropped ?p + 1" by simp_all
    have "tl (drop k xs) @ [m] = drop (Suc k) (xs @ [m])" if "k < length xs" for xs :: "'m list"
      using that by (simp add: drop_Suc tl_drop)
    moreover have "k < length (contents q @ ms)" using k bounded [OF assms(1)] by simp
    moreover have "contents ?p = drop k (contents q @ ms)" "dropped ?p = dropped q + of_nat k"
      using snoc k by simp_all
    moreover have "length (contents q) + length (ms @ [m]) - capacity q = Suc k" using k by simp
    ultimately show ?thesis
      by (simp only: step full append_assoc) simp
  qed
qed

end

section \<open>The ring buffer implements it\<close>

definition mq_capacity :: "messageQueue \<Rightarrow> nat" where
  "mq_capacity q = length (mq_items q)"

definition mq_contents :: "messageQueue \<Rightarrow> Message list" where
  "mq_contents q = map (\<lambda>i. mq_items q ! ((mq_head q + i) mod length (mq_items q))) [0 ..< mq_size q]"

definition mq_wf :: "messageQueue \<Rightarrow> bool" where
  "mq_wf q \<longleftrightarrow> mq_head q < length (mq_items q) \<and> mq_size q \<le> length (mq_items q)"

lemma length_mq_contents [simp]: "length (mq_contents q) = mq_size q"
  by (simp add: mq_contents_def)

lemma mod_add_cancel_less:
  fixes h i j n :: nat
  assumes "i < n" "j < n" "(h + i) mod n = (h + j) mod n"
  shows "i = j"
proof -
  have "i = j" if le: "i \<le> j" and less: "j < n" and eq: "(h + j) mod n = (h + i) mod n" for i j
  proof -
    have "n dvd (h + j) - (h + i)" using le eq by (simp add: mod_eq_dvd_iff_nat)
    then have dvd: "n dvd j - i" by simp
    have "\<not> 0 < j - i" using dvd_imp_le [OF dvd] less by linarith
    then show "i = j" using le by simp
  qed
  from this [of i j] this [of j i] show ?thesis using assms by (cases "i \<le> j") auto
qed

lemma mq_push_room:
  assumes "mq_wf q" "mq_accepting q" "mq_size q < length (mq_items q)"
  shows "mq_contents (snd (mq_push m q)) = mq_contents q @ [m]"
proof -
  let ?n = "length (mq_items q)"
  have "(mq_items q)[(mq_head q + mq_size q) mod ?n := m] ! ((mq_head q + i) mod ?n) =
      mq_items q ! ((mq_head q + i) mod ?n)" if "i < mq_size q" for i
    using mod_add_cancel_less [of i ?n "mq_size q" "mq_head q"] that assms(3)
    by (intro nth_list_update_neq) auto
  moreover have "(mq_head q + mq_size q) mod ?n < ?n" using assms(3) by (intro mod_less_divisor) linarith
  ultimately show ?thesis
    using assms by (simp add: mq_push_def Let_def mq_contents_def)
qed

lemma mq_push_full:
  assumes "mq_wf q" "mq_accepting q" "mq_size q = length (mq_items q)"
  shows "mq_contents (snd (mq_push m q)) = tl (mq_contents q) @ [m]"
proof -
  let ?n = "length (mq_items q)" and ?h = "mq_head q"
  from assms obtain k where n: "?n = Suc k" by (cases ?n) (auto simp: mq_wf_def)
  have h: "?h < ?n" using assms by (simp add: mq_wf_def)
  have shift: "(Suc ?h mod ?n + i) mod ?n = (?h + Suc i) mod ?n" for i
    by (simp add: mod_simps)
  have keep: "(mq_items q)[?h := m] ! ((?h + Suc i) mod ?n) = mq_items q ! ((?h + Suc i) mod ?n)"
    if "i < k" for i
    using mod_add_cancel_less [of "Suc i" ?n 0 ?h] that n h by (intro nth_list_update_neq) auto
  have last: "(?h + Suc k) mod ?n = ?h" using h unfolding n [symmetric] by simp
  have upt: "[0 ..< Suc k] = 0 # map Suc [0 ..< k]" by (simp add: upt_conv_Cons map_Suc_upt)
  have "mq_contents (snd (mq_push m q)) =
      map (\<lambda>i. (mq_items q)[?h := m] ! ((Suc ?h mod ?n + i) mod ?n)) [0 ..< Suc k]"
    using assms(2,3) n by (simp add: mq_push_def Let_def mq_contents_def)
  also have "\<dots> = map (\<lambda>i. mq_items q ! ((?h + Suc i) mod ?n)) [0 ..< k] @ [m]"
    using keep last h by (simp add: shift)
  also have "map (\<lambda>i. mq_items q ! ((?h + Suc i) mod ?n)) [0 ..< k] = tl (mq_contents q)"
    unfolding mq_contents_def assms(3) n upt by (simp add: comp_def)
  finally show ?thesis .
qed

lemma mq_push_fields:
  assumes "mq_wf q"
  shows "mq_wf (snd (mq_push m q)) \<and> mq_capacity (snd (mq_push m q)) = mq_capacity q \<and>
    mq_accepting (snd (mq_push m q)) = mq_accepting q"
proof -
  have "0 < length (mq_items q)" using assms by (auto simp: mq_wf_def)
  with assms show ?thesis
    by (auto simp: mq_push_def Let_def mq_wf_def mq_capacity_def)
qed

lemma mq_take_oldest:
  assumes "mq_wf q" "mq_contents q = m # ms"
  shows "\<exists>q'. mq_take q = Some (m, q') \<and> mq_wf q' \<and> mq_contents q' = ms \<and>
    mq_capacity q' = mq_capacity q \<and> mq_accepting q' = mq_accepting q \<and> mq_dropped q' = mq_dropped q"
proof -
  let ?n = "length (mq_items q)" and ?h = "mq_head q"
  obtain k where k: "mq_size q = Suc k"
    using assms(2) length_mq_contents [of q] by (cases "mq_size q") auto
  have h: "?h < ?n" and le: "Suc k \<le> ?n" using assms(1) k by (auto simp: mq_wf_def)
  have upt: "[0 ..< Suc k] = 0 # map Suc [0 ..< k]" by (simp add: upt_conv_Cons map_Suc_upt)
  have c: "mq_contents q = mq_items q ! ?h # map (\<lambda>i. mq_items q ! ((?h + Suc i) mod ?n)) [0 ..< k]"
    unfolding mq_contents_def k upt using h by (simp add: comp_def)
  let ?q = "q\<lparr>mq_items := (mq_items q)[?h := zero_message], mq_head := (?h + 1) mod ?n, mq_size := k\<rparr>"
  have keep: "(mq_items q)[?h := zero_message] ! ((?h + Suc i) mod ?n) =
      mq_items q ! ((?h + Suc i) mod ?n)" if "i < k" for i
    using mod_add_cancel_less [of "Suc i" ?n 0 ?h] that le h by (intro nth_list_update_neq) fastforce
  have shift: "((?h + Suc 0) mod ?n + i) mod ?n = (?h + Suc i) mod ?n" for i
    by (simp add: mod_simps)
  have "mq_contents ?q = map (\<lambda>i. mq_items q ! ((?h + Suc i) mod ?n)) [0 ..< k]"
    unfolding mq_contents_def by (simp add: shift keep del: add_Suc_right)
  then have "mq_contents ?q = ms" using assms(2) c by simp
  moreover have "mq_take q = Some (m, ?q)"
    using assms(2) c k by (simp add: mq_take_def)
  moreover have "(?h + 1) mod ?n < ?n" using h by (intro mod_less_divisor) linarith
  then have "mq_wf ?q" using le by (simp add: mq_wf_def)
  ultimately show ?thesis by (auto simp: mq_capacity_def)
qed

interpretation mq: bounded_queue mq_push mq_take mq_wf mq_contents mq_capacity mq_accepting mq_dropped
proof unfold_locales
  fix q m
  assume wf: "mq_wf q"
  show "length (mq_contents q) \<le> mq_capacity q \<and> 0 < mq_capacity q"
    using wf by (auto simp: mq_wf_def mq_capacity_def)
  show "mq_wf (snd (mq_push m q)) \<and> mq_capacity (snd (mq_push m q)) = mq_capacity q \<and>
      mq_accepting (snd (mq_push m q)) = mq_accepting q"
    using wf by (rule mq_push_fields)
  show "mq_contents (snd (mq_push m q)) = mq_contents q @ [m] \<and>
      mq_dropped (snd (mq_push m q)) = mq_dropped q"
    if "mq_accepting q" "length (mq_contents q) < mq_capacity q"
    using mq_push_room [OF wf] that by (simp add: mq_capacity_def mq_push_def Let_def)
  show "mq_contents (snd (mq_push m q)) = tl (mq_contents q) @ [m] \<and>
      mq_dropped (snd (mq_push m q)) = mq_dropped q + 1"
    if "mq_accepting q" "length (mq_contents q) = mq_capacity q"
    using mq_push_full [OF wf] that by (simp add: mq_capacity_def mq_push_def Let_def)
  show "mq_contents q = [] \<Longrightarrow> mq_take q = None"
    using length_mq_contents [of q] by (simp add: mq_take_def)
  show "mq_contents q = m # ms \<Longrightarrow> \<exists>q'. mq_take q = Some (m, q') \<and> mq_wf q' \<and> mq_contents q' = ms \<and>
      mq_capacity q' = mq_capacity q \<and> mq_accepting q' = mq_accepting q \<and> mq_dropped q' = mq_dropped q"
    for ms using wf by (rule mq_take_oldest)
qed (simp add: mq_push_def)

lemma newMessageQueue_wf:
  "mq_wf (newMessageQueue c)" "mq_contents (newMessageQueue c) = []"
  "mq_capacity (newMessageQueue c) = nat (max 1 c)" "mq_accepting (newMessageQueue c)"
  "mq_dropped (newMessageQueue c) = 0"
  by (auto simp: newMessageQueue_def Let_def mq_wf_def mq_contents_def mq_capacity_def)

lemma mq_discardAll_wf:
  "mq_wf q \<Longrightarrow> mq_wf (mq_discardAll q) \<and> mq_contents (mq_discardAll q) = [] \<and>
     mq_capacity (mq_discardAll q) = mq_capacity q"
  by (auto simp: mq_discardAll_def mq_wf_def mq_contents_def mq_capacity_def)

lemma mq_stopAccepting_wf:
  "mq_wf q \<Longrightarrow> mq_wf (mq_stopAccepting q) \<and> mq_contents (mq_stopAccepting q) = mq_contents q \<and>
     mq_capacity (mq_stopAccepting q) = mq_capacity q"
  by (auto simp: mq_stopAccepting_def mq_wf_def mq_contents_def mq_capacity_def)

section \<open>Waiting for a message\<close>

text \<open>
  \<open>next\<close> looks at the queue under the lock and, when it is empty, waits outside the lock for a
  wake-up token or for cancellation. The system is the queue with the producers' operations and
  the one worker that calls \<open>next\<close>; \<open>qs_got\<close> collects what the worker received.
\<close>

datatype consumer = Checking | Waiting | Cancelled

record queue_system =
  qs_queue :: messageQueue
  qs_consumer :: consumer
  qs_done :: bool
  qs_got :: "Message list"

inductive queue_step :: "queue_system \<Rightarrow> queue_system \<Rightarrow> bool" where
  Push: "queue_step s (s\<lparr>qs_queue := snd (mq_push m (qs_queue s))\<rparr>)"
| Stop: "queue_step s (s\<lparr>qs_queue := mq_stopAccepting (qs_queue s)\<rparr>)"
| Discard: "queue_step s (s\<lparr>qs_queue := mq_discardAll (qs_queue s)\<rparr>)"
| Cancel: "queue_step s (s\<lparr>qs_done := True\<rparr>)"
| Take: "qs_consumer s = Checking \<Longrightarrow> mq_take (qs_queue s) = Some (m, q') \<Longrightarrow>
    queue_step s (s\<lparr>qs_queue := q', qs_got := qs_got s @ [m]\<rparr>)"
| Wait: "qs_consumer s = Checking \<Longrightarrow> mq_take (qs_queue s) = None \<Longrightarrow>
    queue_step s (s\<lparr>qs_consumer := Waiting\<rparr>)"
| Wake: "qs_consumer s = Waiting \<Longrightarrow> mq_wake (qs_queue s) \<Longrightarrow>
    queue_step s (s\<lparr>qs_queue := (qs_queue s)\<lparr>mq_wake := False\<rparr>, qs_consumer := Checking\<rparr>)"
| Return: "qs_consumer s = Waiting \<Longrightarrow> qs_done s \<Longrightarrow> queue_step s (s\<lparr>qs_consumer := Cancelled\<rparr>)"

inductive queue_reachable :: "int \<Rightarrow> queue_system \<Rightarrow> bool" for capacity where
  Init: "queue_reachable capacity \<lparr>qs_queue = newMessageQueue capacity, qs_consumer = Checking,
    qs_done = False, qs_got = []\<rparr>"
| Step: "queue_reachable capacity s \<Longrightarrow> queue_step s s' \<Longrightarrow> queue_reachable capacity s'"

text \<open>No wake-up is lost: a waiting worker with messages in the queue always has a token.\<close>

definition queue_inv :: "int \<Rightarrow> queue_system \<Rightarrow> bool" where
  "queue_inv capacity s \<longleftrightarrow> mq_wf (qs_queue s) \<and> mq_capacity (qs_queue s) = nat (max 1 capacity) \<and>
     (qs_consumer s = Waiting \<and> mq_contents (qs_queue s) \<noteq> [] \<longrightarrow> mq_wake (qs_queue s))"

lemma mq_push_wake: "mq_accepting q \<Longrightarrow> mq_wake (snd (mq_push m q))"
  by (simp add: mq_push_def Let_def)

lemma mq_take_wf:
  assumes "mq_wf q" "mq_take q = Some (m, q')"
  shows "mq_wf q' \<and> mq_capacity q' = mq_capacity q"
proof -
  have "0 < length (mq_contents q)"
    using assms(2) by (simp add: mq_take_def split: if_splits)
  then obtain x xs where "mq_contents q = x # xs" by (metis length_greater_0_conv neq_Nil_conv)
  from mq.take_oldest [OF assms(1) this] assms(2) show ?thesis by auto
qed

lemma queue_step_inv:
  assumes "queue_step s s'" "queue_inv capacity s"
  shows "queue_inv capacity s'"
  using assms
proof (cases rule: queue_step.cases)
  case (Push m)
  have wf: "mq_wf (qs_queue s)" using assms(2) by (simp add: queue_inv_def)
  show ?thesis
  proof (cases "mq_accepting (qs_queue s)")
    case True
    then show ?thesis
      using Push mq_push_fields [OF wf, of m] mq_push_wake assms(2) by (simp add: queue_inv_def)
  next
    case False
    then show ?thesis using Push mq.push_refused assms(2) by (simp add: queue_inv_def)
  qed
next
  case Stop
  then show ?thesis
    using mq_stopAccepting_wf assms(2) by (simp add: queue_inv_def) (simp add: mq_stopAccepting_def)
next
  case (Take m q')
  then show ?thesis using mq_take_wf assms(2) by (auto simp: queue_inv_def)
next
  case Wait
  then have "mq_contents (qs_queue s) = []"
    by (simp add: mq_take_def mq_contents_def split: if_splits)
  with Wait assms(2) show ?thesis by (simp add: queue_inv_def)
next
  case Discard
  then show ?thesis using mq_discardAll_wf assms(2) by (simp add: queue_inv_def)
next
  case Wake
  then show ?thesis using assms(2) by (simp add: queue_inv_def mq_wf_def mq_capacity_def)
next
  case Cancel
  then show ?thesis using assms(2) by (simp add: queue_inv_def)
next
  case Return
  then show ?thesis using assms(2) by (simp add: queue_inv_def)
qed

lemma queue_reachable_inv: "queue_reachable capacity s \<Longrightarrow> queue_inv capacity s"
proof (induction rule: queue_reachable.induct)
  case Init
  then show ?case using newMessageQueue_wf [of capacity] by (simp add: queue_inv_def)
next
  case Step
  then show ?case using queue_step_inv by blast
qed

section \<open>Properties\<close>

definition mq_push_list :: "Message list \<Rightarrow> messageQueue \<Rightarrow> messageQueue" where
  "mq_push_list ms q = foldl (\<lambda>q m. snd (mq_push m q)) q ms"

lemma mq_push_list_mq: "mq_push_list = mq.push_all"
  by (intro ext) (simp add: mq_push_list_def mq.push_all_def)

text \<open>
  C22: the outbound queue never exceeds its capacity and never loses a recent message: after any
  number of pushes onto a new queue it holds exactly the newest messages, in order, as many as
  fit, and its drop counter has counted every older one (modulo the 64-bit counter).
\<close>

theorem queue_keeps_newest:
  "mq_contents (mq_push_list ms (newMessageQueue capacity)) =
      drop (length ms - nat (max 1 capacity)) ms \<and>
   mq_droppedCount (mq_push_list ms (newMessageQueue capacity)) =
      of_nat (length ms - nat (max 1 capacity))"
  using mq.push_all_newest [OF newMessageQueue_wf(1,4) [of capacity], of ms]
  by (simp add: mq_push_list_mq newMessageQueue_wf mq_droppedCount_def)

text \<open>
  C33: no interleaving of producers, shutdown, discarding and the worker loses a wake-up: in
  every reachable state of the queue and its worker, if the worker is waiting while a message
  is queued, then its wake-up token is there, it can take the next step, and the message it
  then receives is the oldest one.
\<close>

theorem queue_no_lost_wakeup:
  assumes "queue_reachable capacity s" and "qs_consumer s = Waiting"
    and "mq_contents (qs_queue s) = m # ms"
  shows "\<exists>s1 s2. queue_step s s1 \<and> queue_step s1 s2 \<and> qs_got s2 = qs_got s @ [m] \<and>
    mq_contents (qs_queue s2) = ms"
proof -
  have inv: "queue_inv capacity s" using assms(1) by (rule queue_reachable_inv)
  then have w: "mq_wake (qs_queue s)" using assms by (simp add: queue_inv_def)
  let ?q = "(qs_queue s)\<lparr>mq_wake := False\<rparr>"
  let ?s1 = "s\<lparr>qs_queue := ?q, qs_consumer := Checking\<rparr>"
  have "mq_wf ?q" "mq_contents ?q = m # ms"
    using inv assms(3) by (simp_all add: queue_inv_def mq_wf_def mq_contents_def)
  from mq_take_oldest [OF this] obtain q' where
    t: "mq_take ?q = Some (m, q')" "mq_contents q' = ms" by blast
  have "queue_step s ?s1" using assms(2) w by (rule queue_step.Wake)
  moreover have "queue_step ?s1 (?s1\<lparr>qs_queue := q', qs_got := qs_got ?s1 @ [m]\<rparr>)"
    using t(1) by (intro queue_step.Take) simp_all
  ultimately show ?thesis using t(2) by (intro exI conjI) (assumption | simp)+
qed

theorem queue_no_lost_wakeup_witness:
  "\<exists>s. queue_reachable 1 s \<and> qs_consumer s = Waiting \<and> mq_contents (qs_queue s) = [zero_message] \<and>
     (\<exists>s1 s2. queue_step s s1 \<and> queue_step s1 s2 \<and> qs_got s2 = qs_got s @ [zero_message])"
proof -
  let ?q = "newMessageQueue 1"
  let ?s0 = "\<lparr>qs_queue = ?q, qs_consumer = Checking, qs_done = False, qs_got = []\<rparr>"
  let ?s1 = "?s0\<lparr>qs_consumer := Waiting\<rparr>"
  let ?s2 = "?s1\<lparr>qs_queue := snd (mq_push zero_message (qs_queue ?s1))\<rparr>"
  have "queue_step ?s0 ?s1"
    by (rule queue_step.Wait) (simp_all add: mq_take_def newMessageQueue_def)
  moreover have "queue_step ?s1 ?s2" by (rule queue_step.Push)
  ultimately have r: "queue_reachable 1 ?s2"
    using queue_reachable.Init [of 1] by (meson queue_reachable.Step)
  have c: "mq_contents (qs_queue ?s2) = [zero_message]"
    by (simp add: mq_contents_def mq_push_def newMessageQueue_def Let_def)
  have w: "qs_consumer ?s2 = Waiting" by simp
  from queue_no_lost_wakeup [OF r w c] r w c show ?thesis by blast
qed

end
