(* ===== verification/Coordinator.thy ===== *)
theory Coordinator
  imports MessageQueue
begin

text \<open>
  \<open>internal/kafkapub/coordinator.go\<close>: the per-device publishing policies and the state behind
  them. Go's pointer to a \<open>deviceState\<close> is the entry of the state map, written back after every
  change; the injected clock is the argument \<open>now\<close> (its \<open>n\<close>-th reading), and the calls of
  \<open>onDrop\<close> are recorded in the state with the instant of the warning. Every operation holds the
  coordinator's lock, so each is one step. The queue is used through the \<open>bounded_queue\<close> laws.
\<close>

record ScanSnapshot =
  ss_DeviceID :: int
  ss_DeviceName :: string
  ss_CollectedAt :: instant
  ss_SuccessfulValues :: gomap
  ss_CurrentValues :: gomap

record deviceState =
  ds_lastValues :: gomap
  ds_lastFullQueuedAt :: instant

record Coordinator =
  co_configs :: "int \<rightharpoonup> DeviceKafkaConfig"
  co_states :: "int \<rightharpoonup> deviceState"
  co_ticks :: nat
  co_queue :: messageQueue
  co_onDrop :: bool
  co_lastWarn :: instant
  co_enabled :: bool
  co_warnings :: "(instant \<times> u64) list"

definition NewCoordinator :: "int \<Rightarrow> bool \<Rightarrow> Coordinator" where
  "NewCoordinator capacity onDrop =
     \<lparr>co_configs = Map.empty, co_states = Map.empty, co_ticks = 0,
      co_queue = newMessageQueue capacity, co_onDrop = onDrop, co_lastWarn = 0,
      co_enabled = True, co_warnings = []\<rparr>"

definition ApplyDeviceConfig :: "DeviceKafkaConfig \<Rightarrow> Coordinator \<Rightarrow> Coordinator" where
  "ApplyDeviceConfig cfg c =
     (let previous = co_configs c (dk_DeviceID cfg);
          c1 = c\<lparr>co_configs := (co_configs c)(dk_DeviceID cfg \<mapsto> cfg)\<rparr>
      in if \<not> dk_Enabled cfg \<or>
           (case previous of
              None \<Rightarrow> True
            | Some p \<Rightarrow> \<not> dk_Enabled p \<or> dk_Topic p \<noteq> dk_Topic cfg \<or> dk_Mode p \<noteq> dk_Mode cfg)
         then c1\<lparr>co_states := (co_states c1)(dk_DeviceID cfg := None)\<rparr>
         else c1)"

definition ResetDevice :: "int \<Rightarrow> Coordinator \<Rightarrow> Coordinator" where
  "ResetDevice deviceID c = c\<lparr>co_states := (co_states c)(deviceID := None)\<rparr>"

definition cloneValues :: "gomap \<Rightarrow> gomap" where
  "cloneValues values = foldl (\<lambda>result (key, value). AList.update key value result) [] values"

definition minute :: int where
  "minute = 60 * second"

text \<open>The overflow report at the end of \<open>enqueue\<close>: at most one call of \<open>onDrop\<close> a minute.\<close>

definition report_drop :: "(nat \<Rightarrow> instant) \<Rightarrow> u64 \<Rightarrow> bool \<Rightarrow> Coordinator \<Rightarrow> Coordinator" where
  "report_drop now n dropped c =
     (if dropped \<and> co_onDrop c then
        let t = now (co_ticks c); c1 = c\<lparr>co_ticks := co_ticks c + 1\<rparr>
        in if co_lastWarn c1 = 0 \<or> time_Sub t (co_lastWarn c1) \<ge> minute
           then c1\<lparr>co_lastWarn := t, co_warnings := co_warnings c1 @ [(t, n)]\<rparr>
           else c1
      else c)"

definition enqueue :: "(nat \<Rightarrow> instant) \<Rightarrow> DeviceKafkaConfig \<Rightarrow> ScanSnapshot \<Rightarrow> string \<Rightarrow> gomap \<Rightarrow>
    Coordinator \<Rightarrow> Coordinator" where
  "enqueue now cfg snapshot messageType points c =
     (let zero = (ss_CollectedAt snapshot = 0);
          collectedAt = (if zero then now (co_ticks c) else ss_CollectedAt snapshot);
          c1 = (if zero then c\<lparr>co_ticks := co_ticks c + 1\<rparr> else c);
          message = \<lparr>m_SchemaVersion = 1, m_Type = messageType,
            m_Device = \<lparr>di_ID = ss_DeviceID snapshot, di_Name = ss_DeviceName snapshot\<rparr>,
            m_CollectedAt = collectedAt, m_Points = cloneValues points, m_Topic = dk_Topic cfg\<rparr>;
          totalDropped = fst (fst (mq_push message (co_queue c1)));
          dropped = snd (fst (mq_push message (co_queue c1)));
          c2 = c1\<lparr>co_queue := snd (mq_push message (co_queue c1))\<rparr>
      in report_drop now totalDropped dropped c2)"

definition scan_changes :: "gomap \<Rightarrow> gomap \<Rightarrow> gomap \<times> gomap" where
  "scan_changes lastValues successful =
     foldl (\<lambda>(changes, lastV) (tag, value).
        ((case map_of lastV tag of
            Some previous \<Rightarrow>
              (if \<not> deep_equal previous value then AList.update tag value changes else changes)
          | None \<Rightarrow> AList.update tag value changes),
         AList.update tag value lastV))
       ([], lastValues) successful"

definition submitChanges :: "(nat \<Rightarrow> instant) \<Rightarrow> DeviceKafkaConfig \<Rightarrow> deviceState \<Rightarrow> ScanSnapshot \<Rightarrow>
    Coordinator \<Rightarrow> Coordinator" where
  "submitChanges now cfg state snapshot c =
     (if ds_lastValues state = [] then
        c\<lparr>co_states := (co_states c)(ss_DeviceID snapshot \<mapsto>
          state\<lparr>ds_lastValues := foldl (\<lambda>m (tag, value). AList.update tag value m)
            (ds_lastValues state) (ss_SuccessfulValues snapshot)\<rparr>)\<rparr>
      else
        let (changes, lastV) = scan_changes (ds_lastValues state) (ss_SuccessfulValues snapshot);
            c1 = c\<lparr>co_states := (co_states c)(ss_DeviceID snapshot \<mapsto>
              state\<lparr>ds_lastValues := lastV\<rparr>)\<rparr>
        in if changes \<noteq> [] then enqueue now cfg snapshot KafkaModeChange changes c1 else c1)"

definition submitFull :: "(nat \<Rightarrow> instant) \<Rightarrow> DeviceKafkaConfig \<Rightarrow> deviceState \<Rightarrow> ScanSnapshot \<Rightarrow>
    Coordinator \<Rightarrow> Coordinator" where
  "submitFull now cfg state snapshot c =
     (let t = now (co_ticks c); c1 = c\<lparr>co_ticks := co_ticks c + 1\<rparr> in
      if ds_lastFullQueuedAt state \<noteq> 0 \<and>
         time_Sub t (ds_lastFullQueuedAt state) < wrap64 (dk_FullIntervalSec cfg * second) then c1
      else if ss_CurrentValues snapshot = [] then c1
      else
        let c2 = enqueue now cfg snapshot KafkaModeFull (ss_CurrentValues snapshot) c1
        in c2\<lparr>co_states := (co_states c2)(ss_DeviceID snapshot \<mapsto>
             state\<lparr>ds_lastFullQueuedAt := t\<rparr>)\<rparr>)"

definition Submit :: "(nat \<Rightarrow> instant) \<Rightarrow> ScanSnapshot \<Rightarrow> Coordinator \<Rightarrow> Coordinator" where
  "Submit now snapshot c =
     (if \<not> co_enabled c then c
      else
        case co_configs c (ss_DeviceID snapshot) of
          None \<Rightarrow> c
        | Some cfg \<Rightarrow>
            if \<not> dk_Enabled cfg then c
            else
              let (state, c1) =
                (case co_states c (ss_DeviceID snapshot) of
                   None \<Rightarrow>
                     let state = \<lparr>ds_lastValues = [], ds_lastFullQueuedAt = 0\<rparr>
                     in (state, c\<lparr>co_states := (co_states c)(ss_DeviceID snapshot \<mapsto> state)\<rparr>)
                 | Some state \<Rightarrow> (state, c))
              in if dk_Mode cfg = KafkaModeChange then submitChanges now cfg state snapshot c1
                 else submitFull now cfg state snapshot c1)"

definition co_Next :: "Coordinator \<Rightarrow> (Message \<times> Coordinator) option" where
  "co_Next c = map_option (\<lambda>(m, q). (m, c\<lparr>co_queue := q\<rparr>)) (mq_take (co_queue c))"

definition StopAccepting :: "Coordinator \<Rightarrow> Coordinator" where
  "StopAccepting c = c\<lparr>co_queue := mq_stopAccepting (co_queue c)\<rparr>"

definition Dropped :: "Coordinator \<Rightarrow> u64" where
  "Dropped c = mq_droppedCount (co_queue c)"

definition co_SetEnabled :: "bool \<Rightarrow> Coordinator \<Rightarrow> Coordinator" where
  "co_SetEnabled enabled c =
     (let c1 = c\<lparr>co_enabled := enabled\<rparr>
      in if \<not> enabled then c1\<lparr>co_queue := mq_discardAll (co_queue c1)\<rparr> else c1)"

section \<open>Go maps as association lists\<close>

lemma foldl_update_map_of:
  "map_of (foldl (\<lambda>m (tag, value). AList.update tag value m) al kvs) = map_of al ++ map_of (rev kvs)"
proof (induction kvs arbitrary: al)
  case (Cons kv kvs)
  obtain t v where kv: "kv = (t, v)" by (cases kv)
  have "map_of (foldl (\<lambda>m (tag, value). AList.update tag value m) al (kv # kvs)) =
      (map_of al)(t \<mapsto> v) ++ map_of (rev kvs)"
    by (simp add: kv Cons.IH update_conv' fun_upd_def)
  also have "\<dots> = map_of al ++ map_of (rev (kv # kvs))"
    by (rule ext) (simp add: kv map_add_def split: option.split)
  finally show ?case .
qed simp

lemma map_of_rev_distinct: "distinct (map fst al) \<Longrightarrow> map_of (rev al) = map_of al"
  by (rule map_of_eqI) (auto simp: rev_map [symmetric])

lemma map_of_cloneValues: "distinct (map fst vs) \<Longrightarrow> map_of (cloneValues vs) = map_of vs"
  by (simp add: cloneValues_def foldl_update_map_of map_of_rev_distinct)

text \<open>The tags a scan changed, against the values last seen.\<close>

definition changed :: "gomap \<Rightarrow> gomap \<Rightarrow> string \<Rightarrow> bool" where
  "changed lastV successful tag \<longleftrightarrow>
     (\<exists>v. map_of successful tag = Some v \<and>
        (case map_of lastV tag of None \<Rightarrow> True | Some p \<Rightarrow> \<not> deep_equal p v))"

lemma scan_changes_foldl:
  assumes "distinct (map fst successful)"
  shows "foldl (\<lambda>(changes, lastV) (tag, value).
        ((case map_of lastV tag of
            Some previous \<Rightarrow>
              (if \<not> deep_equal previous value then AList.update tag value changes else changes)
          | None \<Rightarrow> AList.update tag value changes),
         AList.update tag value lastV)) (ch, lastV) successful = (ch', lastV') \<Longrightarrow>
    map_of lastV' = map_of lastV ++ map_of successful \<and>
    map_of ch' = map_of ch ++ (map_of successful |` {t. changed lastV successful t}) \<and>
    (distinct (map fst ch) \<longrightarrow> distinct (map fst ch'))"
  using assms
proof (induction successful arbitrary: ch lastV)
  case Nil
  then show ?case by (simp add: map_add_def restrict_map_def fun_eq_iff)
next
  case (Cons kv kvs)
  obtain t v where kv: "kv = (t, v)" by (cases kv)
  have nt: "t \<notin> fst ` set kvs" "distinct (map fst kvs)" using Cons.prems(2) by (auto simp: kv)
  have fresh: "map_of kvs t = None" using nt by (simp add: map_of_eq_None_iff)
  define c where "c \<longleftrightarrow> (case map_of lastV t of None \<Rightarrow> True | Some p \<Rightarrow> \<not> deep_equal p v)"
  let ?ch = "if c then AList.update t v ch else ch"
  have step: "(case map_of lastV t of
        Some previous \<Rightarrow> (if \<not> deep_equal previous v then AList.update t v ch else ch)
      | None \<Rightarrow> AList.update t v ch) = ?ch"
    by (auto simp: c_def split: option.splits)
  have IH: "map_of lastV' = map_of (AList.update t v lastV) ++ map_of kvs \<and>
      map_of ch' = map_of ?ch ++ (map_of kvs |` {x. changed (AList.update t v lastV) kvs x}) \<and>
      (distinct (map fst ?ch) \<longrightarrow> distinct (map fst ch'))"
    using Cons.prems(1) by (intro Cons.IH nt) (simp add: kv step)
  have 1: "map_of (AList.update t v lastV) ++ map_of kvs = map_of lastV ++ map_of (kv # kvs)"
    by (rule ext) (use fresh in \<open>simp add: update_conv' kv map_add_def split: option.split\<close>)
  have same: "changed (AList.update t v lastV) kvs x \<longleftrightarrow> x \<noteq> t \<and> changed lastV (kv # kvs) x" for x
    using fresh by (simp add: changed_def update_conv' kv)
  have ct: "changed lastV (kv # kvs) t \<longleftrightarrow> c" by (simp add: changed_def kv c_def)
  have 2: "map_of ?ch ++ (map_of kvs |` {x. changed (AList.update t v lastV) kvs x}) =
      map_of ch ++ (map_of (kv # kvs) |` {x. changed lastV (kv # kvs) x})"
  proof (rule ext)
    fix x
    show "(map_of ?ch ++ (map_of kvs |` {x. changed (AList.update t v lastV) kvs x})) x =
      (map_of ch ++ (map_of (kv # kvs) |` {x. changed lastV (kv # kvs) x})) x"
    proof (cases "x = t")
      case True
      then show ?thesis using ct by (simp add: same map_add_def restrict_map_def update_conv' kv)
    next
      case False
      then have "map_of ?ch x = map_of ch x" by (simp add: update_conv')
      with False show ?thesis by (simp add: same map_add_def restrict_map_def kv update_conv' split: option.split)
    qed
  qed
  have 3: "distinct (map fst ch) \<longrightarrow> distinct (map fst ?ch)"
    by (simp add: distinct_update)
  show ?case using IH 3 unfolding 1 2 by blast
qed

section \<open>Effects on the queue\<close>

definition queued :: "Coordinator \<Rightarrow> Message list" where
  "queued c = mq_contents (co_queue c)"

definition co_wf :: "nat \<Rightarrow> Coordinator \<Rightarrow> bool" where
  "co_wf cap c \<longleftrightarrow> mq_wf (co_queue c) \<and> mq_capacity (co_queue c) = cap"

text \<open>The queue after one more message, when it takes at most \<open>cap\<close>.\<close>

definition push_bounded :: "nat \<Rightarrow> Message list \<Rightarrow> Message \<Rightarrow> Message list" where
  "push_bounded cap ms m = (if length ms < cap then ms else tl ms) @ [m]"

lemma report_drop_fields [simp]:
  "co_queue (report_drop now n dropped c) = co_queue c"
  "co_states (report_drop now n dropped c) = co_states c"
  "co_configs (report_drop now n dropped c) = co_configs c"
  "co_enabled (report_drop now n dropped c) = co_enabled c"
  by (simp_all add: report_drop_def Let_def)

lemma enqueue_queue:
  "\<exists>m. co_queue (enqueue now cfg snap ty pts c) = snd (mq_push m (co_queue c)) \<and> m_Type m = ty \<and>
     m_Topic m = dk_Topic cfg \<and> m_Points m = cloneValues pts \<and>
     di_ID (m_Device m) = ss_DeviceID snap \<and> di_Name (m_Device m) = ss_DeviceName snap \<and>
     (ss_CollectedAt snap \<noteq> 0 \<longrightarrow> m_CollectedAt m = ss_CollectedAt snap)"
  unfolding enqueue_def Let_def
  by (rule exI [of _ "\<lparr>m_SchemaVersion = 1, m_Type = ty,
            m_Device = \<lparr>di_ID = ss_DeviceID snap, di_Name = ss_DeviceName snap\<rparr>,
            m_CollectedAt = (if ss_CollectedAt snap = 0 then now (co_ticks c) else ss_CollectedAt snap),
            m_Points = cloneValues pts, m_Topic = dk_Topic cfg\<rparr>"]) simp

lemma enqueue_fields [simp]:
  "co_states (enqueue now cfg snap ty pts c) = co_states c"
  "co_configs (enqueue now cfg snap ty pts c) = co_configs c"
  "co_enabled (enqueue now cfg snap ty pts c) = co_enabled c"
  by (simp_all add: enqueue_def Let_def)

lemma enqueue_message:
  assumes "co_wf cap c" "mq_accepting (co_queue c)"
  shows "\<exists>m. queued (enqueue now cfg snap ty pts c) = push_bounded cap (queued c) m \<and> m_Type m = ty \<and>
     m_Topic m = dk_Topic cfg \<and> m_Points m = cloneValues pts \<and>
     di_ID (m_Device m) = ss_DeviceID snap \<and> di_Name (m_Device m) = ss_DeviceName snap \<and>
     (ss_CollectedAt snap \<noteq> 0 \<longrightarrow> m_CollectedAt m = ss_CollectedAt snap)"
  using enqueue_queue [of now cfg snap ty pts c] mq.push_contents [of "co_queue c"] assms
  by (auto simp: queued_def push_bounded_def co_wf_def)

lemma enqueue_wf [wf_intros]: "co_wf cap c \<Longrightarrow> co_wf cap (enqueue now cfg snap ty pts c)"
  using enqueue_queue [of now cfg snap ty pts c] mq_push_fields [of "co_queue c"]
  by (auto simp: co_wf_def)

lemma co_wf_frame:
  "co_wf cap (c\<lparr>co_states := st\<rparr>) = co_wf cap c" "co_wf cap (c\<lparr>co_ticks := n\<rparr>) = co_wf cap c"
  "co_wf cap (c\<lparr>co_configs := cf\<rparr>) = co_wf cap c" "co_wf cap (c\<lparr>co_enabled := e\<rparr>) = co_wf cap c"
  by (simp_all add: co_wf_def)

lemma Submit_wf [wf_intros]: "co_wf cap c \<Longrightarrow> co_wf cap (Submit now snap c)"
  by (auto simp: Submit_def submitChanges_def submitFull_def Let_def co_wf_frame split_beta
      intro!: enqueue_wf split: option.splits)

section \<open>Every history of operations\<close>

datatype co_op =
    OpSubmit ScanSnapshot
  | OpApply DeviceKafkaConfig
  | OpReset int
  | OpNext
  | OpStop
  | OpEnable bool

fun co_step :: "(nat \<Rightarrow> instant) \<Rightarrow> co_op \<Rightarrow> Coordinator \<Rightarrow> Coordinator" where
  "co_step now (OpSubmit snap) c = Submit now snap c"
| "co_step now (OpApply cfg) c = ApplyDeviceConfig cfg c"
| "co_step now (OpReset d) c = ResetDevice d c"
| "co_step now OpNext c = (case co_Next c of None \<Rightarrow> c | Some (m, c') \<Rightarrow> c')"
| "co_step now OpStop c = StopAccepting c"
| "co_step now (OpEnable e) c = co_SetEnabled e c"

definition co_run :: "(nat \<Rightarrow> instant) \<Rightarrow> co_op list \<Rightarrow> Coordinator \<Rightarrow> Coordinator" where
  "co_run now ops c = foldl (\<lambda>c op. co_step now op c) c ops"

lemma co_step_wf: "co_wf cap c \<Longrightarrow> co_wf cap (co_step now op c)"
proof (cases op)
  case OpNext
  assume "co_wf cap c"
  then show ?thesis
    using OpNext mq_take_wf [of "co_queue c"]
    by (auto simp: co_Next_def co_wf_def split: option.splits)
qed (auto simp: Submit_wf ApplyDeviceConfig_def ResetDevice_def StopAccepting_def co_SetEnabled_def
    Let_def co_wf_frame, simp_all add: co_wf_def mq_discardAll_wf mq_stopAccepting_wf)

lemma co_run_wf: "co_wf cap c \<Longrightarrow> co_wf cap (co_run now ops c)"
  unfolding co_run_def by (rule foldl_invariant) (auto intro: co_step_wf)

lemma NewCoordinator_wf: "co_wf (nat (max 1 capacity)) (NewCoordinator capacity onDrop)"
  by (simp add: co_wf_def NewCoordinator_def newMessageQueue_wf)

section \<open>The warning rate\<close>

definition warn_inv :: "Coordinator \<Rightarrow> bool" where
  "warn_inv c \<longleftrightarrow>
     (co_warnings c \<noteq> [] \<longrightarrow> co_lastWarn c \<noteq> 0 \<and> fst (last (co_warnings c)) = co_lastWarn c) \<and>
     sorted_wrt (\<lambda>a b. minute \<le> fst b - fst a) (co_warnings c)"

lemma time_Sub_ge: "0 < d \<Longrightarrow> d \<le> time_Sub t u \<Longrightarrow> d \<le> t - u"
  by (auto simp: time_Sub_def)

lemma sorted_wrt_snoc_gap:
  fixes ws :: "(int \<times> 'a) list"
  assumes "sorted_wrt (\<lambda>a b. d \<le> fst b - fst a) ws" "0 \<le> d"
    and "ws \<noteq> [] \<Longrightarrow> d \<le> fst w - fst (last ws)"
  shows "sorted_wrt (\<lambda>a b. d \<le> fst b - fst a) (ws @ [w])"
proof -
  have "d \<le> fst w - fst x" if "x \<in> set ws" for x
  proof -
    from that obtain xs ys where ws: "ws = xs @ x # ys" by (meson split_list)
    show ?thesis
    proof (cases ys rule: rev_cases)
      case Nil
      then show ?thesis using assms(3) by (simp add: ws)
    next
      case (snoc zs z)
      then have "d \<le> fst z - fst x" "d \<le> fst w - fst z"
        using assms(1,3) by (auto simp: ws sorted_wrt_append)
      then show ?thesis using assms(2) by linarith
    qed
  qed
  then show ?thesis using assms(1) by (simp add: sorted_wrt_append)
qed

lemma report_drop_warn_inv:
  assumes "warn_inv c" and nz: "\<And>n. now n \<noteq> 0"
  shows "warn_inv (report_drop now n dropped c)"
proof (cases "dropped \<and> co_onDrop c \<and>
    (co_lastWarn c = 0 \<or> minute \<le> time_Sub (now (co_ticks c)) (co_lastWarn c))")
  case True
  let ?t = "now (co_ticks c)"
  have m: "0 < minute" by (simp add: minute_def second_def)
  have "minute \<le> fst (?t, n) - fst (last (co_warnings c))" if "co_warnings c \<noteq> []"
    using that assms(1) True time_Sub_ge [OF m] by (auto simp: warn_inv_def)
  then have "sorted_wrt (\<lambda>a b. minute \<le> fst b - fst a) (co_warnings c @ [(?t, n)])"
    using assms(1) m by (intro sorted_wrt_snoc_gap) (auto simp: warn_inv_def)
  with True nz show ?thesis by (simp add: report_drop_def Let_def warn_inv_def)
next
  case False
  with assms(1) show ?thesis by (auto simp: report_drop_def Let_def warn_inv_def)
qed

lemma warn_inv_frame:
  "warn_inv (c\<lparr>co_states := st\<rparr>) = warn_inv c" "warn_inv (c\<lparr>co_ticks := n\<rparr>) = warn_inv c"
  "warn_inv (c\<lparr>co_configs := cf\<rparr>) = warn_inv c" "warn_inv (c\<lparr>co_enabled := e\<rparr>) = warn_inv c"
  "warn_inv (c\<lparr>co_queue := q\<rparr>) = warn_inv c"
  by (simp_all add: warn_inv_def)

lemma enqueue_warn_inv:
  assumes "warn_inv c" and "\<And>n. now n \<noteq> 0"
  shows "warn_inv (enqueue now cfg snap ty pts c)"
  unfolding enqueue_def Let_def
  by (rule report_drop_warn_inv [OF _ assms(2)]) (simp add: warn_inv_frame assms(1))

lemma co_step_warn_inv:
  assumes "warn_inv c" and "\<And>n. now n \<noteq> 0"
  shows "warn_inv (co_step now op c)"
  using assms
  by (cases op) (auto simp: Submit_def submitChanges_def submitFull_def Let_def split_beta
      ApplyDeviceConfig_def ResetDevice_def StopAccepting_def co_SetEnabled_def co_Next_def
      warn_inv_frame intro!: enqueue_warn_inv split: option.splits)

section \<open>Properties\<close>

text \<open>
  Whatever the order of submissions, reconfigurations, consumer reads, shutdown and global
  switches, the outbound queue of a coordinator never holds more messages than its configured
  capacity (at least one), so a slow or absent broker cannot exhaust memory.
\<close>

lemma coordinator_bounded:
  "length (queued (co_run now ops (NewCoordinator capacity onDrop))) \<le> nat (max 1 capacity)"
  using co_run_wf [OF NewCoordinator_wf [of capacity onDrop], of now ops] mq.bounded
  by (metis co_wf_def queued_def)

text \<open>
  Overflow is reported without flooding: over any history of operations, two calls of the
  drop callback are at least one minute apart by the coordinator's clock.
\<close>

lemma drop_warnings_rate_limited:
  assumes "\<And>n. now n \<noteq> 0"
  shows "sorted_wrt (\<lambda>a b. minute \<le> fst b - fst a)
    (co_warnings (co_run now ops (NewCoordinator capacity onDrop)))"
proof -
  have "warn_inv (NewCoordinator capacity onDrop)"
    by (simp add: warn_inv_def NewCoordinator_def)
  then have "warn_inv (co_run now ops (NewCoordinator capacity onDrop))"
    unfolding co_run_def by (rule foldl_invariant) (rule co_step_warn_inv [OF _ assms])
  then show ?thesis by (simp add: warn_inv_def)
qed

text \<open>
  C21: change mode publishes exactly the changes: once a device has a baseline, a scan enqueues
  one message when some tag is new or differs from its last seen value and nothing otherwise;
  the message carries precisely those tags with their new values, under the device's topic and
  identity, and the baseline becomes the old one overwritten with the scan.
\<close>

theorem change_mode_exact:
  assumes wf: "co_wf cap c" "mq_accepting (co_queue c)" "co_enabled c"
    and cfg: "co_configs c (ss_DeviceID snap) = Some cfg" "dk_Enabled cfg" "dk_Mode cfg = KafkaModeChange"
    and st: "co_states c (ss_DeviceID snap) = Some st" "ds_lastValues st \<noteq> []"
    and d: "distinct (map fst (ss_SuccessfulValues snap))"
  defines "diff \<equiv> {t. changed (ds_lastValues st) (ss_SuccessfulValues snap) t}"
  shows "(if diff = {} then queued (Submit now snap c) = queued c
     else \<exists>m. queued (Submit now snap c) = push_bounded cap (queued c) m \<and>
       m_Type m = KafkaModeChange \<and> m_Topic m = dk_Topic cfg \<and>
       di_ID (m_Device m) = ss_DeviceID snap \<and>
       map_of (m_Points m) = map_of (ss_SuccessfulValues snap) |` diff) \<and>
    (\<exists>st'. co_states (Submit now snap c) (ss_DeviceID snap) = Some st' \<and>
       map_of (ds_lastValues st') = map_of (ds_lastValues st) ++ map_of (ss_SuccessfulValues snap))"
proof -
  obtain ch lastV where sc: "scan_changes (ds_lastValues st) (ss_SuccessfulValues snap) = (ch, lastV)"
    by (cases "scan_changes (ds_lastValues st) (ss_SuccessfulValues snap)")
  from scan_changes_foldl [OF d sc [unfolded scan_changes_def]]
  have f: "map_of lastV = map_of (ds_lastValues st) ++ map_of (ss_SuccessfulValues snap)"
      "map_of ch = map_of (ss_SuccessfulValues snap) |` diff" "distinct (map fst ch)"
    by (simp_all add: diff_def)
  have "dom (map_of ch) = diff"
    unfolding f(2) by (auto simp: diff_def changed_def restrict_map_def split: if_splits)
  then have e: "ch = [] \<longleftrightarrow> diff = {}" by (metis dom_map_of_conv_image_fst image_is_empty set_empty)
  let ?c1 = "c\<lparr>co_states := (co_states c)(ss_DeviceID snap \<mapsto> st\<lparr>ds_lastValues := lastV\<rparr>)\<rparr>"
  have S: "Submit now snap c = (if ch \<noteq> [] then enqueue now cfg snap KafkaModeChange ch ?c1 else ?c1)"
    using wf(3) cfg st by (simp add: Submit_def submitChanges_def sc)
  have w1: "co_wf cap ?c1" "mq_accepting (co_queue ?c1)" using wf by (simp_all add: co_wf_def)
  have q1: "queued ?c1 = queued c" by (simp add: queued_def)
  from enqueue_message [OF w1, of now cfg snap KafkaModeChange ch]
  have "ch \<noteq> [] \<Longrightarrow> \<exists>m. queued (Submit now snap c) = push_bounded cap (queued c) m \<and>
       m_Type m = KafkaModeChange \<and> m_Topic m = dk_Topic cfg \<and>
       di_ID (m_Device m) = ss_DeviceID snap \<and>
       map_of (m_Points m) = map_of (ss_SuccessfulValues snap) |` diff"
    unfolding S q1 by (auto simp: map_of_cloneValues [OF f(3)] f(2))
  moreover have "ch = [] \<Longrightarrow> queued (Submit now snap c) = queued c"
    unfolding S by (simp add: q1)
  moreover have "co_states (Submit now snap c) (ss_DeviceID snap) = Some (st\<lparr>ds_lastValues := lastV\<rparr>)"
    unfolding S by simp
  ultimately show ?thesis using e f(1) by auto
qed

text \<open>
  The first scan of a device in change mode only takes the baseline: it publishes nothing
  and remembers exactly the scanned values; this is also what happens after the device's policy
  was re-enabled, or its topic or mode changed, or its collector stopped.
\<close>

lemma change_mode_baseline:
  assumes "co_enabled c"
    and "dk_Enabled cfg" "dk_Mode cfg = KafkaModeChange" "dk_DeviceID cfg = ss_DeviceID snap"
    and "case co_configs c (ss_DeviceID snap) of None \<Rightarrow> True
      | Some p \<Rightarrow> \<not> dk_Enabled p \<or> dk_Topic p \<noteq> dk_Topic cfg \<or> dk_Mode p \<noteq> dk_Mode cfg"
    and "distinct (map fst (ss_SuccessfulValues snap))"
  shows "queued (Submit now snap (ApplyDeviceConfig cfg c)) = queued c \<and>
    (\<exists>st. co_states (Submit now snap (ApplyDeviceConfig cfg c)) (ss_DeviceID snap) = Some st \<and>
       map_of (ds_lastValues st) = map_of (ss_SuccessfulValues snap))"
proof -
  have A: "ApplyDeviceConfig cfg c = c\<lparr>co_configs := (co_configs c)(ss_DeviceID snap \<mapsto> cfg),
      co_states := (co_states c)(ss_DeviceID snap := None)\<rparr>"
    using assms(4,5) by (simp add: ApplyDeviceConfig_def Let_def)
  show ?thesis
    using assms unfolding A
    by (simp add: Submit_def submitChanges_def queued_def Let_def foldl_update_map_of
        map_of_rev_distinct)
qed

text \<open>
  Full mode is rate limited: a scan enqueues the device's complete current values exactly
  when there are some and at least the configured interval has passed since the last full
  message (or there was none), and only then is the time of that message moved forward.
\<close>

lemma full_mode_rate_limit:
  fixes now :: "nat \<Rightarrow> instant"
  assumes wf: "co_wf cap c" "mq_accepting (co_queue c)" "co_enabled c"
    and cfg: "co_configs c (ss_DeviceID snap) = Some cfg" "dk_Enabled cfg" "dk_Mode cfg \<noteq> KafkaModeChange"
      "0 < dk_FullIntervalSec cfg" "dk_FullIntervalSec cfg \<le> 86400"
    and st: "co_states c (ss_DeviceID snap) = Some st"
    and d: "distinct (map fst (ss_CurrentValues snap))"
  defines "t \<equiv> now (co_ticks c)"
  defines "due \<equiv> (ds_lastFullQueuedAt st = 0 \<or>
    dk_FullIntervalSec cfg * second \<le> t - ds_lastFullQueuedAt st) \<and> ss_CurrentValues snap \<noteq> []"
  shows "(due \<longrightarrow> (\<exists>m. queued (Submit now snap c) = push_bounded cap (queued c) m \<and>
        m_Type m = KafkaModeFull \<and> m_Topic m = dk_Topic cfg \<and>
        map_of (m_Points m) = map_of (ss_CurrentValues snap)) \<and>
      co_states (Submit now snap c) (ss_DeviceID snap) = Some (st\<lparr>ds_lastFullQueuedAt := t\<rparr>)) \<and>
    (\<not> due \<longrightarrow> queued (Submit now snap c) = queued c \<and>
      co_states (Submit now snap c) (ss_DeviceID snap) = Some st)"
proof -
  let ?iv = "dk_FullIntervalSec cfg * second"
  have iv: "wrap64 ?iv = ?iv" "0 < ?iv" "?iv < 2 ^ 63 - 1"
    using cfg(4,5) by (simp_all add: wrap64_id second_def)
  then have late: "time_Sub t (ds_lastFullQueuedAt st) < wrap64 ?iv \<longleftrightarrow> t - ds_lastFullQueuedAt st < ?iv"
    by (auto simp: time_Sub_def)
  let ?c1 = "c\<lparr>co_ticks := co_ticks c + 1\<rparr>"
  let ?c2 = "enqueue now cfg snap KafkaModeFull (ss_CurrentValues snap) ?c1"
  have S: "Submit now snap c = (if due
      then ?c2\<lparr>co_states := (co_states ?c2)(ss_DeviceID snap \<mapsto> st\<lparr>ds_lastFullQueuedAt := t\<rparr>)\<rparr>
      else ?c1)"
    using wf(3) cfg(1-3) st late
    by (auto simp: Submit_def submitFull_def due_def t_def Let_def)
  have w1: "co_wf cap ?c1" "mq_accepting (co_queue ?c1)" using wf by (simp_all add: co_wf_def)
  from enqueue_message [OF w1, of now cfg snap KafkaModeFull "ss_CurrentValues snap"]
  show ?thesis
    unfolding S using st by (auto simp: queued_def map_of_cloneValues [OF d])
qed

text \<open>
  A NaN differs from itself under \<open>reflect.DeepEqual\<close>, so a point that reads NaN counts as
  changed on every scan.
\<close>

lemma nan_always_changed:
  assumes "f64_is_nan w"
  shows "changed [(tag, VFloat64 w)] [(tag, VFloat64 w)] tag"
  using assms by (simp add: changed_def f64_eq_def)

section \<open>Witnesses\<close>

definition sample_policy :: "string \<Rightarrow> DeviceKafkaConfig" where
  "sample_policy mode = \<lparr>dk_DeviceID = 7, dk_Enabled = True, dk_Topic = ''t'', dk_Mode = mode,
     dk_FullIntervalSec = 60, dk_CreatedAt = 0, dk_UpdatedAt = 0\<rparr>"

definition sample_scan :: ScanSnapshot where
  "sample_scan = \<lparr>ss_DeviceID = 7, ss_DeviceName = ''d'', ss_CollectedAt = 5,
     ss_SuccessfulValues = [(''a'', VBool True), (''b'', VBool False)],
     ss_CurrentValues = [(''a'', VBool True)]\<rparr>"

definition sample_state :: deviceState where
  "sample_state = \<lparr>ds_lastValues = [(''a'', VBool True), (''b'', VBool True)], ds_lastFullQueuedAt = 0\<rparr>"

definition sample_coordinator :: "string \<Rightarrow> Coordinator" where
  "sample_coordinator mode = (NewCoordinator 4 True)\<lparr>co_configs := [7 \<mapsto> sample_policy mode],
     co_states := [7 \<mapsto> sample_state]\<rparr>"

lemma sample_policy_sel [simp]:
  "dk_DeviceID (sample_policy m) = 7" "dk_Enabled (sample_policy m)" "dk_Topic (sample_policy m) = ''t''"
  "dk_Mode (sample_policy m) = m" "dk_FullIntervalSec (sample_policy m) = 60"
  by (simp_all add: sample_policy_def)

lemma sample_scan_sel [simp]:
  "ss_DeviceID sample_scan = 7" "ss_CurrentValues sample_scan = [(''a'', VBool True)]"
  "ss_SuccessfulValues sample_scan = [(''a'', VBool True), (''b'', VBool False)]"
  by (simp_all add: sample_scan_def)

lemma sample_state_sel [simp]:
  "ds_lastValues sample_state = [(''a'', VBool True), (''b'', VBool True)]"
  "ds_lastFullQueuedAt sample_state = 0"
  by (simp_all add: sample_state_def)

lemma sample_coordinator_sel [simp]:
  "co_configs (sample_coordinator m) = [7 \<mapsto> sample_policy m]"
  "co_states (sample_coordinator m) = [7 \<mapsto> sample_state]"
  "co_enabled (sample_coordinator m)" "mq_accepting (co_queue (sample_coordinator m))"
  "co_wf 4 (sample_coordinator m)" "queued (sample_coordinator m) = []"
  "co_ticks (sample_coordinator m) = 0"
  using NewCoordinator_wf [of 4 True]
  by (simp_all add: sample_coordinator_def NewCoordinator_def newMessageQueue_wf queued_def co_wf_def)

theorem drop_warnings_rate_limited_witness:
  "sorted_wrt (\<lambda>a b. minute \<le> fst b - fst a)
    (co_warnings (co_run (\<lambda>n. int n + 1) [OpEnable True, OpSubmit sample_scan] (NewCoordinator 1 True)))"
  by (rule drop_warnings_rate_limited) simp

theorem change_mode_exact_witness:
  "\<exists>m. queued (Submit (\<lambda>_. 9) sample_scan (sample_coordinator KafkaModeChange)) = [m] \<and>
     map_of (m_Points m) = [''b'' \<mapsto> VBool False]"
proof -
  have diff: "{t. changed (ds_lastValues sample_state) (ss_SuccessfulValues sample_scan) t} = {''b''}"
    by (auto simp: changed_def split: if_splits)
  have r: "map_of (ss_SuccessfulValues sample_scan) |` {''b''} = [''b'' \<mapsto> VBool False]"
    by (auto simp: restrict_map_def fun_eq_iff)
  show ?thesis
    using change_mode_exact [of 4 "sample_coordinator KafkaModeChange" sample_scan
        "sample_policy KafkaModeChange" sample_state "\<lambda>_. 9", unfolded diff r]
    by (simp add: push_bounded_def) blast
qed

theorem change_mode_baseline_witness:
  "queued (Submit (\<lambda>_. 9) sample_scan (ApplyDeviceConfig (sample_policy KafkaModeChange)
     (sample_coordinator KafkaModeFull))) = []"
  using change_mode_baseline [of "sample_coordinator KafkaModeFull" "sample_policy KafkaModeChange"
      sample_scan "\<lambda>_. 9"] by simp

theorem full_mode_rate_limit_witness:
  "\<exists>m. queued (Submit (\<lambda>_. 9) sample_scan (sample_coordinator KafkaModeFull)) = [m] \<and>
     map_of (m_Points m) = map_of [(''a'', VBool True)]"
  using full_mode_rate_limit [of 4 "sample_coordinator KafkaModeFull" sample_scan
      "sample_policy KafkaModeFull" sample_state "\<lambda>_. 9"]
  by (simp add: push_bounded_def) blast

end
