(* ===== verification/ConnManager.thy ===== *)
theory ConnManager
  imports Prelude
begin

text \<open>
  The connection manager of \<open>internal/collector/collector.go\<close>: the circuit breaker between a
  scan loop and a Modbus connection. A TCP handler of the Modbus library is a number, its
  \<open>Connect\<close> an answer given with the call. Each call is modelled as it runs alone; their
  interleaving is a step relation whose steps run from one blocking operation to the next.
\<close>

section \<open>State and operations\<close>

definition StateOnline :: int where "StateOnline = 0"

definition StateReconnecting :: int where "StateReconnecting = 1"

definition StateOffline :: int where "StateOffline = 2"

lemma states_distinct [simp]:
  "StateOnline \<noteq> StateReconnecting" "StateReconnecting \<noteq> StateOnline" "StateOnline \<noteq> StateOffline"
  "StateOffline \<noteq> StateOnline" "StateReconnecting \<noteq> StateOffline" "StateOffline \<noteq> StateReconnecting"
  by (simp_all add: StateOnline_def StateReconnecting_def StateOffline_def)

text \<open>\<open>cm_opened\<close> counts the handlers created, so that each has a number of its own.\<close>

record ConnManager =
  cm_client :: "nat option"
  cm_handler :: "nat option"
  cm_state :: int
  cm_retryCount :: int
  cm_maxRetries :: int
  cm_reconnecting :: int
  cm_opened :: nat

definition NewConnManager :: ConnManager where
  "NewConnManager = \<lparr>cm_client = None, cm_handler = None, cm_state = StateOnline, cm_retryCount = 0,
     cm_maxRetries = 10, cm_reconnecting = 0, cm_opened = 0\<rparr>"

definition Connect :: "string option \<Rightarrow> ConnManager \<Rightarrow> string option \<times> ConnManager" where
  "Connect err cm =
     (let cm1 = cm\<lparr>cm_handler := Some (cm_opened cm), cm_opened := cm_opened cm + 1\<rparr> in
      case err of
        Some e \<Rightarrow> (Some e, cm1)
      | None \<Rightarrow> (None, cm1\<lparr>cm_client := cm_handler cm1\<rparr>))"

definition conn_Close :: "ConnManager \<Rightarrow> ConnManager" where
  "conn_Close cm = cm\<lparr>cm_client := None, cm_handler := None\<rparr>"

definition GetClient :: "ConnManager \<Rightarrow> nat option" where
  "GetClient cm =
     (if cm_state cm = StateOffline \<or> cm_state cm = StateReconnecting then None else cm_client cm)"

text \<open>\<open>ReconnectWithBackoff\<close>: the compare-and-swap with the locked section after it.\<close>

definition begin_reconnect :: "ConnManager \<Rightarrow> ConnManager option" where
  "begin_reconnect cm =
     (if cm_reconnecting cm \<noteq> 0 then None
      else Some (cm\<lparr>cm_reconnecting := 1, cm_client := None, cm_state := StateReconnecting\<rparr>))"

text \<open>
  The wait before an attempt. The product of the floating-point computation is exact for the
  attempts made (a power of two below \<open>2 ^ 10\<close> times \<open>10 ^ 9\<close>), so it is written with integers.
\<close>

definition backoff_delay :: "int \<Rightarrow> int" where
  "backoff_delay attempt = min (1 * second * 2 ^ nat (attempt - 1)) (30 * second)"

definition mark_online :: "ConnManager \<Rightarrow> ConnManager" where
  "mark_online cm = cm\<lparr>cm_retryCount := 0, cm_state := StateOnline\<rparr>"

definition trip_breaker :: "ConnManager \<Rightarrow> ConnManager" where
  "trip_breaker cm = cm\<lparr>cm_retryCount := 0, cm_state := StateOffline\<rparr>"

definition release :: "ConnManager \<Rightarrow> ConnManager" where
  "release cm = cm\<lparr>cm_reconnecting := 0\<rparr>"

text \<open>
  The loop from one attempt on: \<open>cancelled n\<close> says that the context ends during the wait before
  attempt \<open>n\<close>, \<open>connects n\<close> is what that attempt's \<open>Connect\<close> answers. The result is the way it
  ended, the waits it made and the manager.
\<close>

datatype loop_end = Connected | Cancelled | Exhausted

function reconnect_from :: "(int \<Rightarrow> bool) \<Rightarrow> (int \<Rightarrow> string option) \<Rightarrow> int \<Rightarrow> ConnManager \<Rightarrow>
    loop_end \<times> int list \<times> ConnManager" where
  "reconnect_from cancelled connects attempt cm =
     (if attempt > cm_maxRetries cm then (Exhausted, [], trip_breaker cm)
      else if cancelled attempt then (Cancelled, [backoff_delay attempt], cm)
      else
        let (err, cm1) = Connect (connects attempt) cm in
        if err = None then (Connected, [backoff_delay attempt], mark_online cm1)
        else
          let (e, waits, cm2) =
            reconnect_from cancelled connects (attempt + 1) (cm1\<lparr>cm_retryCount := attempt\<rparr>)
          in (e, backoff_delay attempt # waits, cm2))"
  by pat_completeness auto
termination
  by (relation "measure (\<lambda>(_, _, attempt, cm). nat (cm_maxRetries cm + 1 - attempt))")
    (auto simp: Connect_def Let_def split: option.splits)

declare reconnect_from.simps [simp del]

text \<open>The whole call; \<open>None\<close> when another reconnection runs. Exhaustion starts a heartbeat probe.\<close>

definition ReconnectWithBackoff :: "(int \<Rightarrow> bool) \<Rightarrow> (int \<Rightarrow> string option) \<Rightarrow> ConnManager \<Rightarrow>
    (loop_end \<times> int list) option \<times> ConnManager" where
  "ReconnectWithBackoff cancelled connects cm =
     (case begin_reconnect cm of
        None \<Rightarrow> (None, cm)
      | Some cm1 \<Rightarrow>
          (let (e, waits, cm2) = reconnect_from cancelled connects 1 cm1 in (Some (e, waits), release cm2)))"

text \<open>
  A tick of the heartbeat probe: it ends (\<open>None\<close>) when the breaker is no longer tripped; otherwise
  it tries to connect and says whether it could. The stores after a success are \<open>mark_online\<close>.
\<close>

definition probe_tick :: "string option \<Rightarrow> ConnManager \<Rightarrow> (bool \<times> ConnManager) option" where
  "probe_tick err cm =
     (if cm_state cm \<noteq> StateOffline then None
      else let (e, cm1) = Connect err cm in Some (e = None, cm1))"

section \<open>Interleaving\<close>

text \<open>
  The goroutines of one manager. A reconnection waits for its next attempt or, connected, is
  about to store the new state; so does a probe. The runner's first \<open>Connect\<close> comes before
  everything else that uses the manager. \<open>Close\<close> is called after the context was
  cancelled, which is the only way the program calls it. A step is the locked section of a
  \<open>Connect\<close> or everything between two waits that does not block: the stores after a success with the
  release of the flag are one step, and so are the store of \<open>StateOffline\<close>, the start of the probe and
  the release when the attempts are used up; states between those stores are not distinguished.
\<close>

datatype loop_phase = LoopWait int | LoopStore

datatype probe_phase = ProbeWait | ProbeStore

record conn_sys =
  cs_cm :: ConnManager
  cs_loop :: "loop_phase option"
  cs_probes :: "probe_phase multiset"
  cs_cancelled :: bool
  cs_running :: bool

definition conn_init :: conn_sys where
  "conn_init = \<lparr>cs_cm = NewConnManager, cs_loop = None, cs_probes = {#}, cs_cancelled = False,
     cs_running = False\<rparr>"

inductive conn_step :: "conn_sys \<Rightarrow> conn_sys \<Rightarrow> bool" where
  Initial: "\<not> cs_running s \<Longrightarrow> Connect err (cs_cm s) = (e, cm) \<Longrightarrow>
    conn_step s (s\<lparr>cs_cm := cm, cs_running := True\<rparr>)"
| Cancel: "conn_step s (s\<lparr>cs_cancelled := True\<rparr>)"
| Close: "cs_cancelled s \<Longrightarrow> conn_step s (s\<lparr>cs_cm := conn_Close (cs_cm s)\<rparr>)"
| Begin: "cs_running s \<Longrightarrow> begin_reconnect (cs_cm s) = Some cm \<Longrightarrow>
    conn_step s (s\<lparr>cs_cm := cm, cs_loop := Some (LoopWait 1)\<rparr>)"
| Exhaust: "cs_loop s = Some (LoopWait n) \<Longrightarrow> n > cm_maxRetries (cs_cm s) \<Longrightarrow>
    conn_step s (s\<lparr>cs_cm := release (trip_breaker (cs_cm s)), cs_loop := None,
      cs_probes := add_mset ProbeWait (cs_probes s)\<rparr>)"
| LoopCancel: "cs_loop s = Some (LoopWait n) \<Longrightarrow> n \<le> cm_maxRetries (cs_cm s) \<Longrightarrow> cs_cancelled s \<Longrightarrow>
    conn_step s (s\<lparr>cs_cm := release (cs_cm s), cs_loop := None\<rparr>)"
| LoopFail: "cs_loop s = Some (LoopWait n) \<Longrightarrow> n \<le> cm_maxRetries (cs_cm s) \<Longrightarrow>
    Connect (Some err) (cs_cm s) = (e, cm) \<Longrightarrow>
    conn_step s (s\<lparr>cs_cm := cm\<lparr>cm_retryCount := n\<rparr>, cs_loop := Some (LoopWait (n + 1))\<rparr>)"
| LoopOk: "cs_loop s = Some (LoopWait n) \<Longrightarrow> n \<le> cm_maxRetries (cs_cm s) \<Longrightarrow>
    Connect None (cs_cm s) = (e, cm) \<Longrightarrow> conn_step s (s\<lparr>cs_cm := cm, cs_loop := Some LoopStore\<rparr>)"
| LoopStored: "cs_loop s = Some LoopStore \<Longrightarrow>
    conn_step s (s\<lparr>cs_cm := release (mark_online (cs_cm s)), cs_loop := None\<rparr>)"
| ProbeCancel: "ProbeWait \<in># cs_probes s \<Longrightarrow> cs_cancelled s \<Longrightarrow>
    conn_step s (s\<lparr>cs_probes := cs_probes s - {#ProbeWait#}\<rparr>)"
| ProbeEnd: "ProbeWait \<in># cs_probes s \<Longrightarrow> probe_tick err (cs_cm s) = None \<Longrightarrow>
    conn_step s (s\<lparr>cs_probes := cs_probes s - {#ProbeWait#}\<rparr>)"
| ProbeFail: "ProbeWait \<in># cs_probes s \<Longrightarrow> probe_tick err (cs_cm s) = Some (False, cm) \<Longrightarrow>
    conn_step s (s\<lparr>cs_cm := cm\<rparr>)"
| ProbeOk: "ProbeWait \<in># cs_probes s \<Longrightarrow> probe_tick err (cs_cm s) = Some (True, cm) \<Longrightarrow>
    conn_step s (s\<lparr>cs_cm := cm, cs_probes := add_mset ProbeStore (cs_probes s - {#ProbeWait#})\<rparr>)"
| ProbeStored: "ProbeStore \<in># cs_probes s \<Longrightarrow>
    conn_step s (s\<lparr>cs_cm := mark_online (cs_cm s), cs_probes := cs_probes s - {#ProbeStore#}\<rparr>)"

inductive conn_reachable :: "conn_sys \<Rightarrow> bool" where
  Init: "conn_reachable conn_init"
| Step: "conn_reachable s \<Longrightarrow> conn_step s s' \<Longrightarrow> conn_reachable s'"

section \<open>The invariant\<close>

text \<open>
  The flag is set exactly while a reconnection runs; a manager that is not online is being
  worked on, by a reconnection with attempts left or by a probe, unless the device was stopped.
\<close>

definition conn_inv :: "conn_sys \<Rightarrow> bool" where
  "conn_inv s \<longleftrightarrow>
     (\<not> cs_running s \<longrightarrow> cs_loop s = None \<and> cm_state (cs_cm s) = StateOnline) \<and>
     cm_maxRetries (cs_cm s) = 10 \<and> 0 \<le> cm_retryCount (cs_cm s) \<and> cm_retryCount (cs_cm s) \<le> 10 \<and>
     cm_state (cs_cm s) \<in> {StateOnline, StateReconnecting, StateOffline} \<and>
     cm_reconnecting (cs_cm s) = (if cs_loop s = None then 0 else 1) \<and>
     (\<forall>n. cs_loop s = Some (LoopWait n) \<longrightarrow> 1 \<le> n \<and> n \<le> 11) \<and>
     (cs_loop s \<noteq> None \<longrightarrow> cm_state (cs_cm s) \<noteq> StateOffline) \<and>
     (cs_loop s = Some LoopStore \<and> \<not> cs_cancelled s \<longrightarrow> cm_client (cs_cm s) \<noteq> None) \<and>
     (cm_state (cs_cm s) = StateReconnecting \<and> \<not> cs_cancelled s \<longrightarrow> cs_loop s \<noteq> None) \<and>
     (cm_state (cs_cm s) = StateOffline \<and> \<not> cs_cancelled s \<longrightarrow>
        ProbeWait \<in># cs_probes s \<or> ProbeStore \<in># cs_probes s \<and> cm_client (cs_cm s) \<noteq> None)"

lemma Connect_fields [simp]:
  "cm_state (snd (Connect err cm)) = cm_state cm"
  "cm_retryCount (snd (Connect err cm)) = cm_retryCount cm"
  "cm_maxRetries (snd (Connect err cm)) = cm_maxRetries cm"
  "cm_reconnecting (snd (Connect err cm)) = cm_reconnecting cm"
  "cm_client (snd (Connect err cm)) = (if err = None then Some (cm_opened cm) else cm_client cm)"
  "cm_handler (snd (Connect err cm)) = Some (cm_opened cm)"
  "cm_opened (snd (Connect err cm)) = cm_opened cm + 1"
  "fst (Connect err cm) = err"
  by (simp_all add: Connect_def Let_def split: option.split)

lemma Connect_eq: "Connect err cm = (e, cm') \<longleftrightarrow> e = err \<and> cm' = snd (Connect err cm)"
  by (metis Connect_fields(8) fst_conv prod.collapse snd_conv)

lemma probe_tick_eq:
  "probe_tick err cm = None \<longleftrightarrow> cm_state cm \<noteq> StateOffline"
  "probe_tick err cm = Some (b, cm') \<longleftrightarrow>
     cm_state cm = StateOffline \<and> b = (err = None) \<and> cm' = snd (Connect err cm)"
  by (auto simp: probe_tick_def split_beta Let_def)

lemma conn_helpers [simp]:
  "cm_client (mark_online cm) = cm_client cm" "cm_state (mark_online cm) = StateOnline"
  "cm_retryCount (mark_online cm) = 0" "cm_maxRetries (mark_online cm) = cm_maxRetries cm"
  "cm_reconnecting (mark_online cm) = cm_reconnecting cm" "cm_handler (mark_online cm) = cm_handler cm"
  "cm_client (trip_breaker cm) = cm_client cm" "cm_state (trip_breaker cm) = StateOffline"
  "cm_retryCount (trip_breaker cm) = 0" "cm_maxRetries (trip_breaker cm) = cm_maxRetries cm"
  "cm_reconnecting (trip_breaker cm) = cm_reconnecting cm"
  "cm_client (release cm) = cm_client cm" "cm_state (release cm) = cm_state cm"
  "cm_retryCount (release cm) = cm_retryCount cm" "cm_maxRetries (release cm) = cm_maxRetries cm"
  "cm_reconnecting (release cm) = 0" "cm_handler (release cm) = cm_handler cm"
  "cm_client (conn_Close cm) = None" "cm_state (conn_Close cm) = cm_state cm"
  "cm_retryCount (conn_Close cm) = cm_retryCount cm" "cm_maxRetries (conn_Close cm) = cm_maxRetries cm"
  "cm_reconnecting (conn_Close cm) = cm_reconnecting cm" "cm_handler (conn_Close cm) = None"
  by (simp_all add: mark_online_def trip_breaker_def release_def conn_Close_def)

lemma begin_reconnect_Some:
  "begin_reconnect cm = Some cm' \<longleftrightarrow> cm_reconnecting cm = 0 \<and>
     cm' = cm\<lparr>cm_reconnecting := 1, cm_client := None, cm_state := StateReconnecting\<rparr>"
  by (auto simp: begin_reconnect_def)

lemma conn_step_inv:
  assumes "conn_step s s'" "conn_inv s"
  shows "conn_inv s'"
  using assms
proof cases
  case (Initial err e cm)
  with assms(2) show ?thesis by (auto simp: conn_inv_def Connect_eq)
next
  case (Begin cm)
  with assms(2) show ?thesis by (simp add: conn_inv_def begin_reconnect_Some)
next
  case (LoopFail n err e cm)
  with assms(2) show ?thesis by (auto simp: conn_inv_def Connect_eq)
next
  case (LoopOk n e cm)
  with assms(2) show ?thesis by (auto simp: conn_inv_def Connect_eq)
next
  case (ProbeEnd err)
  with assms(2) show ?thesis by (auto simp: conn_inv_def probe_tick_eq)
next
  case (ProbeFail err cm)
  with assms(2) show ?thesis by (auto simp: conn_inv_def probe_tick_eq)
next
  case (ProbeOk err cm)
  with assms(2) show ?thesis by (auto simp: conn_inv_def probe_tick_eq)
qed (use assms(2) in \<open>simp_all add: conn_inv_def\<close>)

lemma conn_reachable_inv: "conn_reachable s \<Longrightarrow> conn_inv s"
proof (induction rule: conn_reachable.induct)
  case Init
  show ?case by (simp add: conn_inv_def conn_init_def NewConnManager_def)
next
  case (Step s s')
  then show ?case by (blast intro: conn_step_inv)
qed

section \<open>Properties\<close>

lemma backoff_delays: "map backoff_delay [1, 2, 3, 4, 5, 6, 7, 8, 9, 10] =
    map (\<lambda>k. k * second) [1, 2, 4, 8, 16, 30, 30, 30, 30, 30]"
  by (simp add: backoff_delay_def second_def)

lemma upto_1_10: "[1..10] = [1, 2, 3, 4, 5, 6, 7, 8, 9, 10 :: int]"
  by (simp add: upto.simps)

definition attempts_fail :: "(int \<Rightarrow> bool) \<Rightarrow> (int \<Rightarrow> string option) \<Rightarrow> int set \<Rightarrow> bool" where
  "attempts_fail cancelled connects N \<longleftrightarrow> (\<forall>n\<in>N. \<not> cancelled n \<and> connects n \<noteq> None)"

lemma reconnect_from_exact:
  assumes "1 \<le> attempt" "attempt \<le> k" "k \<le> cm_maxRetries cm + 1" "attempts_fail cancelled connects {attempt..<k}"
  shows "(k = cm_maxRetries cm + 1 \<longrightarrow> (\<exists>cm'. reconnect_from cancelled connects attempt cm =
       (Exhausted, map backoff_delay [attempt..k - 1], cm') \<and> cm_state cm' = StateOffline \<and>
       cm_client cm' = cm_client cm \<and> cm_retryCount cm' = 0)) \<and>
     (k \<le> cm_maxRetries cm \<and> cancelled k \<longrightarrow> (\<exists>cm'. reconnect_from cancelled connects attempt cm =
       (Cancelled, map backoff_delay [attempt..k], cm') \<and> cm_state cm' = cm_state cm \<and>
       cm_client cm' = cm_client cm)) \<and>
     (k \<le> cm_maxRetries cm \<and> \<not> cancelled k \<and> connects k = None \<longrightarrow>
       (\<exists>cm'. reconnect_from cancelled connects attempt cm =
       (Connected, map backoff_delay [attempt..k], cm') \<and> cm_state cm' = StateOnline \<and>
       cm_client cm' \<noteq> None \<and> cm_retryCount cm' = 0))"
  using assms
proof (induction "nat (k - attempt)" arbitrary: attempt cm)
  case 0
  then have "attempt = k" by simp
  then show ?case using "0.prems"(3) reconnect_from.simps [of cancelled connects k cm]
    by (auto simp: split_beta Let_def)
next
  case (Suc x)
  let ?cm = "(snd (Connect (connects attempt) cm))\<lparr>cm_retryCount := attempt\<rparr>"
  have lt: "attempt < k" using Suc.hyps(2) by simp
  have now: "\<not> cancelled attempt" "connects attempt \<noteq> None"
    using Suc.prems(4) lt by (auto simp: attempts_fail_def)
  have fails: "attempts_fail cancelled connects {attempt + 1..<k}"
    using Suc.prems(4) by (auto simp: attempts_fail_def)
  have unfold: "reconnect_from cancelled connects attempt cm =
      (let (e, waits, cm2) = reconnect_from cancelled connects (attempt + 1) ?cm
       in (e, backoff_delay attempt # waits, cm2))"
    using now lt Suc.prems(3)
    by (subst reconnect_from.simps) (auto simp: split_beta Let_def)
  have list: "[attempt..k] = attempt # [attempt + 1..k]" "[attempt..k - 1] = attempt # [attempt + 1..k - 1]"
    using lt by (simp_all add: upto_rec1)
  have "x = nat (k - (attempt + 1))" using Suc.hyps(2) by simp
  note IH = Suc.hyps(1) [OF this _ _ _ fails, of ?cm]
  have r: "cm_maxRetries ?cm = cm_maxRetries cm" "cm_state ?cm = cm_state cm" "cm_client ?cm = cm_client cm"
    using now by auto
  show ?case using IH lt Suc.prems(1,3) unfolding unfold list r by fastforce
qed

lemma reconnect_exact_lemma:
  assumes "cm_reconnecting cm = 0" "cm_maxRetries cm = 10" "1 \<le> k" "k \<le> 11"
    and "attempts_fail cancelled connects {1..<k}"
    and "ReconnectWithBackoff cancelled connects cm = (r, cm')"
  shows "cm_reconnecting cm' = 0 \<and>
    (k = 11 \<longrightarrow> r = Some (Exhausted, map (\<lambda>n. n * second) [1, 2, 4, 8, 16, 30, 30, 30, 30, 30]) \<and>
       cm_state cm' = StateOffline \<and> cm_client cm' = None) \<and>
    (k < 11 \<and> cancelled k \<longrightarrow> r = Some (Cancelled, map backoff_delay [1..k]) \<and>
       cm_state cm' = StateReconnecting \<and> cm_client cm' = None) \<and>
    (k < 11 \<and> \<not> cancelled k \<and> connects k = None \<longrightarrow> r = Some (Connected, map backoff_delay [1..k]) \<and>
       cm_state cm' = StateOnline \<and> GetClient cm' \<noteq> None)"
proof -
  let ?cm = "cm\<lparr>cm_reconnecting := 1, cm_client := None, cm_state := StateReconnecting\<rparr>"
  obtain e waits cm2 where run: "reconnect_from cancelled connects 1 ?cm = (e, waits, cm2)"
    by (metis prod_cases3)
  have r: "r = Some (e, waits)" "cm' = release cm2"
    using assms(1,6) run by (simp_all add: ReconnectWithBackoff_def begin_reconnect_def)
  from reconnect_from_exact [OF _ assms(3) _ assms(5), of ?cm] assms(2,4) show ?thesis
    unfolding run r backoff_delays [symmetric] upto_1_10 [symmetric]
    by (cases "k = 11") (auto simp: GetClient_def)
qed

text \<open>
  C26: a reconnection that starts makes one attempt after another, waiting 1, 2, 4, 8, 16 and then
  30 seconds before each, and always comes to an end: online with a client at the first attempt
  that connects, with the state left as it was when the context ends during a wait, and offline
  with no client after ten failures. In every case the reconnection flag is free again.
\<close>

theorem reconnect_exact:
  assumes "cm_reconnecting cm = 0" "cm_maxRetries cm = 10" "1 \<le> k" "k \<le> 11"
    and "attempts_fail cancelled connects {1..<k}"
    and "ReconnectWithBackoff cancelled connects cm = (r, cm')"
  shows "cm_reconnecting cm' = 0 \<and>
    (k = 11 \<longrightarrow> r = Some (Exhausted, map (\<lambda>n. n * second) [1, 2, 4, 8, 16, 30, 30, 30, 30, 30]) \<and>
       cm_state cm' = StateOffline \<and> cm_client cm' = None) \<and>
    (k < 11 \<and> cancelled k \<longrightarrow> r = Some (Cancelled, map backoff_delay [1..k]) \<and>
       cm_state cm' = StateReconnecting \<and> cm_client cm' = None) \<and>
    (k < 11 \<and> \<not> cancelled k \<and> connects k = None \<longrightarrow> r = Some (Connected, map backoff_delay [1..k]) \<and>
       cm_state cm' = StateOnline \<and> GetClient cm' \<noteq> None)"
  by (rule reconnect_exact_lemma [OF assms])

text \<open>
  C14: under every interleaving of scans that ask for a reconnection, of the reconnection, of
  heartbeat probes, of stopping and of closing, the flag admits one reconnection at a time, the
  retry counter stays within its bound, a client is only handed out in the online state, and a
  manager that is not online is always being worked on unless its device was stopped.
\<close>

theorem conn_always_attended:
  assumes "conn_reachable s"
  shows "(cs_loop s \<noteq> None \<longleftrightarrow> begin_reconnect (cs_cm s) = None) \<and>
    0 \<le> cm_retryCount (cs_cm s) \<and> cm_retryCount (cs_cm s) \<le> cm_maxRetries (cs_cm s) \<and>
    (GetClient (cs_cm s) \<noteq> None \<longrightarrow> cm_state (cs_cm s) = StateOnline) \<and>
    (cm_state (cs_cm s) = StateReconnecting \<longrightarrow> cs_loop s \<noteq> None \<or> cs_cancelled s) \<and>
    (cm_state (cs_cm s) = StateOffline \<longrightarrow> cs_probes s \<noteq> {#} \<or> cs_cancelled s)"
  using conn_reachable_inv [OF assms]
  by (auto simp: conn_inv_def begin_reconnect_def GetClient_def split: if_splits)

text \<open>Steps that the goroutines of the manager take by themselves once the device answers again.\<close>

definition own_step :: "conn_sys \<Rightarrow> conn_sys \<Rightarrow> bool" where
  "own_step s s' \<longleftrightarrow> conn_step s s' \<and> cs_running s \<and> \<not> cs_cancelled s' \<and>
     (cs_loop s' = None \<or> cs_loop s' = Some LoopStore)"

lemma own_then:
  "own_step s t \<Longrightarrow> \<exists>s'. own_step\<^sup>*\<^sup>* t s' \<and> P s' \<and> Q s' \<Longrightarrow> \<exists>s'. own_step\<^sup>*\<^sup>* s s' \<and> P s' \<and> Q s'"
  by (blast intro: converse_rtranclp_into_rtranclp)

lemma one_step: "\<exists>s'. own_step t s' \<and> P s' \<and> Q s' \<Longrightarrow> \<exists>s'. own_step\<^sup>*\<^sup>* t s' \<and> P s' \<and> Q s'"
  by blast

lemma two_steps:
  "own_step s t \<Longrightarrow> \<exists>s'. own_step t s' \<and> P s' \<and> Q s' \<Longrightarrow> \<exists>s'. own_step\<^sup>*\<^sup>* s s' \<and> P s' \<and> Q s'"
  by (rule own_then, assumption, rule one_step)

lemma offline_recovers:
  assumes inv: "conn_inv s" and c: "\<not> cs_cancelled s" and off: "cm_state (cs_cm s) = StateOffline"
    and loop: "cs_loop s = None" and run: "cs_running s"
  shows "\<exists>s'. own_step\<^sup>*\<^sup>* s s' \<and> cm_state (cs_cm s') = StateOnline \<and> GetClient (cs_cm s') \<noteq> None"
proof -
  have store: "\<exists>s'. own_step t s' \<and> cm_state (cs_cm s') = StateOnline \<and> GetClient (cs_cm s') \<noteq> None"
    if "ProbeStore \<in># cs_probes t" "cm_client (cs_cm t) \<noteq> None" "\<not> cs_cancelled t" "cs_loop t = None" "cs_running t" for t
    using that conn_step.ProbeStored [OF that(1)]
    by (intro exI [of _ "t\<lparr>cs_cm := mark_online (cs_cm t), cs_probes := cs_probes t - {#ProbeStore#}\<rparr>"])
      (simp add: own_step_def GetClient_def)
  have "ProbeWait \<in># cs_probes s \<or> ProbeStore \<in># cs_probes s \<and> cm_client (cs_cm s) \<noteq> None"
    using inv c off by (simp add: conn_inv_def)
  then show ?thesis
  proof
    assume w: "ProbeWait \<in># cs_probes s"
    let ?t = "s\<lparr>cs_cm := snd (Connect None (cs_cm s)),
      cs_probes := add_mset ProbeStore (cs_probes s - {#ProbeWait#})\<rparr>"
    have "conn_step s ?t" by (rule conn_step.ProbeOk [OF w, of None]) (simp add: probe_tick_eq off)
    then have "own_step s ?t" using c loop
      by (simp add: own_step_def run)
    moreover have "\<exists>s'. own_step ?t s' \<and> cm_state (cs_cm s') = StateOnline \<and> GetClient (cs_cm s') \<noteq> None"
      by (rule store) (use c loop run in simp_all)
    ultimately show ?thesis by (rule two_steps)
  next
    assume "ProbeStore \<in># cs_probes s \<and> cm_client (cs_cm s) \<noteq> None"
    then show ?thesis using store [of s] c loop run by (intro one_step) blast
  qed
qed

lemma conn_recovers_inv:
  assumes inv: "conn_inv s" and c: "\<not> cs_cancelled s" and off: "cm_state (cs_cm s) \<noteq> StateOnline"
  shows "\<exists>s'. own_step\<^sup>*\<^sup>* s s' \<and> cm_state (cs_cm s') = StateOnline \<and> GetClient (cs_cm s') \<noteq> None"
proof (cases "cs_loop s")
  have run: "cs_running s" using inv off by (auto simp: conn_inv_def)
  case None
  with inv c off have "cm_state (cs_cm s) = StateOffline" by (auto simp: conn_inv_def)
  from offline_recovers [OF inv c this None run] show ?thesis .
next
  have run: "cs_running s" using inv off by (auto simp: conn_inv_def)
  case (Some phase)
  have store: "\<exists>s'. own_step t s' \<and> cm_state (cs_cm s') = StateOnline \<and> GetClient (cs_cm s') \<noteq> None"
    if "cs_loop t = Some LoopStore" "cm_client (cs_cm t) \<noteq> None" "\<not> cs_cancelled t"
      "cs_running t" for t
    using that conn_step.LoopStored [OF that(1)]
    by (intro exI [of _ "t\<lparr>cs_cm := release (mark_online (cs_cm t)), cs_loop := None\<rparr>"])
      (simp add: own_step_def GetClient_def)
  show ?thesis
  proof (cases phase)
    case LoopStore
    then have "cm_client (cs_cm s) \<noteq> None" using inv c Some by (simp add: conn_inv_def)
    with store [of s] Some LoopStore c run show ?thesis by (intro one_step) blast
  next
    case (LoopWait n)
    show ?thesis
    proof (cases "n \<le> cm_maxRetries (cs_cm s)")
      case True
      let ?t = "s\<lparr>cs_cm := snd (Connect None (cs_cm s)), cs_loop := Some LoopStore\<rparr>"
      have "conn_step s ?t"
        by (rule conn_step.LoopOk) (use Some LoopWait True in \<open>simp_all add: Connect_eq\<close>)
      then have "own_step s ?t" using c by (simp add: own_step_def run)
      moreover have "\<exists>s'. own_step ?t s' \<and> cm_state (cs_cm s') = StateOnline \<and> GetClient (cs_cm s') \<noteq> None"
        by (rule store) (use c run in simp_all)
      ultimately show ?thesis by (rule two_steps)
    next
      case False
      let ?t = "s\<lparr>cs_cm := release (trip_breaker (cs_cm s)), cs_loop := None,
        cs_probes := add_mset ProbeWait (cs_probes s)\<rparr>"
      have st: "conn_step s ?t"
        by (rule conn_step.Exhaust) (use Some LoopWait False in auto)
      then have "own_step s ?t" using c by (simp add: own_step_def run)
      moreover have "\<exists>s'. own_step\<^sup>*\<^sup>* ?t s' \<and> cm_state (cs_cm s') = StateOnline \<and> GetClient (cs_cm s') \<noteq> None"
        by (rule offline_recovers [OF conn_step_inv [OF st inv]]) (use c run in simp_all)
      ultimately show ?thesis by (rule own_then)
    qed
  qed
qed

text \<open>
  C27: in every reachable state of a device that was not stopped and is not online, steps of the
  manager's own goroutines, none of which starts a new reconnection, lead back to the online
  state with a client: the breaker never gets stuck reconnecting or offline.
\<close>

theorem conn_recovers:
  assumes "conn_reachable s" "\<not> cs_cancelled s" "cm_state (cs_cm s) \<noteq> StateOnline"
  shows "\<exists>s'. own_step\<^sup>*\<^sup>* s s' \<and> cm_state (cs_cm s') = StateOnline \<and> GetClient (cs_cm s') \<noteq> None"
  by (rule conn_recovers_inv [OF conn_reachable_inv [OF assms(1)] assms(2,3)])

section \<open>Witnesses\<close>

theorem reconnect_exact_witness:
  "cm_state (snd (ReconnectWithBackoff (\<lambda>_. False) (\<lambda>n. if n < 3 then Some ''refused'' else None)
     NewConnManager)) = StateOnline"
  using reconnect_exact [of NewConnManager 3 "\<lambda>_. False" "\<lambda>n. if n < 3 then Some ''refused'' else None",
      OF _ _ _ _ _ prod.collapse [symmetric]]
  by (simp add: attempts_fail_def NewConnManager_def)

definition sample_begun :: conn_sys where
  "sample_begun = \<lparr>cs_cm = the (begin_reconnect (snd (Connect (Some ''refused'') NewConnManager))),
     cs_loop = Some (LoopWait 1), cs_probes = {#}, cs_cancelled = False, cs_running = True\<rparr>"

lemma sample_begun_reachable: "conn_reachable sample_begun"
proof -
  let ?cm = "snd (Connect (Some ''refused'') NewConnManager)"
  have "conn_reachable (conn_init\<lparr>cs_cm := ?cm, cs_running := True\<rparr>)"
    by (rule conn_reachable.Step [OF conn_reachable.Init conn_step.Initial])
      (simp_all add: conn_init_def Connect_eq)
  from conn_reachable.Step [OF this conn_step.Begin [of _ "the (begin_reconnect ?cm)"]] show ?thesis
    by (simp add: sample_begun_def conn_init_def begin_reconnect_def NewConnManager_def)
qed

theorem conn_always_attended_witness: "begin_reconnect (cs_cm sample_begun) = None"
  using conn_always_attended [OF sample_begun_reachable] by (simp add: sample_begun_def)

theorem conn_recovers_witness:
  "\<exists>s'. own_step\<^sup>*\<^sup>* sample_begun s' \<and> GetClient (cs_cm s') \<noteq> None"
  using conn_recovers [OF sample_begun_reachable]
  by (auto simp: sample_begun_def begin_reconnect_def NewConnManager_def)

end
