(* ===== verification/RuntimeManager.thy ===== *)
theory RuntimeManager
  imports Udm
begin

text \<open>
  \<open>internal/runtime/manager.go\<close>: the registry of device collectors. Each API call is cut at the
  one place where it waits outside the entry's lock, the wait in \<open>stopLocked\<close> for the runner's
  goroutine to end; everything between two such points holds the device's operation mutex and
  is one step. Runners are numbers into a list of goroutines. What the store, the factory, the
  runners and \<open>Close\<close> answer is given with the step.
\<close>

section \<open>State\<close>

definition StateStopped :: string where "StateStopped = ''stopped''"

definition StateStarting :: string where "StateStarting = ''starting''"

definition StateStopping :: string where "StateStopping = ''stopping''"

definition StateError :: string where "StateError = ''error''"

type_synonym valmap = "string \<Rightarrow> Value option"

record StatusEvent =
  se_State :: string
  se_LastError :: string
  se_LastCollectedAt :: "instant option"

text \<open>\<open>dr_held\<close> is the operation mutex \<open>opMu\<close>.\<close>

record deviceRuntime =
  dr_held :: bool
  dr_runner :: "nat option"
  dr_state :: string
  dr_operation :: string
  dr_lastError :: string
  dr_lastCollectedAt :: "instant option"
  dr_loadedConfigVersion :: int
  dr_lastValues :: valmap

text \<open>A runner's goroutine: whose it is, whether its context was cancelled, whether it ended.\<close>

record runner =
  rn_device :: int
  rn_cancelled :: bool
  rn_done :: bool

text \<open>A call that waits in \<open>stopLocked\<close>: the runner it waits for, the result of \<open>Close\<close>, and
  how it goes on.\<close>

datatype pending = WaitStop | WaitRestart Device | WaitStopAll

record Manager =
  rm_devices :: "int \<rightharpoonup> deviceRuntime"
  rm_runners :: "runner list"
  rm_waiting :: "int \<rightharpoonup> pending \<times> nat \<times> string option"

definition NewManager :: Manager where
  "NewManager = \<lparr>rm_devices = Map.empty, rm_runners = [], rm_waiting = Map.empty\<rparr>"

definition new_entry :: deviceRuntime where
  "new_entry = \<lparr>dr_held = False, dr_runner = None, dr_state = StateStopped, dr_operation = [],
     dr_lastError = [], dr_lastCollectedAt = None, dr_loadedConfigVersion = 0, dr_lastValues = Map.empty\<rparr>"

definition rm_entry :: "int \<Rightarrow> Manager \<Rightarrow> deviceRuntime" where
  "rm_entry d m = (case rm_devices m d of None \<Rightarrow> new_entry | Some e \<Rightarrow> e)"

definition set_entry :: "int \<Rightarrow> deviceRuntime \<Rightarrow> Manager \<Rightarrow> Manager" where
  "set_entry d e m = m\<lparr>rm_devices := (rm_devices m)(d \<mapsto> e)\<rparr>"

section \<open>Operations\<close>

definition tryBeginOperation :: "string \<Rightarrow> deviceRuntime \<Rightarrow> deviceRuntime option" where
  "tryBeginOperation operation e =
     (if dr_held e then None else Some (e\<lparr>dr_held := True, dr_operation := operation\<rparr>))"

definition endOperation :: "deviceRuntime \<Rightarrow> deviceRuntime" where
  "endOperation e = e\<lparr>dr_operation := [], dr_held := False\<rparr>"

definition setError :: "string \<Rightarrow> deviceRuntime \<Rightarrow> deviceRuntime" where
  "setError err e = e\<lparr>dr_state := StateError, dr_lastError := err\<rparr>"

text \<open>The status sink handed to a runner.\<close>

definition sink :: "StatusEvent \<Rightarrow> deviceRuntime \<Rightarrow> deviceRuntime" where
  "sink ev e =
     e\<lparr>dr_state := (if se_State ev \<noteq> [] then se_State ev else dr_state e),
       dr_lastError := se_LastError ev,
       dr_lastCollectedAt := (case se_LastCollectedAt ev of None \<Rightarrow> dr_lastCollectedAt e | Some t \<Rightarrow> Some t)\<rparr>"

datatype op_result = OpOk | OpBusy | OpError string

text \<open>\<open>startLocked\<close>; \<open>points\<close> and \<open>created\<close> are the answers of \<open>ListAllPoints\<close> and of the
  factory.\<close>

definition startLocked :: "Device \<Rightarrow> string + Point list \<Rightarrow> (Point list \<Rightarrow> string option) \<Rightarrow> Manager \<Rightarrow>
    op_result \<times> Manager" where
  "startLocked device points created m =
     (let d = d_ID device; e = rm_entry d m in
      if dr_runner e \<noteq> None then (OpOk, m)
      else
        case points of
          Inl err \<Rightarrow> (OpError (''load device points: '' @ err), set_entry d (setError err e) m)
        | Inr pts \<Rightarrow>
            (case created pts of
               Some err \<Rightarrow> (OpError (''create device runner: '' @ err), set_entry d (setError err e) m)
             | None \<Rightarrow>
                 (OpOk, (set_entry d (e\<lparr>dr_runner := Some (length (rm_runners m)),
                    dr_state := StateStarting, dr_lastError := [],
                    dr_loadedConfigVersion := d_ConfigVersion device\<rparr>) m)
                  \<lparr>rm_runners := rm_runners m @ [\<lparr>rn_device = d, rn_cancelled = False, rn_done = False\<rparr>]\<rparr>)))"

definition finish_op :: "int \<Rightarrow> op_result \<times> Manager \<Rightarrow> op_result \<times> Manager" where
  "finish_op d rm = (fst rm, set_entry d (endOperation (rm_entry d (snd rm))) (snd rm))"

definition Start :: "int \<Rightarrow> string + Device \<Rightarrow> string + Point list \<Rightarrow> (Point list \<Rightarrow> string option) \<Rightarrow>
    Manager \<Rightarrow> op_result \<times> Manager" where
  "Start d enabled points created m =
     (case tryBeginOperation ''start'' (rm_entry d m) of
        None \<Rightarrow> (OpBusy, m)
      | Some e \<Rightarrow>
          finish_op d
            (case enabled of
               Inl err \<Rightarrow> (OpError (''enable device: '' @ err), set_entry d e m)
             | Inr device \<Rightarrow> startLocked device points created (set_entry d e m)))"

text \<open>
  The first half of \<open>stopLocked\<close>: \<open>None\<close> when there was no runner and the call goes on at once,
  otherwise the manager with the call waiting for that runner.
\<close>

definition stop_begin :: "pending \<Rightarrow> int \<Rightarrow> valmap \<Rightarrow> string option \<Rightarrow> Manager \<Rightarrow> Manager option \<times> Manager" where
  "stop_begin p d vals closeErr m =
     (let e = rm_entry d m in
      case dr_runner e of
        None \<Rightarrow> (None, set_entry d (e\<lparr>dr_state := StateStopped\<rparr>) m)
      | Some r \<Rightarrow>
          let m' = (set_entry d (e\<lparr>dr_state := StateStopping, dr_lastValues := vals\<rparr>) m)
            \<lparr>rm_runners := (rm_runners m)[r := (rm_runners m ! r)\<lparr>rn_cancelled := True\<rparr>],
             rm_waiting := (rm_waiting m)(d \<mapsto> (p, r, closeErr))\<rparr>
          in (Some m', m'))"

text \<open>A call that has begun either returns, with its result, or waits.\<close>

datatype call = Returned op_result Manager | Waits Manager

definition Stop :: "int \<Rightarrow> string option \<Rightarrow> valmap \<Rightarrow> string option \<Rightarrow> Manager \<Rightarrow> call" where
  "Stop d disableErr vals closeErr m =
     (case tryBeginOperation ''stop'' (rm_entry d m) of
        None \<Rightarrow> Returned OpBusy m
      | Some e \<Rightarrow>
          let m0 = set_entry d e m in
          (case disableErr of
             Some err \<Rightarrow> (let (r, m') = finish_op d (OpError (''disable device: '' @ err), m0) in Returned r m')
           | None \<Rightarrow>
               (case stop_begin WaitStop d vals closeErr m0 of
                  (Some m1, _) \<Rightarrow> Waits m1
                | (None, m1) \<Rightarrow> (let (r, m') = finish_op d (OpOk, m1) in Returned r m'))))"

definition Restart :: "int \<Rightarrow> string + Device \<Rightarrow> string + Point list \<Rightarrow> (Point list \<Rightarrow> string option) \<Rightarrow>
    valmap \<Rightarrow> string option \<Rightarrow> Manager \<Rightarrow> call" where
  "Restart d enabled points created vals closeErr m =
     (case tryBeginOperation ''restart'' (rm_entry d m) of
        None \<Rightarrow> Returned OpBusy m
      | Some e \<Rightarrow>
          let m0 = set_entry d e m in
          (case enabled of
             Inl err \<Rightarrow> (let (r, m') = finish_op d (OpError (''enable device: '' @ err), m0) in Returned r m')
           | Inr device \<Rightarrow>
               (case stop_begin (WaitRestart device) d vals closeErr m0 of
                  (Some m1, _) \<Rightarrow> Waits m1
                | (None, m1) \<Rightarrow>
                    (let (r, m') = finish_op d (startLocked device points created m1) in Returned r m'))))"

text \<open>
  One device of \<open>StartEnabled\<close> and of \<open>StopAll\<close>; they lock the mutex without an operation. The
  whole of \<open>StartEnabled\<close> is also given as it runs when nothing else does, at the start of the
  process.
\<close>

definition StartEnabled_one :: "Device \<Rightarrow> string + Point list \<Rightarrow> (Point list \<Rightarrow> string option) \<Rightarrow>
    Manager \<Rightarrow> op_result \<times> Manager" where
  "StartEnabled_one device points created m =
     (if \<not> d_Enabled device then (OpOk, m)
      else startLocked device points created (set_entry (d_ID device) (rm_entry (d_ID device) m) m))"

fun start_each :: "(int \<Rightarrow> string + Point list) \<Rightarrow> (Device \<Rightarrow> Point list \<Rightarrow> string option) \<Rightarrow>
    Device list \<Rightarrow> Manager \<Rightarrow> string list \<times> Manager" where
  "start_each points created [] m = ([], m)"
| "start_each points created (device # rest) m =
     (let (r, m') = StartEnabled_one device (points (d_ID device)) (created device) m;
          (errs, m'') = start_each points created rest m'
      in (case r of
            OpError err \<Rightarrow> (''start device '' @ Itoa (d_ID device) @ '': '' @ err) # errs
          | _ \<Rightarrow> errs, m''))"

definition StartEnabled :: "string + Device list \<Rightarrow> (int \<Rightarrow> string + Point list) \<Rightarrow>
    (Device \<Rightarrow> Point list \<Rightarrow> string option) \<Rightarrow> Manager \<Rightarrow> string list \<times> Manager" where
  "StartEnabled devices points created m =
     (case devices of
        Inl err \<Rightarrow> ([''list enabled devices: '' @ err], m)
      | Inr ds \<Rightarrow> start_each points created ds m)"

definition StopAll_one :: "int \<Rightarrow> valmap \<Rightarrow> string option \<Rightarrow> Manager \<Rightarrow> call" where
  "StopAll_one d vals closeErr m =
     (case stop_begin WaitStopAll d vals closeErr (set_entry d ((rm_entry d m)\<lparr>dr_held := True\<rparr>) m) of
        (Some m1, _) \<Rightarrow> Waits m1
      | (None, m1) \<Rightarrow> Returned OpOk (set_entry d ((rm_entry d m1)\<lparr>dr_held := False\<rparr>) m1))"

text \<open>The end of the wait: the goroutine ended, or the caller's context did with \<open>ctxErr\<close>.\<close>

definition wait_over :: "string option \<Rightarrow> int \<Rightarrow> string + Point list \<Rightarrow> (Point list \<Rightarrow> string option) \<Rightarrow> Manager \<Rightarrow>
    op_result \<times> Manager" where
  "wait_over ctxErr d points created m =
     (case rm_waiting m d of
        None \<Rightarrow> (OpOk, m)
      | Some (p, r, closeErr) \<Rightarrow>
          let m0 = m\<lparr>rm_waiting := (rm_waiting m)(d := None)\<rparr>;
              outcome =
                (case ctxErr of
                   Some err \<Rightarrow> OpError (''stop device: '' @ err)
                 | None \<Rightarrow>
                     (case closeErr of Some err \<Rightarrow> OpError (''close device runner: '' @ err) | None \<Rightarrow> OpOk))
          in case p of
               WaitStop \<Rightarrow> finish_op d (outcome, m0)
             | WaitStopAll \<Rightarrow> (outcome, set_entry d ((rm_entry d m0)\<lparr>dr_held := False\<rparr>) m0)
             | WaitRestart device \<Rightarrow>
                 finish_op d (if outcome \<noteq> OpOk then (outcome, m0) else startLocked device points created m0))"

text \<open>The end of a runner's goroutine.\<close>

definition runner_exit :: "nat \<Rightarrow> valmap \<Rightarrow> Manager \<Rightarrow> Manager" where
  "runner_exit r vals m =
     (let d = rn_device (rm_runners m ! r); e = rm_entry d m;
          m' = (if dr_runner e = Some r
                then set_entry d (e\<lparr>dr_lastValues := vals, dr_runner := None, dr_state := StateStopped\<rparr>) m
                else m)
      in m'\<lparr>rm_runners := (rm_runners m)[r := (rm_runners m ! r)\<lparr>rn_done := True\<rparr>]\<rparr>)"

record Snapshot =
  sn_DeviceID :: int
  sn_State :: string
  sn_Operation :: string
  sn_LastError :: string
  sn_LastCollectedAt :: "instant option"
  sn_LoadedConfigVersion :: int
  sn_ConfigPending :: bool
  sn_Values :: valmap

definition rm_Snapshot :: "int \<Rightarrow> string + Device \<Rightarrow> (nat \<Rightarrow> valmap) \<Rightarrow> Manager \<Rightarrow> string + Snapshot" where
  "rm_Snapshot d device live m =
     (case device of
        Inl err \<Rightarrow> Inl err
      | Inr dev \<Rightarrow>
          let e = rm_entry d m in
          Inr \<lparr>sn_DeviceID = d, sn_State = dr_state e, sn_Operation = dr_operation e,
            sn_LastError = dr_lastError e, sn_LastCollectedAt = dr_lastCollectedAt e,
            sn_LoadedConfigVersion = dr_loadedConfigVersion e,
            sn_ConfigPending = (dr_loadedConfigVersion e \<noteq> 0 \<and> d_ConfigVersion dev \<noteq> dr_loadedConfigVersion e),
            sn_Values = (case dr_runner e of Some r \<Rightarrow> live r | None \<Rightarrow> dr_lastValues e)\<rparr>)"

section \<open>Interleaving\<close>

inductive rt_step :: "Manager \<Rightarrow> Manager \<Rightarrow> bool" where
  Start: "(\<And>dev. enabled = Inr dev \<Longrightarrow> d_ID dev = d) \<Longrightarrow>
    rt_step m (snd (Start d enabled points created m))"
| Stop: "Stop d disableErr vals closeErr m = Returned r m' \<or> Stop d disableErr vals closeErr m = Waits m' \<Longrightarrow>
    rt_step m m'"
| Restart: "(\<And>dev. enabled = Inr dev \<Longrightarrow> d_ID dev = d) \<Longrightarrow>
    Restart d enabled points created vals closeErr m = Returned r m' \<or>
    Restart d enabled points created vals closeErr m = Waits m' \<Longrightarrow> rt_step m m'"
| StartEnabled: "\<not> dr_held (rm_entry (d_ID device) m) \<Longrightarrow>
    rt_step m (snd (StartEnabled_one device points created m))"
| StopAll: "\<not> dr_held (rm_entry d m) \<Longrightarrow>
    StopAll_one d vals closeErr m = Returned r m' \<or> StopAll_one d vals closeErr m = Waits m' \<Longrightarrow> rt_step m m'"
| Done: "rm_waiting m d = Some (p, r, closeErr) \<Longrightarrow> rn_done (rm_runners m ! r) \<Longrightarrow>
    rt_step m (snd (wait_over None d points created m))"
| Timeout: "rm_waiting m d = Some (p, r, closeErr) \<Longrightarrow>
    rt_step m (snd (wait_over (Some ctxErr) d points created m))"
| Exit: "r < length (rm_runners m) \<Longrightarrow> \<not> rn_done (rm_runners m ! r) \<Longrightarrow> rt_step m (runner_exit r vals m)"
| Sink: "r < length (rm_runners m) \<Longrightarrow> d = rn_device (rm_runners m ! r) \<Longrightarrow>
    rt_step m (set_entry d (sink ev (rm_entry d m)) m)"

inductive rt_reachable :: "Manager \<Rightarrow> bool" where
  Init: "rt_reachable NewManager"
| Step: "rt_reachable m \<Longrightarrow> rt_step m m' \<Longrightarrow> rt_reachable m'"

section \<open>The invariant\<close>

text \<open>
  Live goroutines and registered runners are the same thing, so a device has at most one; a
  waiting call holds its device's mutex and waits for a runner that is cancelled.
\<close>

definition runner_ok :: "Manager \<Rightarrow> int \<Rightarrow> nat \<Rightarrow> bool" where
  "runner_ok m d r \<longleftrightarrow>
     r < length (rm_runners m) \<and> rn_device (rm_runners m ! r) = d \<and> \<not> rn_done (rm_runners m ! r)"

definition wait_ok :: "Manager \<Rightarrow> int \<Rightarrow> pending \<Rightarrow> nat \<Rightarrow> bool" where
  "wait_ok m d p r \<longleftrightarrow>
     dr_held (rm_entry d m) \<and> r < length (rm_runners m) \<and> rn_device (rm_runners m ! r) = d \<and>
     rn_cancelled (rm_runners m ! r) \<and>
     (dr_runner (rm_entry d m) \<noteq> None \<longrightarrow> dr_runner (rm_entry d m) = Some r) \<and>
     (case p of WaitRestart dev \<Rightarrow> d_ID dev = d | _ \<Rightarrow> True)"

definition rt_inv :: "Manager \<Rightarrow> bool" where
  "rt_inv m \<longleftrightarrow>
     (\<forall>d r. dr_runner (rm_entry d m) = Some r \<longleftrightarrow> runner_ok m d r) \<and>
     (\<forall>d p r ce. rm_waiting m d = Some (p, r, ce) \<longrightarrow> wait_ok m d p r)"

lemma rt_invD:
  assumes "rt_inv m"
  shows "dr_runner (rm_entry d m) = Some r \<longleftrightarrow> runner_ok m d r"
    and "rm_waiting m d = Some (p, r, ce) \<Longrightarrow> wait_ok m d p r"
  using assms unfolding rt_inv_def by blast+

lemma rt_invI:
  assumes "\<And>d r. dr_runner (rm_entry d m) = Some r \<longleftrightarrow> runner_ok m d r"
    and "\<And>d p r ce. rm_waiting m d = Some (p, r, ce) \<Longrightarrow> wait_ok m d p r"
  shows "rt_inv m"
  using assms unfolding rt_inv_def by blast

lemma rm_entry_set [simp]: "rm_entry d' (set_entry d e m) = (if d' = d then e else rm_entry d' m)"
  by (simp add: rm_entry_def set_entry_def)

lemma set_entry_fields [simp]:
  "rm_runners (set_entry d e m) = rm_runners m" "rm_waiting (set_entry d e m) = rm_waiting m"
  by (simp_all add: set_entry_def)

lemma rm_entry_frame [simp]:
  "rm_entry d (m\<lparr>rm_runners := rs\<rparr>) = rm_entry d m" "rm_entry d (m\<lparr>rm_waiting := w\<rparr>) = rm_entry d m"
  by (simp_all add: rm_entry_def)

lemma rm_entry_NewManager [simp]: "rm_entry d NewManager = new_entry"
  by (simp add: rm_entry_def NewManager_def)

lemma runner_ok_frame [simp]:
  "runner_ok (set_entry d e m) = runner_ok m" "runner_ok (m\<lparr>rm_waiting := w\<rparr>) = runner_ok m"
  by (intro ext, simp add: runner_ok_def)+

lemma inv_set:
  assumes inv: "rt_inv m" and same: "dr_runner e = dr_runner (rm_entry d m)"
    and held: "rm_waiting m d \<noteq> None \<Longrightarrow> dr_held e"
  shows "rt_inv (set_entry d e m)"
proof (rule rt_invI)
  show "dr_runner (rm_entry d' (set_entry d e m)) = Some r \<longleftrightarrow> runner_ok (set_entry d e m) d' r" for d' r
    using rt_invD(1) [OF inv, of d' r] same by (cases "d' = d") (simp_all)
  show "wait_ok (set_entry d e m) d' p r" if "rm_waiting (set_entry d e m) d' = Some (p, r, ce)" for d' p r ce
  proof -
    have "rm_waiting m d' = Some (p, r, ce)" using that by simp
    with rt_invD(2) [OF inv this] held show ?thesis
      by (cases "d' = d") (simp_all add: wait_ok_def same)
  qed
qed

lemma inv_clear: "rt_inv m \<Longrightarrow> rt_inv (m\<lparr>rm_waiting := (rm_waiting m)(d := None)\<rparr>)"
  by (rule rt_invI)
    (auto simp: wait_ok_def dest: rt_invD(1) rt_invD(2) [unfolded wait_ok_def] split: if_splits)

lemma startLocked_fields:
  "rm_waiting (snd (startLocked device points created m)) = rm_waiting m"
  "dr_held (rm_entry d (snd (startLocked device points created m))) = dr_held (rm_entry d m)"
  by (auto simp: startLocked_def Let_def setError_def split: sum.split option.split)

lemma new_runner_inv:
  assumes inv: "rt_inv m" and none: "dr_runner (rm_entry d m) = None" and w: "rm_waiting m d = None"
    and e: "dr_runner e = Some (length (rm_runners m))"
  shows "rt_inv ((set_entry d e m)\<lparr>rm_runners := rm_runners m @
      [\<lparr>rn_device = d, rn_cancelled = False, rn_done = False\<rparr>]\<rparr>)"
    (is "rt_inv ?m")
proof (rule rt_invI)
  fix d' r
  have old: "r < length (rm_runners m) \<Longrightarrow> runner_ok ?m d' r = runner_ok m d' r"
    by (simp add: runner_ok_def nth_append)
  have new: "runner_ok ?m d' (length (rm_runners m)) \<longleftrightarrow> d' = d" by (auto simp: runner_ok_def)
  have out: "runner_ok m d r \<Longrightarrow> False" for r using rt_invD(1) [OF inv, of d r] none by simp
  have bound: "runner_ok m d' r \<Longrightarrow> r < length (rm_runners m)" by (simp add: runner_ok_def)
  have "runner_ok ?m d' r \<Longrightarrow> r \<le> length (rm_runners m)" by (simp add: runner_ok_def)
  then consider "r < length (rm_runners m)" | "r = length (rm_runners m)" | "\<not> runner_ok ?m d' r" "r > length (rm_runners m)"
    by linarith
  then show "dr_runner (rm_entry d' ?m) = Some r \<longleftrightarrow> runner_ok ?m d' r"
  proof cases
    case 1
    then show ?thesis using old rt_invD(1) [OF inv, of d' r] e out by (cases "d' = d") auto
  next
    case 2
    then show ?thesis using new e rt_invD(1) [OF inv, of d' r] bound by (cases "d' = d") auto
  next
    case 3
    then show ?thesis using e rt_invD(1) [OF inv, of d' r] bound by (cases "d' = d") auto
  qed
next
  fix d' p r ce
  assume "rm_waiting ?m d' = Some (p, r, ce)"
  then have "rm_waiting m d' = Some (p, r, ce)" "d' \<noteq> d" using w by auto
  with rt_invD(2) [OF inv this(1)] show "wait_ok ?m d' p r"
    by (simp add: wait_ok_def nth_append)
qed

lemma startLocked_inv:
  assumes "rt_inv m" "rm_waiting m (d_ID device) = None"
  shows "rt_inv (snd (startLocked device points created m))"
proof -
  let ?d = "d_ID device"
  have err: "rt_inv (set_entry ?d (setError x (rm_entry ?d m)) m)" for x
    using assms by (intro inv_set) (simp_all add: setError_def)
  show ?thesis
    using assms err by (auto simp: startLocked_def Let_def split: sum.split option.split intro!: new_runner_inv)
qed

lemma finish_op_inv:
  assumes "rt_inv (snd rm)" "rm_waiting (snd rm) d = None"
  shows "rt_inv (snd (finish_op d rm))"
  using assms unfolding finish_op_def snd_conv by (intro inv_set) (simp_all add: endOperation_def)

lemma cancel_inv:
  assumes inv: "rt_inv m" and r: "dr_runner (rm_entry d m) = Some r" and h: "dr_held (rm_entry d m)"
    and p: "case p of WaitRestart dev \<Rightarrow> d_ID dev = d | _ \<Rightarrow> True"
  shows "rt_inv (m\<lparr>rm_runners := (rm_runners m)[r := (rm_runners m ! r)\<lparr>rn_cancelled := True\<rparr>],
       rm_waiting := (rm_waiting m)(d \<mapsto> (p, r, ce))\<rparr>)"
    (is "rt_inv ?m")
proof -
  have ok: "runner_ok m d r" using rt_invD(1) [OF inv] r by simp
  let ?rs = "(rm_runners m)[r := (rm_runners m ! r)\<lparr>rn_cancelled := True\<rparr>]"
  have rs: "rn_device (?rs ! i) = rn_device (rm_runners m ! i)"
    "rn_done (?rs ! i) = rn_done (rm_runners m ! i)"
    "rn_cancelled (?rs ! i) = (rn_cancelled (rm_runners m ! i) \<or> i = r)" for i
    using ok by (auto simp: runner_ok_def nth_list_update)
  have same: "runner_ok ?m d' r' \<longleftrightarrow> runner_ok m d' r'" for d' r'
    by (simp add: runner_ok_def rs del: runner_ok_frame)
  show ?thesis
  proof (rule rt_invI)
    show "dr_runner (rm_entry d' ?m) = Some r' \<longleftrightarrow> runner_ok ?m d' r'" for d' r'
      unfolding same using rt_invD(1) [OF inv, of d' r'] by simp
  next
    fix d' p' r' ce'
    assume w: "rm_waiting ?m d' = Some (p', r', ce')"
    show "wait_ok ?m d' p' r'"
    proof (cases "d' = d")
      case True
      with w have "p' = p" "r' = r" by auto
      with True ok r h p show ?thesis by (simp add: wait_ok_def runner_ok_def rs)
    next
      case False
      with w have "rm_waiting m d' = Some (p', r', ce')" by simp
      from rt_invD(2) [OF inv this] show ?thesis by (simp add: wait_ok_def rs)
    qed
  qed
qed

lemma stop_begin_inv:
  assumes inv: "rt_inv m" and h: "dr_held (rm_entry d m)" and w: "rm_waiting m d = None"
    and p: "case p of WaitRestart dev \<Rightarrow> d_ID dev = d | _ \<Rightarrow> True"
    and res: "stop_begin p d vals ce m = (x, m')"
  shows "rt_inv m' \<and> (x = None \<longrightarrow> rm_waiting m' d = None \<and> dr_runner (rm_entry d m') = None) \<and>
    (x = None \<or> x = Some m')"
proof (cases "dr_runner (rm_entry d m)")
  case None
  then have "rt_inv (set_entry d ((rm_entry d m)\<lparr>dr_state := StateStopped\<rparr>) m)"
    using inv w by (intro inv_set) simp_all
  then show ?thesis using w res None by (auto simp: stop_begin_def)
next
  case (Some r)
  let ?m0 = "set_entry d ((rm_entry d m)\<lparr>dr_state := StateStopping, dr_lastValues := vals\<rparr>) m"
  have "rt_inv ?m0" using inv w by (intro inv_set) simp_all
  from cancel_inv [OF this, of d r p ce] have "rt_inv m'"
    using res Some h p by (auto simp: stop_begin_def Let_def)
  then show ?thesis using res Some by (auto simp: stop_begin_def Let_def)
qed

lemma runner_exit_inv:
  assumes inv: "rt_inv m" and r: "r < length (rm_runners m)" "\<not> rn_done (rm_runners m ! r)"
  shows "rt_inv (runner_exit r vals m)" (is "rt_inv ?m")
proof -
  let ?d = "rn_device (rm_runners m ! r)"
  have ok: "runner_ok m ?d r" using r by (simp add: runner_ok_def)
  then have e: "dr_runner (rm_entry ?d m) = Some r" using rt_invD(1) [OF inv] by blast
  let ?rs = "(rm_runners m)[r := (rm_runners m ! r)\<lparr>rn_done := True\<rparr>]"
  have m: "rm_runners ?m = ?rs" "rm_waiting ?m = rm_waiting m"
    "dr_runner (rm_entry d ?m) = (if d = ?d then None else dr_runner (rm_entry d m))"
    "dr_held (rm_entry d ?m) = dr_held (rm_entry d m)" for d
    using e by (simp_all add: runner_exit_def Let_def)
  have rs: "rn_device (?rs ! i) = rn_device (rm_runners m ! i)"
    "rn_done (?rs ! i) = (rn_done (rm_runners m ! i) \<or> i = r)"
    "rn_cancelled (?rs ! i) = rn_cancelled (rm_runners m ! i)" for i
    using r by (auto simp: nth_list_update)
  have same: "runner_ok ?m d r' \<longleftrightarrow> runner_ok m d r' \<and> r' \<noteq> r" for d r'
    by (auto simp: runner_ok_def m rs)
  show ?thesis
  proof (rule rt_invI)
    show "dr_runner (rm_entry d ?m) = Some r' \<longleftrightarrow> runner_ok ?m d r'" for d r'
    proof (cases "d = ?d")
      case True
      have "runner_ok m ?d r' \<Longrightarrow> r' = r" using rt_invD(1) [OF inv, of ?d r'] e by simp
      with True show ?thesis by (auto simp: m same)
    next
      case False
      then have "\<not> runner_ok m d r" by (auto simp: runner_ok_def)
      with False rt_invD(1) [OF inv, of d r'] show ?thesis by (auto simp: m same)
    qed
  next
    fix d p r' ce
    assume "rm_waiting ?m d = Some (p, r', ce)"
    then have "rm_waiting m d = Some (p, r', ce)" by (simp add: m)
    from rt_invD(2) [OF inv this] show "wait_ok ?m d p r'" by (simp add: wait_ok_def m rs)
  qed
qed


lemma not_held_not_waiting: "rt_inv m \<Longrightarrow> \<not> dr_held (rm_entry d m) \<Longrightarrow> rm_waiting m d = None"
  by (cases "rm_waiting m d") (auto dest: rt_invD(2) simp: wait_ok_def)

lemma tryBegin_Some:
  assumes "rt_inv m" "tryBeginOperation operation (rm_entry d m) = Some e"
  shows "rt_inv (set_entry d e m)" "rm_waiting m d = None" "dr_held e"
    "dr_runner e = dr_runner (rm_entry d m)"
  using assms not_held_not_waiting [OF assms(1), of d]
  by (auto simp: tryBeginOperation_def intro!: inv_set split: if_splits)

lemma Start_inv:
  assumes inv: "rt_inv m" and dev: "\<And>dev. enabled = Inr dev \<Longrightarrow> d_ID dev = d"
  shows "rt_inv (snd (Start d enabled points created m))"
proof (cases "tryBeginOperation ''start'' (rm_entry d m)")
  case None
  then show ?thesis using inv by (simp add: Start_def)
next
  case (Some e)
  note e = tryBegin_Some [OF inv Some]
  show ?thesis
  proof (cases enabled)
    case (Inl err)
    have "rt_inv (snd (finish_op d (OpError (''enable device: '' @ err), set_entry d e m)))"
      using e by (intro finish_op_inv) simp_all
    with Some Inl show ?thesis by (simp add: Start_def)
  next
    case (Inr device)
    then have "d_ID device = d" by (rule dev)
    then have "rt_inv (snd (finish_op d (startLocked device points created (set_entry d e m))))"
      using e by (intro finish_op_inv startLocked_inv) (simp_all add: startLocked_fields)
    with Some Inr show ?thesis by (simp add: Start_def)
  qed
qed

lemma Stop_inv:
  assumes inv: "rt_inv m"
    and res: "Stop d disableErr vals closeErr m = Returned r m' \<or> Stop d disableErr vals closeErr m = Waits m'"
  shows "rt_inv m'"
proof (cases "tryBeginOperation ''stop'' (rm_entry d m)")
  case None
  then show ?thesis using inv res by (simp add: Stop_def)
next
  case (Some e)
  note e = tryBegin_Some [OF inv Some]
  have "rt_inv (snd (finish_op d (x, set_entry d e m)))" for x
    using e by (intro finish_op_inv) simp_all
  then have fin: "finish_op d (x, set_entry d e m) = (r', m'') \<Longrightarrow> rt_inv m''" for x r' m''
    by (metis snd_conv)
  obtain x m1 where b: "stop_begin WaitStop d vals closeErr (set_entry d e m) = (x, m1)" by fastforce
  have sb: "rt_inv m1 \<and> (x = None \<longrightarrow> rm_waiting m1 d = None \<and> dr_runner (rm_entry d m1) = None) \<and>
      (x = None \<or> x = Some m1)"
    using e by (intro stop_begin_inv [OF _ _ _ _ b]) simp_all
  then have "x = None \<Longrightarrow> rt_inv (snd (finish_op d (OpOk, m1)))"
    by (intro finish_op_inv) simp_all
  then have fin1: "x = None \<Longrightarrow> finish_op d (OpOk, m1) = (r', m'') \<Longrightarrow> rt_inv m''" for r' m''
    by (metis snd_conv)
  show ?thesis
    using res Some fin fin1 sb b
    by (auto simp: Stop_def Let_def simp del: append.simps split: option.splits prod.splits dest: fin fin1)
qed

lemma Restart_inv:
  assumes inv: "rt_inv m" and dev: "\<And>dev. enabled = Inr dev \<Longrightarrow> d_ID dev = d"
    and res: "Restart d enabled points created vals closeErr m = Returned r m' \<or>
      Restart d enabled points created vals closeErr m = Waits m'"
  shows "rt_inv m'"
proof (cases "tryBeginOperation ''restart'' (rm_entry d m)")
  case None
  then show ?thesis using inv res by (simp add: Restart_def)
next
  case (Some e)
  note e = tryBegin_Some [OF inv Some]
  show ?thesis
  proof (cases enabled)
    case (Inl err)
    have "rt_inv (snd (finish_op d (OpError (''enable device: '' @ err), set_entry d e m)))"
      using e by (intro finish_op_inv) simp_all
    with Inl Some res show ?thesis by (auto simp: Restart_def split: prod.splits)
  next
    case (Inr device)
    then have id: "d_ID device = d" by (rule dev)
    obtain x m1 where b: "stop_begin (WaitRestart device) d vals closeErr (set_entry d e m) = (x, m1)"
      by fastforce
    have sb: "rt_inv m1 \<and> (x = None \<longrightarrow> rm_waiting m1 d = None \<and> dr_runner (rm_entry d m1) = None) \<and>
        (x = None \<or> x = Some m1)"
      using e id by (intro stop_begin_inv [OF _ _ _ _ b]) simp_all
    then have "x = None \<Longrightarrow> rt_inv (snd (finish_op d (startLocked device points created m1)))"
      using id by (intro finish_op_inv startLocked_inv) (simp_all add: startLocked_fields)
    with res Some Inr sb b show ?thesis
      by (auto simp: Restart_def Let_def split: option.splits prod.splits)
  qed
qed

lemma StartEnabled_one_inv:
  assumes inv: "rt_inv m" and h: "\<not> dr_held (rm_entry (d_ID device) m)"
  shows "rt_inv (snd (StartEnabled_one device points created m))"
proof -
  let ?d = "d_ID device"
  have w: "rm_waiting m ?d = None" by (rule not_held_not_waiting [OF inv h])
  then have "rt_inv (set_entry ?d (rm_entry ?d m) m)" using inv by (intro inv_set) simp_all
  then show ?thesis using w inv by (auto simp: StartEnabled_one_def intro: startLocked_inv)
qed

lemma StopAll_one_inv:
  assumes inv: "rt_inv m" and h: "\<not> dr_held (rm_entry d m)"
    and res: "StopAll_one d vals closeErr m = Returned r m' \<or> StopAll_one d vals closeErr m = Waits m'"
  shows "rt_inv m'"
proof -
  let ?m = "set_entry d ((rm_entry d m)\<lparr>dr_held := True\<rparr>) m"
  have w: "rm_waiting m d = None" by (rule not_held_not_waiting [OF inv h])
  have inv': "rt_inv ?m" using inv w by (intro inv_set) simp_all
  obtain x m1 where b: "stop_begin WaitStopAll d vals closeErr ?m = (x, m1)" by fastforce
  have sb: "rt_inv m1 \<and> (x = None \<longrightarrow> rm_waiting m1 d = None \<and> dr_runner (rm_entry d m1) = None) \<and>
      (x = None \<or> x = Some m1)"
    using inv' w by (intro stop_begin_inv [OF _ _ _ _ b]) simp_all
  then have "x = None \<Longrightarrow> rt_inv (set_entry d ((rm_entry d m1)\<lparr>dr_held := False\<rparr>) m1)"
    by (intro inv_set) simp_all
  with res sb b show ?thesis by (auto simp: StopAll_one_def split: option.splits)
qed

lemma wait_over_inv:
  assumes inv: "rt_inv m" and w: "rm_waiting m d = Some (p, r, ce)"
  shows "rt_inv (snd (wait_over ctxErr d points created m))"
proof -
  let ?m = "m\<lparr>rm_waiting := (rm_waiting m)(d := None)\<rparr>"
  have inv': "rt_inv ?m" by (rule inv_clear [OF inv])
  have fin: "rt_inv (snd (finish_op d (x, ?m)))" for x
    using inv' by (intro finish_op_inv) simp_all
  have drop: "rt_inv (set_entry d ((rm_entry d ?m)\<lparr>dr_held := False\<rparr>) ?m)"
    using inv' by (intro inv_set) simp_all
  show ?thesis
  proof (cases p)
    case (WaitRestart device)
    have "d_ID device = d" using rt_invD(2) [OF inv w] WaitRestart by (simp add: wait_ok_def)
    then have "rt_inv (snd (finish_op d (startLocked device points created ?m)))"
      using inv' by (intro finish_op_inv startLocked_inv) (simp_all add: startLocked_fields)
    with fin w WaitRestart show ?thesis by (simp add: wait_over_def Let_def)
  qed (use w fin drop in \<open>simp_all add: wait_over_def Let_def\<close>)
qed

lemma rt_step_inv:
  assumes "rt_step m m'" "rt_inv m"
  shows "rt_inv m'"
  using assms(1)
proof cases
  case (Sink r d ev)
  have "rt_inv (set_entry d (sink ev (rm_entry d m)) m)"
    using assms(2) rt_invD(2) [OF assms(2), of d]
    by (intro inv_set) (auto simp: sink_def wait_ok_def)
  with Sink show ?thesis by simp
next
  case (Start enabled d points created)
  with Start_inv [OF assms(2)] show ?thesis by simp
next
  case (Stop d disableErr vals closeErr r)
  then show ?thesis by (intro Stop_inv [OF assms(2)])
next
  case (Restart enabled d points created vals closeErr r)
  show ?thesis by (rule Restart_inv [OF assms(2) _ Restart(2)]) (rule Restart(1))
next
  case (StartEnabled device points created)
  with StartEnabled_one_inv [OF assms(2)] show ?thesis by simp
next
  case (StopAll d vals closeErr r)
  then show ?thesis by (intro StopAll_one_inv [OF assms(2)])
next
  case (Done d p r closeErr points created)
  with wait_over_inv [OF assms(2)] show ?thesis by simp
next
  case (Timeout d p r closeErr ctxErr points created)
  with wait_over_inv [OF assms(2)] show ?thesis by simp
next
  case (Exit r vals)
  with runner_exit_inv [OF assms(2)] show ?thesis by simp
qed

lemma rt_reachable_inv: "rt_reachable m \<Longrightarrow> rt_inv m"
proof (induction rule: rt_reachable.induct)
  case Init
  show ?case by (simp add: rt_inv_def runner_ok_def new_entry_def) (simp add: NewManager_def)
next
  case (Step m m')
  then show ?case by (blast intro: rt_step_inv)
qed

section \<open>Properties\<close>

definition live :: "Manager \<Rightarrow> int \<Rightarrow> nat set" where
  "live m d = {r. runner_ok m d r}"

lemma live_registered:
  assumes "rt_reachable m"
  shows "live m d = (case dr_runner (rm_entry d m) of None \<Rightarrow> {} | Some r \<Rightarrow> {r})"
proof -
  have "r \<in> live m d \<longleftrightarrow> dr_runner (rm_entry d m) = Some r" for r
    using rt_invD(1) [OF rt_reachable_inv [OF assms], of d r] by (simp add: live_def)
  then show ?thesis by (auto split: option.split)
qed

lemma waiting_registered:
  assumes "rt_reachable m" "rm_waiting m d = Some (p, r, ce)"
  shows "live m d \<subseteq> {r}" "rn_done (rm_runners m ! r) \<Longrightarrow> dr_runner (rm_entry d m) = None"
    "dr_held (rm_entry d m)" "case p of WaitRestart dev \<Rightarrow> d_ID dev = d | _ \<Rightarrow> True"
proof -
  note w = rt_invD(2) [OF rt_reachable_inv [OF assms(1)] assms(2), unfolded wait_ok_def]
  show "dr_held (rm_entry d m)" "case p of WaitRestart dev \<Rightarrow> d_ID dev = d | _ \<Rightarrow> True"
    using w by blast+
  show l: "live m d \<subseteq> {r}"
    using w unfolding live_registered [OF assms(1)] by (auto split: option.split)
  show "dr_runner (rm_entry d m) = None" if "rn_done (rm_runners m ! r)"
  proof (rule ccontr)
    assume "dr_runner (rm_entry d m) \<noteq> None"
    then have "dr_runner (rm_entry d m) = Some r" using w by blast
    then have "runner_ok m d r" using rt_invD(1) [OF rt_reachable_inv [OF assms(1)]] by blast
    then show False using that by (simp add: runner_ok_def)
  qed
qed

text \<open>
  C5: however the lifecycle calls, the ends of waits, the ends of collector goroutines and the
  status events interleave, a device never has two collectors running, and the one that runs is
  the one the manager has registered.
\<close>

theorem one_collector_per_device:
  assumes "rt_reachable m" "r1 < length (rm_runners m)" "r2 < length (rm_runners m)"
    and "\<not> rn_done (rm_runners m ! r1)" "\<not> rn_done (rm_runners m ! r2)"
    and "rn_device (rm_runners m ! r1) = d" "rn_device (rm_runners m ! r2) = d"
  shows "r1 = r2 \<and> dr_runner (rm_entry d m) = Some r1"
proof -
  have "dr_runner (rm_entry d m) = Some r" if "runner_ok m d r" for r
    using rt_invD(1) [OF rt_reachable_inv [OF assms(1)]] that by blast
  from this [of r1] this [of r2] show ?thesis using assms(2-) by (simp add: runner_ok_def)
qed

text \<open>
  While a stop or a restart of a device waits for its collector to end, every other lifecycle
  call for that device is refused with \<open>ErrDeviceBusy\<close> and changes nothing.
\<close>

lemma lifecycle_calls_exclude:
  assumes "rt_reachable m" "rm_waiting m d \<noteq> None"
  shows "Start d enabled points created m = (OpBusy, m) \<and>
    Stop d disableErr vals closeErr m = Returned OpBusy m \<and>
    Restart d enabled points created vals closeErr m = Returned OpBusy m"
proof -
  have "dr_held (rm_entry d m)" using waiting_registered(3) assms by fastforce
  then show ?thesis by (simp add: Start_def Stop_def Restart_def tryBeginOperation_def)
qed

text \<open>
  When the wait of a stop ends because the collector did, the device has no collector left,
  the operation is over and the mutex free, and the result is the error of \<open>Close\<close>, if any.
\<close>

lemma Stop_leaves_no_collector:
  assumes "rt_reachable m" "rm_waiting m d = Some (WaitStop, r, closeErr)" "rn_done (rm_runners m ! r)"
    and "wait_over None d points created m = (res, m')"
  shows "live m' d = {} \<and> dr_runner (rm_entry d m') = None \<and> \<not> dr_held (rm_entry d m') \<and>
    dr_operation (rm_entry d m') = [] \<and>
    res = (case closeErr of None \<Rightarrow> OpOk | Some err \<Rightarrow> OpError (''close device runner: '' @ err))"
proof -
  note none = waiting_registered(2) [OF assms(1,2,3)]
  have "rt_reachable m'"
    using rt_reachable.Step [OF assms(1) rt_step.Done [OF assms(2,3), of points created]] assms(4) by simp
  from live_registered [OF this, of d] show ?thesis
    using assms(2,4) none
    by (auto simp: wait_over_def Let_def finish_op_def endOperation_def split: option.splits)
qed

text \<open>
  A restart whose old collector has ended without an error of \<open>Close\<close>, and whose points and
  runner could be had, leaves exactly one collector, a new one that was not cancelled, and the
  configuration version it was loaded with: asked for the same configuration the snapshot then
  says that nothing is pending.
\<close>

lemma Restart_loads_configuration:
  assumes "rt_reachable m" "rm_waiting m d = Some (WaitRestart device, r, None)"
    and "rn_done (rm_runners m ! r)" "created pts = None"
    and "wait_over None d (Inr pts) created m = (res, m')"
  shows "res = OpOk \<and> live m' d = {length (rm_runners m)} \<and>
    \<not> rn_cancelled (rm_runners m' ! length (rm_runners m)) \<and>
    dr_loadedConfigVersion (rm_entry d m') = d_ConfigVersion device \<and>
    (\<exists>sn. rm_Snapshot d (Inr device) values_of m' = Inr sn \<and> \<not> sn_ConfigPending sn \<and>
       sn_State sn = StateStarting \<and> sn_Operation sn = [] \<and> sn_LastError sn = [] \<and>
       sn_Values sn = values_of (length (rm_runners m)))"
proof -
  note none = waiting_registered(2) [OF assms(1,2,3)]
  have id: "d_ID device = d" using waiting_registered(4) [OF assms(1,2)] by simp
  have reach: "rt_reachable m'"
    using rt_reachable.Step [OF assms(1) rt_step.Done [OF assms(2,3), of "Inr pts" created]] assms(5) by simp
  have m': "wait_over None d (Inr pts) created m =
      finish_op d (startLocked device (Inr pts) created (m\<lparr>rm_waiting := (rm_waiting m)(d := None)\<rparr>))"
    using assms(2) by (simp add: wait_over_def)
  have e: "dr_runner (rm_entry d m') = Some (length (rm_runners m))" "res = OpOk"
    "rm_runners m' = rm_runners m @ [\<lparr>rn_device = d, rn_cancelled = False, rn_done = False\<rparr>]"
    "dr_loadedConfigVersion (rm_entry d m') = d_ConfigVersion device"
    "dr_state (rm_entry d m') = StateStarting" "dr_operation (rm_entry d m') = []"
    "dr_lastError (rm_entry d m') = []"
    using assms(5) [symmetric] none id assms(4)
    unfolding m' by (simp_all add: startLocked_def Let_def finish_op_def endOperation_def)
  then show ?thesis using live_registered [OF reach, of d] by (simp add: rm_Snapshot_def Let_def)
qed

definition started :: "(int \<Rightarrow> string + Point list) \<Rightarrow> (Device \<Rightarrow> Point list \<Rightarrow> string option) \<Rightarrow>
    Device \<Rightarrow> bool" where
  "started points created device \<longleftrightarrow>
     d_Enabled device \<and> (\<exists>pts. points (d_ID device) = Inr pts \<and> created device pts = None)"

definition failed :: "(int \<Rightarrow> string + Point list) \<Rightarrow> (Device \<Rightarrow> Point list \<Rightarrow> string option) \<Rightarrow>
    Device \<Rightarrow> bool" where
  "failed points created device \<longleftrightarrow> d_Enabled device \<and> \<not> started points created device"

lemma startLocked_result:
  assumes "dr_runner (rm_entry (d_ID device) m) = None" "startLocked device points created m = (res, m')"
  shows "(dr_runner (rm_entry (d_ID device) m') \<noteq> None) = (res = OpOk)"
    "(res = OpOk) = (\<exists>pts. points = Inr pts \<and> created pts = None)" "res \<noteq> OpBusy"
    "d \<noteq> d_ID device \<Longrightarrow> rm_entry d m' = rm_entry d m"
  using assms by (auto simp: startLocked_def Let_def setError_def split: sum.splits option.splits)

lemma StartEnabled_one_result:
  assumes "dr_runner (rm_entry (d_ID device) m) = None"
    and "StartEnabled_one device (points (d_ID device)) (created device) m = (res, m')"
  shows "(dr_runner (rm_entry (d_ID device) m') \<noteq> None) = started points created device"
    "(\<exists>err. res = OpError err) = failed points created device"
    "d \<noteq> d_ID device \<Longrightarrow> rm_entry d m' = rm_entry d m"
proof -
  let ?m = "set_entry (d_ID device) (rm_entry (d_ID device) m) m"
  show "(dr_runner (rm_entry (d_ID device) m') \<noteq> None) = started points created device"
    "(\<exists>err. res = OpError err) = failed points created device"
    "d \<noteq> d_ID device \<Longrightarrow> rm_entry d m' = rm_entry d m"
    using assms startLocked_result(1-3) [of device ?m "points (d_ID device)" "created device" res m']
      startLocked_result(4) [of device ?m "points (d_ID device)" "created device" res m' d]
    by (cases res; auto simp: StartEnabled_one_def started_def failed_def split: if_splits)+
qed

lemma start_each_result:
  assumes "distinct (map d_ID ds)" "\<And>device. device \<in> set ds \<Longrightarrow> dr_runner (rm_entry (d_ID device) m) = None"
    and "start_each points created ds m = (errs, m')"
  shows "(\<forall>device\<in>set ds. (dr_runner (rm_entry (d_ID device) m') \<noteq> None) = started points created device) \<and>
    length errs = length (filter (failed points created) ds) \<and>
    (\<forall>d. d \<notin> d_ID ` set ds \<longrightarrow> rm_entry d m' = rm_entry d m)"
  using assms
proof (induction ds arbitrary: m errs m')
  case Nil
  then show ?case by simp
next
  case (Cons device ds)
  obtain r m1 where one: "StartEnabled_one device (points (d_ID device)) (created device) m = (r, m1)"
    by fastforce
  obtain es m2 where rest: "start_each points created ds m1 = (es, m2)" by fastforce
  have none: "dr_runner (rm_entry (d_ID device) m) = None" using Cons.prems(2) by simp
  note res = StartEnabled_one_result [where points = points and created = created, OF none one]
  have free: "dr_runner (rm_entry (d_ID x) m1) = None" if "x \<in> set ds" for x
  proof -
    have "d_ID x \<noteq> d_ID device" using that Cons.prems(1) by (metis distinct.simps(2) imageI list.map(2) set_map)
    with res(3) Cons.prems(2) that show ?thesis by simp
  qed
  have "m' = m2" "length errs = (if failed points created device then 1 else 0) + length es"
    using Cons.prems(3) one rest res(2) by (auto split: op_result.splits)
  moreover have "d_ID device \<notin> d_ID ` set ds" using Cons.prems(1) by auto
  moreover note Cons.IH [OF _ free rest]
  ultimately show ?case using Cons.prems(1) res(1,3) by auto
qed

text \<open>
  At the start of the process every enabled device whose points and runner can be had gets a
  collector, whatever happens to the others; a device that is disabled or fails gets none, each
  failure is reported once, and no device outside the list is touched.
\<close>

lemma StartEnabled_isolates_failures:
  assumes "distinct (map d_ID ds)" "StartEnabled (Inr ds) points created NewManager = (errs, m)"
  shows "(\<forall>device\<in>set ds. (dr_runner (rm_entry (d_ID device) m) \<noteq> None) = started points created device) \<and>
    length errs = length (filter (failed points created) ds) \<and>
    (\<forall>d. d \<notin> d_ID ` set ds \<longrightarrow> rm_entry d m = new_entry)"
  using start_each_result [OF assms(1), of NewManager] assms(2)
  by (simp add: StartEnabled_def new_entry_def)

section \<open>A concrete run\<close>

definition sample_device :: "int \<Rightarrow> Device" where
  "sample_device d = \<lparr>d_ID = d, d_Name = ''plc'', d_Enabled = True, d_Address = ''10.0.0.7'', d_Port = 502,
     d_SlaveID = 1, d_ByteOrder = ''ABCD'', d_TimeoutSec = 3, d_ScanIntervalMs = 1000,
     d_ConfigVersion = 4, d_CreatedAt = 0, d_UpdatedAt = 0\<rparr>"

lemma sample_device_fields [simp]:
  "d_ID (sample_device d) = d" "d_Enabled (sample_device d)" "d_ConfigVersion (sample_device d) = 4"
  by (simp_all add: sample_device_def)

definition run_start :: Manager where
  "run_start = snd (Start 7 (Inr (sample_device 7)) (Inr []) (\<lambda>_. None) NewManager)"

lemma run_start_fields:
  "rm_runners run_start = [\<lparr>rn_device = 7, rn_cancelled = False, rn_done = False\<rparr>]"
  "dr_runner (rm_entry 7 run_start) = Some 0" "\<not> dr_held (rm_entry 7 run_start)"
  by (simp_all add: run_start_def Start_def startLocked_def tryBeginOperation_def new_entry_def
      NewManager_def Let_def finish_op_def endOperation_def rm_entry_NewManager [unfolded NewManager_def])

lemma run_start_reachable: "rt_reachable run_start"
  unfolding run_start_def by (rule rt_reachable.Step [OF rt_reachable.Init rt_step.Start]) simp

definition run_wait :: "pending \<Rightarrow> Manager" where
  "run_wait p = snd (stop_begin p 7 Map.empty None (set_entry 7 ((rm_entry 7 run_start)
     \<lparr>dr_held := True, dr_operation := (if p = WaitStop then ''stop'' else ''restart'')\<rparr>) run_start))"

lemma run_wait_fields:
  "rm_runners (run_wait p) = [\<lparr>rn_device = 7, rn_cancelled = True, rn_done = False\<rparr>]"
  "rm_waiting (run_wait p) 7 = Some (p, 0, None)" "dr_runner (rm_entry 7 (run_wait p)) = Some 0"
  by (simp_all add: run_wait_def stop_begin_def run_start_fields Let_def)

lemma run_wait_calls:
  "Stop 7 None Map.empty None run_start = Waits (run_wait WaitStop)"
  "Restart 7 (Inr dev) (Inr []) (\<lambda>_. None) Map.empty None run_start = Waits (run_wait (WaitRestart dev))"
  by (simp_all add: Stop_def Restart_def tryBeginOperation_def run_start_fields run_wait_def stop_begin_def Let_def)

lemma run_wait_reachable: "rt_reachable (run_wait WaitStop)" "rt_reachable (run_wait (WaitRestart (sample_device 7)))"
proof -
  show "rt_reachable (run_wait WaitStop)"
    by (rule rt_reachable.Step [OF run_start_reachable rt_step.Stop]) (rule disjI2, rule run_wait_calls(1))
  show "rt_reachable (run_wait (WaitRestart (sample_device 7)))"
    by (rule rt_reachable.Step [OF run_start_reachable
          rt_step.Restart [OF _ disjI2 [OF run_wait_calls(2)]]]) simp
qed

definition run_done :: "pending \<Rightarrow> Manager" where
  "run_done p = runner_exit 0 Map.empty (run_wait p)"

lemma run_done_fields:
  "rm_runners (run_done p) = [\<lparr>rn_device = 7, rn_cancelled = True, rn_done = True\<rparr>]"
  "rm_waiting (run_done p) 7 = Some (p, 0, None)"
  by (simp_all add: run_done_def runner_exit_def run_wait_fields Let_def)

lemma run_done_reachable: "rt_reachable (run_done WaitStop)" "rt_reachable (run_done (WaitRestart (sample_device 7)))"
  unfolding run_done_def
  by (rule rt_reachable.Step [OF run_wait_reachable(1) rt_step.Exit]; simp add: run_wait_fields)
    (rule rt_reachable.Step [OF run_wait_reachable(2) rt_step.Exit]; simp add: run_wait_fields)

text \<open>
  When the wait of a stop is cut off by its caller's context, the cancelled collector stays
  registered until its goroutine ends: a start in between reports success and starts nothing.
\<close>

lemma start_after_timed_out_stop:
  "\<exists>m. wait_over (Some ''deadline exceeded'') 7 (Inr []) (\<lambda>_. None) (run_wait WaitStop) =
      (OpError (''stop device: '' @ ''deadline exceeded''), m) \<and>
    fst (Start 7 (Inr (sample_device 7)) (Inr []) (\<lambda>_. None) m) = OpOk \<and>
    rm_runners (snd (Start 7 (Inr (sample_device 7)) (Inr []) (\<lambda>_. None) m)) =
      [\<lparr>rn_device = 7, rn_cancelled = True, rn_done = False\<rparr>]"
  by (simp add: wait_over_def run_wait_fields finish_op_def endOperation_def Start_def
      tryBeginOperation_def startLocked_def Let_def)

theorem one_collector_per_device_witness: "dr_runner (rm_entry 7 run_start) = Some 0"
  using one_collector_per_device [OF run_start_reachable, of 0 0 7] by (simp add: run_start_fields)

theorem lifecycle_calls_exclude_witness:
  "Start 7 (Inr (sample_device 7)) (Inr []) (\<lambda>_. None) (run_wait WaitStop) = (OpBusy, run_wait WaitStop)"
  using lifecycle_calls_exclude [OF run_wait_reachable(1), of 7 "Inr (sample_device 7)" "Inr []" "\<lambda>_. None"]
  by (simp add: run_wait_fields)

theorem Stop_leaves_no_collector_witness:
  "live (snd (wait_over None 7 (Inr []) (\<lambda>_. None) (run_done WaitStop))) 7 = {}"
  using Stop_leaves_no_collector [OF run_done_reachable(1) run_done_fields(2) _ prod.collapse [symmetric],
      of "Inr []" "\<lambda>_. None"]
  by (simp add: run_done_fields)

theorem Restart_loads_configuration_witness:
  "live (snd (wait_over None 7 (Inr []) (\<lambda>_. None) (run_done (WaitRestart (sample_device 7))))) 7 = {1}"
  using Restart_loads_configuration [OF run_done_reachable(2) run_done_fields(2) _ _ prod.collapse [symmetric],
      of "\<lambda>_. None" "[]" "\<lambda>_. Map.empty"]
  by (simp add: run_done_fields)

theorem StartEnabled_isolates_failures_witness:
  "\<exists>err m. StartEnabled (Inr [sample_device 7, sample_device 8])
      (\<lambda>d. if d = 7 then Inl ''locked'' else Inr []) (\<lambda>_ _. None) NewManager = ([err], m) \<and>
    dr_runner (rm_entry 7 m) = None \<and> dr_runner (rm_entry 8 m) \<noteq> None"
proof -
  let ?points = "\<lambda>d. if d = 7 then Inl ''locked'' else Inr []"
  let ?ds = "[sample_device 7, sample_device 8]"
  obtain errs m where r: "StartEnabled (Inr ?ds) ?points (\<lambda>_ _. None) NewManager = (errs, m)"
    by fastforce
  have d: "distinct (map d_ID ?ds)" by simp
  from StartEnabled_isolates_failures [OF d r] have
    "dr_runner (rm_entry 7 m) = None" "dr_runner (rm_entry 8 m) \<noteq> None" "length errs = 1"
    by (simp_all add: started_def failed_def)
  with r show ?thesis by (auto simp: length_Suc_conv)
qed

end
