(* ===== verification/Runner.thy ===== *)
theory Runner
  imports Collector Coordinator ConnManager RuntimeManager "HOL-Library.List_Lexorder" "HOL-Library.Char_ord"
begin

text \<open>
  \<open>internal/collector/runtime.go\<close>: the runner that the lifecycle manager creates for a device.
  It turns stored points into configured points, builds the collector on the connection manager,
  and hands completed scans to the publisher. Here the parts meet: validation, read merging, the
  scan, decoding, the value store and the snapshot for publishing, in one delivery theorem.
\<close>

section \<open>Definitions\<close>

record runtimeRunner =
  rr_device :: Device
  rr_points :: "Point list"
  rr_values :: UniversalDataModel
  rr_conn :: "ConnManager option"
  rr_snapshots :: bool

definition factory_New :: "bool \<Rightarrow> Device \<Rightarrow> Point list \<Rightarrow> string + runtimeRunner" where
  "factory_New snapshots device points =
     (if points = [] then Inl ''device has no configured points''
      else Inr \<lparr>rr_device = device, rr_points = points, rr_values = udm_New, rr_conn = None,
        rr_snapshots = snapshots\<rparr>)"

text \<open>The conversion \<open>byte(r.device.SlaveID)\<close> keeps the low eight bits.\<close>

definition runner_config :: "Device \<Rightarrow> DeviceConfig" where
  "runner_config d =
     \<lparr>dc_Name = d_Name d, dc_Enabled = True, dc_CSV = [],
      dc_Modbus = \<lparr>mb_Address = d_Address d, mb_Port = d_Port d, mb_SlaveID = word_of_int (d_SlaveID d),
        mb_ByteOrder = d_ByteOrder d, mb_TimeoutSec = d_TimeoutSec d,
        mb_ScanIntervalMs = d_ScanIntervalMs d\<rparr>\<rparr>"

definition configured :: "Point \<Rightarrow> PointConfig" where
  "configured p =
     \<lparr>pc_TagName = p_TagName p, pc_Description = [], pc_RegType = p_RegType p,
      pc_Address = p_Address p, pc_DataType = p_DataType p, pc_BitOffset = p_BitOffset p,
      pc_BitLen = p_BitLen p, pc_Writeable = (p_Writeable p = 1)\<rparr>"

definition runner_collector ::
  "((PointConfig \<Rightarrow> PointConfig \<Rightarrow> bool) \<Rightarrow> PointConfig list \<Rightarrow> PointConfig list) \<Rightarrow>
     (string \<Rightarrow> string) \<Rightarrow> runtimeRunner \<Rightarrow> Collector" where
  "runner_collector srt uni r =
     SetScanComplete (NewCollector uni (rr_values r) (OptimizeChunks srt (map configured (rr_points r)))
       (runner_config (rr_device r)) True)"

definition runtimeState :: "int \<Rightarrow> string" where
  "runtimeState state =
     (if state = StateReconnecting then ''reconnecting''
      else if state = StateOffline then ''offline'' else ''online'')"

definition status :: "string \<Rightarrow> string \<Rightarrow> StatusEvent" where
  "status state err = \<lparr>se_State = state, se_LastError = err, se_LastCollectedAt = None\<rparr>"

text \<open>
  \<open>Run\<close> up to the scan loop: the status events it reports, the connection manager it leaves, and
  whether it goes on to scan. \<open>err\<close> is the answer of the first \<open>Connect\<close>, \<open>ctxDone\<close> what
  \<open>ctx.Err()\<close> says after the reconnection.
\<close>

definition Run_connect :: "string option \<Rightarrow> (int \<Rightarrow> bool) \<Rightarrow> (int \<Rightarrow> string option) \<Rightarrow> bool \<Rightarrow>
    StatusEvent list \<times> ConnManager \<times> bool" where
  "Run_connect err cancelled connects ctxDone =
     (let (e, cm) = Connect err NewConnManager;
          starting = [status StateStarting []];
          settled = (\<lambda>cm. if cm_state cm = StateOffline
            then [status ''offline'' ''connection attempts exhausted''] else [status ''online'' []])
      in case e of
           None \<Rightarrow> (starting @ settled cm, cm, True)
         | Some x \<Rightarrow>
             let (_, cm1) = ReconnectWithBackoff cancelled connects cm;
                 events = starting @ [status ''reconnecting'' x]
             in if ctxDone then (events, cm1, False) else (events @ settled cm1, cm1, True))"

text \<open>A tick of \<open>monitorConnectionState\<close>: the state it remembers and the event it reports.\<close>

definition monitor_tick :: "int \<Rightarrow> int \<Rightarrow> int \<times> StatusEvent list" where
  "monitor_tick previous current =
     (if current = previous then (previous, []) else (current, [status (runtimeState current) []]))"

text \<open>
  \<open>publishSnapshot\<close>; \<open>order\<close> lists a Go map in the order in which a range over it happens to go.
\<close>

definition publishSnapshot :: "((string \<Rightarrow> anyval option) \<Rightarrow> gomap) \<Rightarrow> runtimeRunner \<Rightarrow>
    UniversalDataModel \<Rightarrow> (string \<Rightarrow> anyval option) \<times> instant \<Rightarrow> ScanSnapshot option" where
  "publishSnapshot order r store completed =
     (if \<not> rr_snapshots r then None
      else Some \<lparr>ss_DeviceID = d_ID (rr_device r), ss_DeviceName = d_Name (rr_device r),
        ss_CollectedAt = snd completed, ss_SuccessfulValues = order (fst completed),
        ss_CurrentValues = order (\<lambda>tag. map_option v_Value (udm_Snapshot store tag))\<rparr>)"

definition runner_Close :: "runtimeRunner \<Rightarrow> runtimeRunner" where
  "runner_Close r = r\<lparr>rr_conn := map_option conn_Close (rr_conn r)\<rparr>"

definition runner_Values :: "runtimeRunner \<Rightarrow> string \<Rightarrow> Value option" where
  "runner_Values r = udm_Snapshot (rr_values r)"

section \<open>From valid points to good batch reads\<close>

lemma configured_sel [simp]:
  "pc_TagName (configured p) = p_TagName p" "pc_RegType (configured p) = p_RegType p"
  "pc_Address (configured p) = p_Address p" "pc_DataType (configured p) = p_DataType p"
  "pc_BitOffset (configured p) = p_BitOffset p" "pc_BitLen (configured p) = p_BitLen p"
  by (simp_all add: configured_def)

lemma valid_point_configured:
  assumes "ValidatePoint p = []"
  shows "addr_ok (configured p)" "p_RegType p \<in> set validRegTypes" "0 \<le> p_BitOffset p" "0 \<le> p_BitLen p"
proof -
  have ok: "point_admissible p" using assms by (simp add: ValidatePoint_iff_admissible)
  have g: "unat (GetRegisterCount (configured p)) =
      (if IsRegTypeBit (p_RegType p) then 1 else point_registers (p_DataType p))"
    by (simp add: GetRegisterCount_def point_registers_def)
  have "unat (p_Address p) < 2 ^ 16" by (rule order_less_le_trans [OF unsigned_less]) simp
  then show "addr_ok (configured p)"
    using ok unfolding addr_ok_def g point_admissible_def by (simp split: if_splits)
  show "p_RegType p \<in> set validRegTypes"
    using ok IsRegTypeBit_valid validRegTypes_register unfolding point_admissible_def by metis
  show "0 \<le> p_BitOffset p" "0 \<le> p_BitLen p"
    using ok unfolding point_admissible_def by (metis order_refl)+
qed

lemma mset_filter_keys:
  assumes "distinct keys"
  shows "mset (concat (map (\<lambda>k. filter (\<lambda>p. f p = k) xs) keys)) = mset (filter (\<lambda>p. f p \<in> set keys) xs)"
  using assms
proof (induction keys)
  case (Cons k keys)
  have "mset (filter (\<lambda>p. f p \<in> set (k # keys)) xs) =
      mset (filter (\<lambda>p. f p = k) xs) + mset (filter (\<lambda>p. f p \<in> set keys) xs)"
    using Cons.prems by (induction xs) auto
  with Cons show ?case by simp
qed simp

lemma OptimizeChunks_dom: "dom (OptimizeChunks srt points) = pc_RegType ` set points"
  by (auto simp: OptimizeChunks_def group_points_eq Let_def dom_def filter_empty_conv split: if_splits)

lemma chunks_in_order_points:
  assumes srt: "slice_sort srt" and keys: "distinct keys" "set keys = dom (OptimizeChunks srt points)"
  shows "mset (concat (map rc_Points (chunks_in_order (OptimizeChunks srt points) keys))) = mset points"
proof -
  have one: "mset (concat (map rc_Points (case OptimizeChunks srt points k of None \<Rightarrow> [] | Some cs \<Rightarrow> cs))) =
      mset (filter (\<lambda>p. pc_RegType p = k) points)" if "k \<in> set keys" for k
    using that keys(2) point_sort.optimize_points [OF point_sort.intro [OF srt], of points k]
    by (auto simp: dom_def)
  have "mset (concat (map rc_Points (chunks_in_order (OptimizeChunks srt points) ks))) =
      mset (concat (map (\<lambda>k. filter (\<lambda>p. pc_RegType p = k) points) ks))" if "set ks \<subseteq> set keys" for ks
    using that
  proof (induction ks)
    case (Cons k ks)
    then have "k \<in> set keys" "set ks \<subseteq> set keys" by simp_all
    with Cons.IH one show ?case by (simp add: chunks_in_order_def)
  qed (simp add: chunks_in_order_def)
  moreover have "filter (\<lambda>p. pc_RegType p \<in> set keys) points = points"
    unfolding keys(2) OptimizeChunks_dom by (simp add: filter_id_conv)
  ultimately show ?thesis using mset_filter_keys [OF keys(1), of pc_RegType points] by simp
qed

lemma optimized_good:
  assumes srt: "slice_sort srt" and valid: "\<forall>p\<in>set points. ValidatePoint p = []"
    and ch: "ch \<in> set (chunks_in_order (OptimizeChunks srt (map configured points)) keys)"
  shows "chunk_good ch"
proof -
  let ?pts = "map configured points"
  note ps = point_sort.intro [OF srt]
  obtain key cs where cs: "OptimizeChunks srt ?pts key = Some cs" "ch \<in> set cs"
    using ch by (force simp: chunks_in_order_def split: option.splits)
  have wf: "chunk_wf key ch"
    using point_sort.optimize_wf [OF ps cs] valid valid_point_configured(1) by auto
  have mine: "p \<in> configured ` set points \<and> pc_RegType p = key" if "p \<in> set (rc_Points ch)" for p
    using point_sort.optimize_points_set [OF ps cs(1)] cs(2) that by auto
  have ne: "rc_Points ch \<noteq> []" using wf by (simp add: chunk_wf_def)
  then have key: "pc_RegType (hd (rc_Points ch)) = key" using mine by simp
  have fields: "pc_RegType p = key \<and> 0 \<le> pc_BitOffset p \<and> 0 \<le> pc_BitLen p" if "p \<in> set (rc_Points ch)" for p
    using mine [OF that] valid valid_point_configured(3,4) by auto
  from mine ne obtain p where "p \<in> set points" "p_RegType p = key"
    by (metis configured_sel(2) hd_in_set imageE)
  then have "key \<in> set validRegTypes" using valid valid_point_configured(2) by blast
  with ne wf fields show ?thesis unfolding chunk_good_def Let_def key by blast
qed

section \<open>Delivery\<close>

lemma runner_collector_sel [simp]:
  "c_udm (runner_collector srt uni r) = rr_values r"
  "c_chunks (runner_collector srt uni r) = OptimizeChunks srt (map configured (rr_points r))"
  "c_byteOrder (runner_collector srt uni r) = ToUpper uni (d_ByteOrder (rr_device r))"
  "c_scanComplete (runner_collector srt uni r)" "c_requests (runner_collector srt uni r) = []"
  "c_completed (runner_collector srt uni r) = []" "c_reconnects (runner_collector srt uni r) = 0"
  "c_ticks (runner_collector srt uni r) = 0"
  by (simp_all add: runner_collector_def NewCollector_def SetScanComplete_def runner_config_def)

lemma udm_run_finite:
  "finite (dom (udm_data u)) \<Longrightarrow> finite (dom (\<lambda>tag. map_option v_Value (udm_Snapshot (udm_run u ws) tag)))"
proof (induction ws arbitrary: u)
  case Nil
  then show ?case by (simp add: udm_run_def udm_Snapshot_def dom_def)
next
  case (Cons w ws)
  obtain tag v t where w: "w = (tag, v, t)" by (metis prod_cases3)
  have "finite (dom (udm_data (udm_UpdateAt u tag v t)))" using Cons.prems by (simp add: udm_UpdateAt_def)
  from Cons.IH [OF this] show ?case by (simp add: udm_run_def w)
qed

lemma delivery:
  assumes srt: "slice_sort srt" and fac: "factory_New True device points = Inr r"
    and valid: "\<forall>p\<in>set points. ValidatePoint p = []" and tags: "distinct (map p_TagName points)"
    and keys: "distinct keys" "set keys = dom (c_chunks (runner_collector srt uni r))"
    and srv: "serves regs coils client" and order: "\<And>m. finite (dom m) \<Longrightarrow> map_of (order m) = m"
  shows "\<exists>c' completed snapshot.
    scanOnce now (Some client) keys (runner_collector srt uni r) = Some c' \<and> c_reconnects c' = 0 \<and>
    c_completed c' = [completed] \<and> publishSnapshot order r (c_udm c') completed = Some snapshot \<and>
    ss_DeviceID snapshot = d_ID device \<and>
    dom (map_of (ss_SuccessfulValues snapshot)) = p_TagName ` set points \<and>
    (\<forall>p\<in>set points. \<exists>v. point_value regs coils (ToUpper uni (d_ByteOrder device)) (configured p) = Got v \<and>
       map_of (ss_SuccessfulValues snapshot) (p_TagName p) = Some v \<and>
       map_of (ss_CurrentValues snapshot) (p_TagName p) = Some v)"
proof -
  let ?c = "runner_collector srt uni r" and ?bo = "ToUpper uni (d_ByteOrder device)"
  let ?cs = "chunks_in_order (c_chunks ?c) keys"
  let ?ps = "concat (map rc_Points ?cs)"
  let ?ws = "memory_writes regs coils ?bo ?ps"
  have r: "rr_device r = device" "rr_points r = points" "rr_values r = udm_New" "rr_snapshots r"
    using fac by (auto simp: factory_New_def split: if_splits)
  have bo: "c_byteOrder ?c = ?bo" by (simp add: r)
  have good: "\<forall>ch\<in>set ?cs. chunk_good ch"
    using optimized_good [OF srt valid] by (simp add: r)
  have ms: "mset ?ps = mset (map configured points)"
    using chunks_in_order_points [OF srt keys(1)] keys(2) by (simp add: r)
  have got: "\<exists>v. point_value regs coils ?bo q = Got v" if "q \<in> set ?ps" for q
    using that good point_value_Got by fastforce
  have tags': "mset (map pc_TagName ?ps) = mset (map p_TagName points)"
    using arg_cong [OF ms, of "image_mset pc_TagName"] by (simp add: mset_map [symmetric] comp_def del: mset_map)
  then have fst_ws: "mset (map fst ?ws) = mset (map p_TagName points)"
    using memory_writes_fst [of ?ps regs coils ?bo] got by simp
  have dist: "distinct (map fst ?ws)" using fst_ws tags by (metis mset_eq_imp_distinct_iff)
  have dom_ws: "fst ` set ?ws = p_TagName ` set points"
    using arg_cong [OF fst_ws, of set_mset] by simp
  have wf: "udm_wf (c_udm ?c)" by (simp add: r wf_intros)
  obtain c' where c': "scanOnce now (Some client) keys ?c = Some c'"
    "c_udm c' = c_udm (apply_writes now ?ws ?c)" "c_reconnects c' = 0"
    "c_completed c' = [(map_of (rev ?ws), now (length ?ws))]"
    using scanOnce_served [OF good srv, of now] bo by auto
  have each: "\<exists>v. point_value regs coils ?bo (configured p) = Got v \<and> map_of (rev ?ws) (p_TagName p) = Some v \<and>
      map_option v_Value (udm_Snapshot (c_udm c') (p_TagName p)) = Some v" if p: "p \<in> set points" for p
  proof -
    have q: "configured p \<in> set ?ps" using p ms by (metis image_eqI set_map set_mset_mset)
    with got obtain v where v: "point_value regs coils ?bo (configured p) = Got v" by blast
    with memory_writes_mem [OF q v] have m: "(p_TagName p, v) \<in> set ?ws" by simp
    from apply_writes_distinct(1) [OF dist m wf, of now] apply_writes_distinct(2) [OF dist m wf] v show ?thesis by (auto simp: c'(2))
  qed
  have dom: "dom (map_of (rev ?ws)) = p_TagName ` set points"
    unfolding dom_map_of_conv_image_fst set_rev by (rule dom_ws)
  have fin: "finite (dom (\<lambda>tag. map_option v_Value (udm_Snapshot (c_udm c') tag)))"
    unfolding c'(2) apply_writes_udm by (rule udm_run_finite) (simp add: r udm_New_def)
  show ?thesis using c' each dom fin by (simp add: publishSnapshot_def r order finite_dom_map_of)
qed

text \<open>
  A runner for points that all passed \<open>ValidatePoint\<close>, with distinct tags, on a device that
  serves its memory, delivers everything in one scan, in whatever order the maps are walked and
  equal addresses are sorted: exactly the configured tags, and for each of them the very value
  that decoding the point's own registers alone gives, both in the value store and in the snapshot
  handed to the publisher. No connection is reset.
\<close>

lemma scan_delivers_every_point:
  assumes srt: "slice_sort srt" and fac: "factory_New True device points = Inr r"
    and valid: "\<forall>p\<in>set points. ValidatePoint p = []" and tags: "distinct (map p_TagName points)"
    and keys: "distinct keys" "set keys = dom (c_chunks (runner_collector srt uni r))"
    and srv: "serves regs coils client" and order: "\<And>m. finite (dom m) \<Longrightarrow> map_of (order m) = m"
  shows "\<exists>c' completed snapshot.
    scanOnce now (Some client) keys (runner_collector srt uni r) = Some c' \<and> c_reconnects c' = 0 \<and>
    c_completed c' = [completed] \<and> publishSnapshot order r (c_udm c') completed = Some snapshot \<and>
    ss_DeviceID snapshot = d_ID device \<and>
    dom (map_of (ss_SuccessfulValues snapshot)) = p_TagName ` set points \<and>
    (\<forall>p\<in>set points. \<exists>v. point_value regs coils (ToUpper uni (d_ByteOrder device)) (configured p) = Got v \<and>
       map_of (ss_SuccessfulValues snapshot) (p_TagName p) = Some v \<and>
       map_of (ss_CurrentValues snapshot) (p_TagName p) = Some v)"
  by (rule delivery [OF assms])

text \<open>
  The status of a runner before its first scan: it ends with the state of its connection manager,
  and a runner whose connection attempts were exhausted goes on to scan as offline, to be revived
  by the heartbeat probe.
\<close>

lemma Run_connect_status:
  assumes "Run_connect err cancelled connects ctxDone = (events, cm, True)"
    and "err \<noteq> None \<longrightarrow> (\<forall>n\<in>{1..10}. \<not> cancelled n)"
  shows "hd events = status StateStarting [] \<and> se_State (last events) = runtimeState (cm_state cm) \<and>
    (cm_state cm = StateOnline \<and> GetClient cm \<noteq> None \<or> cm_state cm = StateOffline)"
proof (cases err)
  case None
  with assms(1) show ?thesis
    by (auto simp: Run_connect_def Connect_def NewConnManager_def status_def runtimeState_def
        StateOnline_def StateOffline_def StateReconnecting_def GetClient_def)
next
  case (Some x)
  let ?cm = "snd (Connect (Some x) NewConnManager)"
  obtain res cm1 where rec: "ReconnectWithBackoff cancelled connects ?cm = (res, cm1)" by fastforce
  have m: "cm_reconnecting ?cm = 0" "cm_maxRetries ?cm = 10" by (simp_all add: NewConnManager_def)
  have end_state: "cm_state cm1 = StateOnline \<and> GetClient cm1 \<noteq> None \<or> cm_state cm1 = StateOffline"
  proof (cases "\<exists>k\<in>{1..10}. connects k = None")
    case True
    then obtain j where j: "1 \<le> j" "j \<le> 10" "connects j = None" by auto
    define k where "k = int (LEAST n. 1 \<le> n \<and> connects (int n) = None)"
    have ex: "1 \<le> nat j \<and> connects (int (nat j)) = None" using j by simp
    have k: "1 \<le> k" "connects k = None" "k \<le> 10"
      using LeastI [of "\<lambda>n. 1 \<le> n \<and> connects (int n) = None", OF ex] Least_le [of "\<lambda>n. 1 \<le> n \<and> connects (int n) = None", OF ex] j
      by (auto simp: k_def)
    have "connects n \<noteq> None" if "1 \<le> n" "n < k" for n
      using not_less_Least [of "nat n" "\<lambda>n. 1 \<le> n \<and> connects (int n) = None"] that by (auto simp: k_def)
    then have "attempts_fail cancelled connects {1..<k}"
      using assms(2) Some k(3) by (auto simp: attempts_fail_def)
    from reconnect_exact_lemma [OF m k(1) _ this rec] k(2,3) assms(2) Some k(1) show ?thesis by auto
  next
    case False
    then have "attempts_fail cancelled connects {1..<11}"
      using assms(2) Some by (auto simp: attempts_fail_def)
    from reconnect_exact_lemma [OF m _ _ this rec] show ?thesis by auto
  qed
  with Some assms(1) rec show ?thesis
    by (auto simp: Run_connect_def Connect_eq split_beta Let_def status_def runtimeState_def GetClient_def
        split: if_splits)
qed

section \<open>Witness\<close>

definition map_items :: "(string \<Rightarrow> anyval option) \<Rightarrow> gomap" where
  "map_items m = map (\<lambda>k. (k, the (m k))) (sorted_list_of_set (dom m))"

lemma map_of_map_items: "finite (dom m) \<Longrightarrow> map_of (map_items m) = m"
  by (rule ext) (auto simp: map_items_def map_of_map_restrict restrict_map_def dom_def)

definition sample_input :: Point where
  "sample_input = \<lparr>p_ID = 1, p_DeviceID = 7, p_TagName = ''t'', p_Description = [],
     p_RegType = ''HoldingReg'', p_Address = 9, p_DataType = ''Float32'', p_BitOffset = 0, p_BitLen = 0,
     p_Writeable = 0, p_CreatedAt = 0, p_UpdatedAt = 0\<rparr>"

lemma sample_input_valid: "ValidatePoint sample_input = []"
  unfolding ValidatePoint_iff_admissible point_admissible_def
  using le_trans [OF RuneCount_le_length length_TrimSpace, of "[]"]
  by (simp add: sample_input_def IsRegTypeBit_def isValidTagName_def tag_first_char_def validDataTypes_def
      point_bits_def field_length_def TypeBitWidth_def whole_value_type_def point_registers_def)

definition memory_client :: "(string \<Rightarrow> nat \<Rightarrow> u16) \<Rightarrow> (string \<Rightarrow> nat \<Rightarrow> bool) \<Rightarrow> client" where
  "memory_client regs coils n rq =
     (case rq of
        ReadHoldingRegisters s q \<Rightarrow> Inr (device_reply regs coils ''HoldingReg'' s q)
      | ReadInputRegisters s q \<Rightarrow> Inr (device_reply regs coils ''InputReg'' s q)
      | ReadCoils s q \<Rightarrow> Inr (device_reply regs coils ''CoilStatus'' s q)
      | ReadDiscreteInputs s q \<Rightarrow> Inr (device_reply regs coils ''InputStatus'' s q)
      | _ \<Rightarrow> Inl ''illegal function'')"

lemma memory_client_serves: "serves regs coils (memory_client regs coils)"
  unfolding serves_def read_request_def memory_client_def by (auto split: if_splits)

definition sample_runner :: runtimeRunner where
  "sample_runner = \<lparr>rr_device = sample_device 7, rr_points = [sample_input], rr_values = udm_New,
     rr_conn = None, rr_snapshots = True\<rparr>"

theorem scan_delivers_every_point_witness:
  "\<exists>c' completed. scanOnce int (Some (memory_client (\<lambda>_ _. 7) (\<lambda>_ _. False))) [''HoldingReg'']
     (runner_collector insertion_sort (\<lambda>s. s) sample_runner) = Some c' \<and> c_completed c' = [completed]"
proof -
  have new: "factory_New True (sample_device 7) [sample_input] = Inr sample_runner"
    by (simp add: factory_New_def sample_runner_def)
  have keys: "set [''HoldingReg''] = dom (c_chunks (runner_collector insertion_sort (\<lambda>s. s) sample_runner))"
    by (simp add: OptimizeChunks_dom sample_runner_def) (simp add: sample_input_def)
  note serves = memory_client_serves [of "\<lambda>_ _. 7" "\<lambda>_ _. False"]
  from scan_delivers_every_point [OF go_sort.slice_sort_axioms new _ _ _ keys serves map_of_map_items,
      where now = int] sample_input_valid
  show ?thesis by simp blast
qed

end
