(* ===== verification/GoCsv.thy ===== *)
theory GoCsv
  imports GoStrings
begin

text \<open>
  The reader and the writer of Go's \<open>encoding/csv\<close> as the program uses them (comma, no comments,
  strict quotes, no trimming), on byte strings. The reader works on lines, in which a carriage
  return before a line feed is dropped; a quoted field may go on over several lines. The source of
  the bytes ends with the end of the file or, when \<open>fin\<close> is an error, with that error. A syntax
  error carries Go's reason for it, not the line and column of the full message.
\<close>

datatype csv_item = Record "string list" | SyntaxError string

definition LF :: char where "LF = CHR 0x0A"
definition CR :: char where "CR = CHR 0x0D"
definition Comma :: char where "Comma = CHR '',''"
definition Quote :: char where "Quote = CHR 0x22"

lemma csv_chars [simp]:
  "LF \<noteq> CR" "CR \<noteq> LF" "LF \<noteq> Comma" "Comma \<noteq> LF" "LF \<noteq> Quote" "Quote \<noteq> LF"
  "CR \<noteq> Comma" "Comma \<noteq> CR" "CR \<noteq> Quote" "Quote \<noteq> CR" "Comma \<noteq> Quote" "Quote \<noteq> Comma"
  by (simp_all add: LF_def CR_def Comma_def Quote_def)

section \<open>Reading\<close>

datatype read_error = NoError | EndOfFile | Broken string

text \<open>\<open>bufio\<close>'s \<open>ReadSlice\<close> of a line, with its line feed, and what follows it.\<close>

fun first_line :: "string \<Rightarrow> string" where
  "first_line [] = []"
| "first_line (c # s) = (if c = LF then [c] else c # first_line s)"

fun other_lines :: "string \<Rightarrow> string" where
  "other_lines [] = []"
| "other_lines (c # s) = (if c = LF then s else other_lines s)"

definition drop_cr :: "string \<Rightarrow> string" where
  "drop_cr line =
     (if 2 \<le> length line \<and> last line = LF \<and> last (butlast line) = CR
      then butlast (butlast line) @ [LF] else line)"

definition readLine :: "string option \<Rightarrow> string \<Rightarrow> string \<times> read_error \<times> string" where
  "readLine fin s =
     (let line = first_line s in
      if LF \<in> set line then (drop_cr line, NoError, other_lines s)
      else
        case fin of
          Some err \<Rightarrow> (line, Broken err, [])
        | None \<Rightarrow>
            if line = [] then ([], EndOfFile, [])
            else (if last line = CR then butlast line else line, NoError, []))"

definition lengthNL :: "string \<Rightarrow> nat" where
  "lengthNL line = (if line \<noteq> [] \<and> last line = LF then 1 else 0)"

lemma lines_length: "length (first_line s) + length (other_lines s) = length s"
  by (induction s) auto

lemma drop_cr_length: "length (drop_cr line) \<le> length line"
  by (auto simp: drop_cr_def)

lemma readLine_length: "readLine fin s = (line, err, rest) \<Longrightarrow> length line + length rest \<le> length s"
  using lines_length [of s] drop_cr_length [of "first_line s"]
  by (auto simp: readLine_def Let_def split: if_splits option.splits)

definition ErrQuote :: string where
  "ErrQuote = ''extraneous or missing '' @ [Quote] @ '' in quoted-field''"

definition ErrBareQuote :: string where
  "ErrBareQuote = ''bare '' @ [Quote] @ '' in non-quoted-field''"

text \<open>A record that was read to its end; an error of the source spoils it.\<close>

definition finish :: "read_error \<Rightarrow> string list \<Rightarrow> string + string list" where
  "finish err fields = (case err of Broken e \<Rightarrow> Inl e | _ \<Rightarrow> Inr fields)"

lemma dropWhile_less: "dropWhile p line \<noteq> [] \<Longrightarrow> length (dropWhile p line) - 1 < length line"
  using length_dropWhile_le [of p line] by (cases line) (auto simp: le_imp_less_Suc)

text \<open>
  The fields of a record: \<open>fields\<close> are those already read, \<open>open\<close> is the text so far of a quoted
  field that is still open, \<open>line\<close> is the rest of the current line and \<open>rest\<close> what follows it.
\<close>

function read_fields :: "string option \<Rightarrow> string list \<Rightarrow> string option \<Rightarrow> string \<Rightarrow> read_error \<Rightarrow> string \<Rightarrow>
    (string + string list) \<times> string" where
  "read_fields fin fields None line err rest =
     (if line \<noteq> [] \<and> hd line = Quote then read_fields fin fields (Some []) (tl line) err rest
      else
        let more = dropWhile (\<lambda>c. c \<noteq> Comma) line;
            field = (if more = [] then take (length line - lengthNL line) line else takeWhile (\<lambda>c. c \<noteq> Comma) line)
        in if Quote \<in> set field then (Inl ErrBareQuote, rest)
           else if more = [] then (finish err (fields @ [field]), rest)
           else read_fields fin (fields @ [field]) None (tl more) err rest)"
| "read_fields fin fields (Some open) line err rest =
     (case line of
        [] \<Rightarrow> (if err = NoError then (Inl ErrQuote, rest) else (finish err (fields @ [open]), rest))
      | c # line' \<Rightarrow>
          if c = Quote then
            (if line' \<noteq> [] \<and> hd line' = Quote then read_fields fin fields (Some (open @ [Quote])) (tl line') err rest
             else if line' \<noteq> [] \<and> hd line' = Comma then read_fields fin (fields @ [open]) None (tl line') err rest
             else if lengthNL line' = length line' then (finish err (fields @ [open]), rest)
             else (Inl ErrQuote, rest))
          else if line' \<noteq> [] then read_fields fin fields (Some (open @ [c])) line' err rest
          else if err \<noteq> NoError then (finish err (fields @ [open @ [c]]), rest)
          else
            case readLine fin rest of
              (line'', err', rest') \<Rightarrow>
                read_fields fin fields (Some (open @ [c])) line'' (if err' = EndOfFile then NoError else err') rest')"
  by pat_completeness auto

termination
proof (relation "measure (\<lambda>(fin, fields, open, line, err, rest). length line + length rest)", goal_cases)
  case (3 fin fields line err rest more field)
  then show ?case using dropWhile_less [of "\<lambda>c. c \<noteq> Comma" line] by simp
qed (auto dest: readLine_length [OF sym])

declare read_fields.simps [simp del]

lemma readLine_rest: "readLine fin s = (line, NoError, rest) \<Longrightarrow> length rest < length s"
  using lines_length [of s] by (cases s) (auto simp: readLine_def Let_def split: if_splits option.splits)

text \<open>\<open>readRecord\<close>: blank lines are passed over; nothing more at the end of the file.\<close>

function next_line :: "string option \<Rightarrow> string \<Rightarrow> (string \<times> read_error \<times> string) option" where
  "next_line fin s =
     (case readLine fin s of
        (line, err, rest) \<Rightarrow>
          if err = EndOfFile then None
          else if err = NoError \<and> length line = lengthNL line then next_line fin rest
          else Some (line, err, rest))"
  by pat_completeness auto

termination
  by (relation "measure (\<lambda>(fin, s). length s)") (auto dest: readLine_rest [OF sym])

declare next_line.simps [simp del]

lemma next_line_rest:
  assumes "next_line fin s = Some (line, err, rest)"
  shows "err = NoError \<and> length rest < length s \<or> (\<exists>e. err = Broken e)"
  using assms
proof (induction fin s rule: next_line.induct)
  case (1 fin s)
  obtain l e r where rd: "readLine fin s = (l, e, r)" by (cases "readLine fin s")
  note unfold = next_line.simps [of fin s, unfolded rd prod.case]
  show ?case
  proof (cases "e = NoError \<and> length l = lengthNL l")
    case True
    with "1.prems" have "next_line fin r = Some (line, err, rest)" by (simp add: unfold)
    with "1.IH" [OF rd [symmetric] refl] True readLine_rest [of fin s l r] rd show ?thesis by auto
  next
    case False
    with "1.prems" have "e \<noteq> EndOfFile" "line = l" "err = e" "rest = r" by (auto simp: unfold split: if_splits)
    with rd readLine_rest [of fin s l r] show ?thesis by (cases e) auto
  qed
qed

lemma read_fields_rest:
  "length (snd (read_fields fin fields open line err rest)) \<le> length rest"
proof (induction fin fields "open" line err rest rule: read_fields.induct)
  case (1 fin fields line err rest)
  then show ?case by (subst read_fields.simps) (simp add: Let_def del: dropWhile_eq_Nil_conv)
next
  case (2 fin fields op line err rest)
  show ?case
  proof (cases line)
    case Nil
    then show ?thesis by (simp add: read_fields.simps)
  next
    case (Cons c cs)
    obtain l e r where rd: "readLine fin rest = (l, e, r)" by (cases "readLine fin rest")
    have "length r \<le> length rest" using readLine_length [OF rd] by simp
    with "2.IH" [OF Cons] show ?thesis
      by (subst read_fields.simps) (auto simp: Cons rd intro: le_trans [of _ "length r"])
  qed
qed

lemma read_fields_broken: "err = Broken e \<Longrightarrow> \<exists>e'. fst (read_fields fin fields open line err rest) = Inl e'"
proof (induction fin fields "open" line err rest rule: read_fields.induct)
  case (1 fin fields line err rest)
  then show ?case by (subst read_fields.simps) (simp add: Let_def finish_def del: dropWhile_eq_Nil_conv)
next
  case (2 fin fields op line err rest)
  show ?case
  proof (cases line)
    case (Cons c cs)
    with "2.IH" [OF Cons] "2.prems" show ?thesis by (subst read_fields.simps) (auto simp: finish_def)
  qed (simp add: read_fields.simps finish_def "2.prems")
qed

lemma record_consumes:
  assumes "next_line fin s = Some (line, err, rest)" "read_fields fin [] None line err rest = (Inr r, rest')"
  shows "length rest' < length s"
  using next_line_rest [OF assms(1)]
proof
  assume "err = NoError \<and> length rest < length s"
  then show ?thesis using read_fields_rest [of fin "[]" None line err rest] assms(2) by simp
next
  assume "\<exists>e. err = Broken e"
  then show ?thesis using read_fields_broken [of err _ fin "[]" None line rest] assms(2) by auto
qed

text \<open>
  What the reader gives, call by call, up to the end or the first error (no caller reads on after
  one).
\<close>

function csv_items :: "string option \<Rightarrow> string \<Rightarrow> csv_item list" where
  "csv_items fin s =
     (case next_line fin s of
        None \<Rightarrow> []
      | Some (line, err, rest) \<Rightarrow>
          (case read_fields fin [] None line err rest of
             (Inl e, rest') \<Rightarrow> [SyntaxError e]
           | (Inr r, rest') \<Rightarrow> Record r # csv_items fin rest'))"
  by pat_completeness auto

termination
  by (relation "measure (\<lambda>(fin, s). length s)") (auto dest: record_consumes [OF _ sym])

declare csv_items.simps [simp del]

text \<open>
  \<open>ReadAll\<close> with the count of fields left to the first record: all records, or the first error.
\<close>

fun same_width :: "nat option \<Rightarrow> csv_item list \<Rightarrow> string + string list list" where
  "same_width width [] = Inr []"
| "same_width width (SyntaxError e # items) = Inl e"
| "same_width width (Record r # items) =
     (if width \<noteq> None \<and> width \<noteq> Some (length r) then Inl ''wrong number of fields''
      else
        case same_width (Some (length r)) items of
          Inl e \<Rightarrow> Inl e
        | Inr rs \<Rightarrow> Inr (r # rs))"

definition ReadAll :: "string option \<Rightarrow> string \<Rightarrow> string + string list list" where
  "ReadAll fin s = same_width None (csv_items fin s)"

lemma same_width_Inr:
  "same_width (Some n) items = Inr rs \<Longrightarrow> items = map Record rs \<and> (\<forall>r\<in>set rs. length r = n)"
  by (induction "Some n" items arbitrary: rs rule: same_width.induct) (auto split: if_splits sum.splits)

lemma ReadAll_width:
  assumes "ReadAll fin s = Inr rs" "r \<in> set rs"
  shows "length r = length (hd rs)"
proof (cases "csv_items fin s")
  case Nil
  with assms show ?thesis by (simp add: ReadAll_def)
next
  case (Cons item items)
  with assms show ?thesis
    by (cases item) (auto simp: ReadAll_def split: sum.splits dest!: same_width_Inr)
qed

section \<open>Writing\<close>

text \<open>A field that holds a comma, a quote or a line end, or begins with a space, or is \<open>\.\<close>, is quoted.\<close>

definition fieldNeedsQuotes :: "string \<Rightarrow> bool" where
  "fieldNeedsQuotes field \<longleftrightarrow> field \<noteq> [] \<and>
     (field = [CHR 0x5C, CHR ''.''] \<or> list_ex (\<lambda>c. c = LF \<or> c = CR \<or> c = Quote \<or> c = Comma) field \<or>
      starts_with space_runes field \<noteq> None)"

fun double_quotes :: "string \<Rightarrow> string" where
  "double_quotes [] = []"
| "double_quotes (c # s) = (if c = Quote then [Quote, Quote] else [c]) @ double_quotes s"

definition write_field :: "string \<Rightarrow> string" where
  "write_field field = (if fieldNeedsQuotes field then [Quote] @ double_quotes field @ [Quote] else field)"

fun write_fields :: "string list \<Rightarrow> string" where
  "write_fields [] = []"
| "write_fields [field] = write_field field"
| "write_fields (field # fields) = write_field field @ [Comma] @ write_fields fields"

definition write_record :: "string list \<Rightarrow> string" where
  "write_record record = write_fields record @ [LF]"

section \<open>What is written is read again\<close>

text \<open>Reading folds each carriage return with the line feed after it into the line feed.\<close>

fun crlf_lf :: "string \<Rightarrow> string" where
  "crlf_lf [] = []"
| "crlf_lf (c # s) = (if c = CR \<and> s \<noteq> [] \<and> hd s = LF then crlf_lf s else c # crlf_lf s)"

lemma crlf_lf_id: "CR \<notin> set s \<Longrightarrow> crlf_lf s = s"
  by (induction s) auto

text \<open>The current line and what follows it, of a text that ends with a line feed.\<close>

definition line_of :: "string \<Rightarrow> string" where
  "line_of s = drop_cr (first_line s)"

lemma first_line_LF: "LF \<in> set s \<Longrightarrow> LF \<in> set (first_line s) \<and> last (first_line s) = LF \<and> first_line s \<noteq> []"
  by (induction s) auto

lemma readLine_LF: "LF \<in> set s \<Longrightarrow> readLine fin s = (line_of s, NoError, other_lines s)"
  using first_line_LF [of s] by (simp add: readLine_def line_of_def)

lemma line_of_Cons:
  assumes "LF \<in> set s" "c \<noteq> LF" "c \<noteq> CR \<or> hd s \<noteq> LF"
  shows "line_of (c # s) = c # line_of s"
proof -
  note f = first_line_LF [OF assms(1)]
  obtain x xs where x: "first_line s = x # xs" using f by (cases "first_line s") auto
  then have "s \<noteq> []" "hd s = x" by (cases s; auto split: if_splits)+
  with x f assms(2,3) show ?thesis
    by (cases xs rule: rev_cases) (auto simp: line_of_def drop_cr_def butlast_append split: if_splits)
qed

lemma line_of_LF [simp]: "line_of (LF # s) = [LF]"
  by (simp add: line_of_def drop_cr_def)

lemma line_of_CRLF: "line_of (CR # LF # s) = [LF]"
  by (simp add: line_of_def drop_cr_def)

lemma line_of_nonempty: "LF \<in> set s \<Longrightarrow> line_of s \<noteq> []"
  using first_line_LF [of s] by (auto simp: line_of_def drop_cr_def)

lemma line_of_blank: "line_of s = [LF] \<Longrightarrow> s \<noteq> [] \<and> (hd s = LF \<or> hd s = CR)"
proof (cases s)
  case (Cons c t)
  assume l: "line_of s = [LF]"
  show ?thesis
  proof (rule ccontr)
    assume "\<not> ?thesis"
    then have c: "c \<noteq> LF" "c \<noteq> CR" by (simp_all add: Cons)
    have "first_line s \<noteq> []" "last (first_line s) = LF"
      using l by (auto simp: line_of_def drop_cr_def split: if_splits)
    then have "LF \<in> set (first_line s)" by (metis last_in_set)
    moreover have "set (first_line t) \<subseteq> set t" by (induction t) auto
    ultimately have "LF \<in> set t" using c by (auto simp: Cons)
    from line_of_Cons [OF this c(1)] c l show False by (simp add: Cons)
  qed
qed (simp add: line_of_def drop_cr_def)

definition from_text :: "string option \<Rightarrow> string list \<Rightarrow> string option \<Rightarrow> string \<Rightarrow> (string + string list) \<times> string" where
  "from_text fin fields open s = read_fields fin fields open (line_of s) NoError (other_lines s)"

lemma open_quote: "LF \<in> set s \<Longrightarrow> from_text fin fields None (Quote # s) = from_text fin fields (Some []) s"
  by (simp add: from_text_def line_of_Cons read_fields.simps(1))

lemma quoted_char:
  assumes "LF \<in> set s" "c \<noteq> Quote" "c \<noteq> LF" "c \<noteq> CR \<or> hd s \<noteq> LF"
  shows "from_text fin fields (Some op) (c # s) = from_text fin fields (Some (op @ [c])) s"
  using assms by (simp add: from_text_def line_of_Cons line_of_nonempty read_fields.simps(2) [of _ _ op])

lemma quoted_LF:
  "LF \<in> set s \<Longrightarrow> from_text fin fields (Some op) (LF # s) = from_text fin fields (Some (op @ [LF])) s"
  by (simp add: from_text_def readLine_LF read_fields.simps(2) [of _ _ op])

lemma folded_CR: "from_text fin fields op (CR # LF # s) = from_text fin fields op (LF # s)"
  by (simp add: from_text_def line_of_CRLF)

lemma doubled_quote:
  "LF \<in> set s \<Longrightarrow> from_text fin fields (Some op) (Quote # Quote # s) = from_text fin fields (Some (op @ [Quote])) s"
  by (simp add: from_text_def line_of_Cons read_fields.simps(2) [of _ _ op])

lemma closed_by_comma:
  "LF \<in> set s \<Longrightarrow> from_text fin fields (Some op) (Quote # Comma # s) = from_text fin (fields @ [op]) None s"
  by (simp add: from_text_def line_of_Cons read_fields.simps(2) [of _ _ op])

lemma closed_by_LF: "from_text fin fields (Some op) (Quote # LF # s) = (Inr (fields @ [op]), s)"
  by (simp add: from_text_def line_of_Cons read_fields.simps(2) [of _ _ op] lengthNL_def finish_def)

lemma quoted_text:
  "LF \<in> set s \<Longrightarrow> from_text fin fields (Some op) (double_quotes f @ Quote # s) =
     from_text fin fields (Some (op @ crlf_lf f)) (Quote # s)"
proof (induction f arbitrary: op)
  case (Cons c f)
  let ?t = "double_quotes f @ Quote # s"
  have lf: "LF \<in> set ?t" using Cons.prems by simp
  consider "c = Quote" | "c = LF" | "c = CR" "f \<noteq> [] \<and> hd f = LF"
    | "c \<noteq> Quote" "c \<noteq> LF" "\<not> (c = CR \<and> f \<noteq> [] \<and> hd f = LF)" by blast
  then show ?case
  proof cases
    case 1
    with Cons lf show ?thesis by (simp add: doubled_quote)
  next
    case 2
    with Cons lf show ?thesis by (simp add: quoted_LF)
  next
    case 3
    then obtain g where "f = LF # g" by (cases f) auto
    with 3 Cons show ?thesis by (simp add: folded_CR)
  next
    case 4
    then have "c \<noteq> CR \<or> hd ?t \<noteq> LF" by (cases f) auto
    from quoted_char [OF lf 4(1,2) this] 4 Cons show ?thesis by auto
  qed
qed simp

definition plain_text :: "string \<Rightarrow> bool" where
  "plain_text f \<longleftrightarrow> (\<forall>c\<in>set f. c \<noteq> LF \<and> c \<noteq> CR \<and> c \<noteq> Quote \<and> c \<noteq> Comma)"

lemma plain_field: "\<not> fieldNeedsQuotes f \<Longrightarrow> plain_text f"
  by (auto simp: fieldNeedsQuotes_def plain_text_def list_ex_iff)

lemma plain_line:
  assumes "plain_text f" "LF \<in> set s"
  shows "line_of (f @ s) = f @ line_of s \<and> other_lines (f @ s) = other_lines s"
  using assms by (induction f) (simp_all add: plain_text_def line_of_Cons)

lemma plain_parts:
  assumes "plain_text f"
  shows "dropWhile (\<lambda>c. c \<noteq> Comma) (f @ Comma # s) = Comma # s" "takeWhile (\<lambda>c. c \<noteq> Comma) (f @ Comma # s) = f"
    "dropWhile (\<lambda>c. c \<noteq> Comma) (f @ [LF]) = []" "Quote \<notin> set f" "f @ s \<noteq> [] \<Longrightarrow> hd s \<noteq> Quote \<Longrightarrow> hd (f @ s) \<noteq> Quote"
    "crlf_lf f = f"
  using assms by (induction f) (auto simp: plain_text_def)

lemma plain_comma:
  assumes "plain_text f" "LF \<in> set s"
  shows "from_text fin fields None (f @ Comma # s) = from_text fin (fields @ [f]) None s"
proof -
  have "line_of (f @ Comma # s) = f @ Comma # line_of s \<and> other_lines (f @ Comma # s) = other_lines s"
    using plain_line [OF assms(1), of "Comma # s"] assms(2) by (simp add: line_of_Cons)
  moreover have "hd (f @ Comma # t) \<noteq> Quote" for t using plain_parts(5) [OF assms(1), of "Comma # t"] by simp
  ultimately show ?thesis
    using plain_parts [OF assms(1)] by (simp add: from_text_def read_fields.simps(1) [of _ fields] Let_def del: dropWhile_eq_Nil_conv)
qed

lemma plain_LF:
  assumes "plain_text f"
  shows "from_text fin fields None (f @ LF # s) = (Inr (fields @ [f]), s)"
proof -
  have "line_of (f @ LF # s) = f @ [LF] \<and> other_lines (f @ LF # s) = s"
    using plain_line [OF assms, of "LF # s"] by simp
  moreover have "hd (f @ [LF]) \<noteq> Quote" using plain_parts(5) [OF assms, of "[LF]"] by simp
  ultimately show ?thesis
    using plain_parts [OF assms] by (simp add: from_text_def read_fields.simps(1) Let_def lengthNL_def finish_def del: dropWhile_eq_Nil_conv)
qed

lemma field_comma:
  "LF \<in> set s \<Longrightarrow> from_text fin fields None (write_field f @ Comma # s) = from_text fin (fields @ [crlf_lf f]) None s"
  by (cases "fieldNeedsQuotes f")
    (simp_all add: write_field_def open_quote quoted_text closed_by_comma plain_comma plain_field plain_parts(6))

lemma field_LF: "from_text fin fields None (write_field f @ LF # s) = (Inr (fields @ [crlf_lf f]), s)"
  by (cases "fieldNeedsQuotes f")
    (simp_all add: write_field_def open_quote quoted_text closed_by_LF plain_LF plain_field plain_parts(6))

lemma fields_read:
  "r \<noteq> [] \<Longrightarrow> from_text fin fields None (write_fields r @ LF # s) = (Inr (fields @ map crlf_lf r), s)"
  by (induction r arbitrary: fields rule: write_fields.induct) (simp_all add: field_LF field_comma)

lemma record_not_blank:
  assumes "r \<noteq> []" "r \<noteq> [[]]"
  shows "hd (write_fields r @ s) \<noteq> LF \<and> hd (write_fields r @ s) \<noteq> CR"
proof -
  have f: "hd (write_field f @ t) \<noteq> LF \<and> hd (write_field f @ t) \<noteq> CR" if "f \<noteq> []" for f t
    using that plain_field [of f] by (cases f) (auto simp: write_field_def plain_text_def)
  show ?thesis
  proof (cases r rule: write_fields.cases)
    case (2 g)
    with assms f [of g] show ?thesis by simp
  next
    case (3 g h gs)
    with f [of g] show ?thesis by (cases "g = []") (simp_all add: write_field_def fieldNeedsQuotes_def)
  qed (use assms in simp)
qed

text \<open>A record is read as it was written, unless it is blank: that line is passed over.\<close>

lemma record_read:
  assumes "r \<noteq> []" "r \<noteq> [[]]"
  shows "csv_items fin (write_record r @ s) = Record (map crlf_lf r) # csv_items fin s"
proof -
  let ?t = "write_fields r @ LF # s"
  have lf: "LF \<in> set ?t" by simp
  have "line_of ?t \<noteq> [LF]" using line_of_blank [of ?t] record_not_blank [OF assms] by blast
  then have "length (line_of ?t) \<noteq> lengthNL (line_of ?t)"
    using line_of_nonempty [OF lf] by (cases "line_of ?t") (auto simp: lengthNL_def)
  then have "next_line fin ?t = Some (line_of ?t, NoError, other_lines ?t)"
    by (subst next_line.simps) (simp add: readLine_LF [OF lf])
  moreover have "read_fields fin [] None (line_of ?t) NoError (other_lines ?t) = (Inr (map crlf_lf r), s)"
    using fields_read [OF assms(1), of fin "[]" s] by (simp add: from_text_def)
  ultimately show ?thesis by (subst csv_items.simps) (simp add: write_record_def)
qed

lemma nothing_read: "csv_items None [] = []" "csv_items (Some err) [] = [SyntaxError err]"
  by (simp_all add: csv_items.simps next_line.simps readLine_def read_fields.simps finish_def lengthNL_def)

section \<open>A format of records\<close>

text \<open>
  What the users of the format rely on: records that were written are read again, field by field up
  to what reading does to the text of a field.
\<close>

locale record_format =
  fixes wr :: "string list \<Rightarrow> string" and rd :: "string \<Rightarrow> csv_item list"
    and text_of :: "string \<Rightarrow> string" and writable :: "string list \<Rightarrow> bool"
  assumes rd_end: "rd [] = []"
    and rd_wr: "writable r \<Longrightarrow> rd (wr r @ s) = Record (map text_of r) # rd s"
begin

lemma rd_all: "\<forall>r\<in>set rs. writable r \<Longrightarrow> rd (concat (map wr rs)) = map (\<lambda>r. Record (map text_of r)) rs"
  by (induction rs) (simp_all add: rd_end rd_wr)

lemma wr_inj:
  assumes "writable r" "writable r'" "wr r = wr r'"
  shows "map text_of r = map text_of r'"
  using rd_wr [OF assms(1), of "[]"] rd_wr [OF assms(2), of "[]"] assms(3) by simp

end

interpretation go_csv: record_format write_record "csv_items None" crlf_lf "\<lambda>r. r \<noteq> [] \<and> r \<noteq> [[]]"
  by unfold_locales (simp_all add: nothing_read record_read)

end
