(* ===== verification/PointCsv.thy ===== *)
theory PointCsv
  imports PointConfig GoSort GoCsv "HOL-Library.List_Lexorder" "HOL-Library.Char_ord" "HOL-Library.Product_Lexorder"
begin

text \<open>
  \<open>internal/pointcsv/csv.go\<close>: import and export of point tables. What the CSV reader delivers is the
  list of its results up to the end of the file, each a record or a syntax error; \<open>csv_items\<close> of
  \<open>GoCsv\<close> computes it from the bytes, and \<open>csv_text\<close> are the bytes that are written.
\<close>

datatype csv_error =
    HeaderUnreadable
  | BadHeader
  | RowUnreadable nat string
  | NoPoints

definition canonicalHeader :: "string list" where
  "canonicalHeader = [''TagName'', ''RegType'', ''Address'', ''DataType'', ''BitOffset'', ''BitLen'',
     ''Writeable'', ''Description'']"

definition bom :: string where
  "bom = [char_of (0xEF :: nat), char_of (0xBB :: nat), char_of (0xBF :: nat)]"

definition TrimPrefix :: "string \<Rightarrow> string \<Rightarrow> string" where
  "TrimPrefix s prefix = (if take (length prefix) s = prefix then drop (length prefix) s else s)"

definition equalRecord :: "string list \<Rightarrow> string list \<Rightarrow> bool" where
  "equalRecord left right = list_all2 (\<lambda>l r. TrimSpace l = r) left right"

definition empty_point :: Point where
  "empty_point = \<lparr>p_ID = 0, p_DeviceID = 0, p_TagName = [], p_Description = [], p_RegType = [],
     p_Address = 0, p_DataType = [], p_BitOffset = 0, p_BitLen = 0, p_Writeable = 0,
     p_CreatedAt = 0, p_UpdatedAt = 0\<rparr>"

definition parseRecord :: "string list \<Rightarrow> Point \<times> FieldError list" where
  "parseRecord r =
     (let address = ParseUint (TrimSpace (r ! 2)) 16;
          bitOffset = Atoi (TrimSpace (r ! 4));
          bitLen = Atoi (TrimSpace (r ! 5));
          writeable = Atoi (TrimSpace (r ! 6));
          writeableOk = (case writeable of None \<Rightarrow> False | Some w \<Rightarrow> w = 0 \<or> w = 1);
          point = empty_point\<lparr>p_TagName := TrimSpace (r ! 0), p_RegType := TrimSpace (r ! 1),
            p_DataType := TrimSpace (r ! 3), p_Description := TrimSpace (r ! 7),
            p_Address := (case address of None \<Rightarrow> 0 | Some a \<Rightarrow> of_nat a),
            p_BitOffset := (case bitOffset of None \<Rightarrow> 0 | Some b \<Rightarrow> b),
            p_BitLen := (case bitLen of None \<Rightarrow> 0 | Some b \<Rightarrow> b),
            p_Writeable := (if writeableOk then the writeable else 0)\<rparr>;
          errors =
            when_err (address = None) ''address'' ''must be an integer between 0 and 65535'' @
            when_err (bitOffset = None) ''bit_offset'' ''must be an integer'' @
            when_err (bitLen = None) ''bit_len'' ''must be an integer'' @
            when_err (\<not> writeableOk) ''writeable'' ''must be 0 or 1''
      in (point, if errors = [] then errors @ ValidatePoint point else errors))"

definition row_error :: "nat \<Rightarrow> FieldError \<Rightarrow> RowError" where
  "row_error row e = \<lparr>re_Row = row, re_Field = fe_Field e, re_Message = fe_Message e\<rparr>"

text \<open>The row loop: row number, the tags seen, and what has been collected.\<close>

fun parse_rows :: "nat \<Rightarrow> string list \<Rightarrow> Point list \<Rightarrow> RowError list \<Rightarrow> csv_item list \<Rightarrow>
    csv_error + Point list \<times> RowError list" where
  "parse_rows row seen points rowErrors [] = Inr (points, rowErrors)"
| "parse_rows row seen points rowErrors (SyntaxError err # items) = Inl (RowUnreadable row err)"
| "parse_rows row seen points rowErrors (Record r # items) =
     (if length r \<noteq> length canonicalHeader then
        parse_rows (row + 1) seen points
          (rowErrors @ [row_error row (field_error ''row'' ''must contain exactly 8 columns'')]) items
      else
        let (point, fieldErrors) = parseRecord r;
            fieldErrors' = fieldErrors @
              when_err (p_TagName point \<noteq> [] \<and> p_TagName point \<in> set seen)
                ''tag_name'' ''duplicate TagName''
        in if fieldErrors' = [] then
             parse_rows (row + 1) (p_TagName point # seen) (points @ [point]) rowErrors items
           else
             parse_rows (row + 1) seen points (rowErrors @ map (row_error row) fieldErrors') items)"

definition Parse :: "csv_item list \<Rightarrow> csv_error + Point list \<times> RowError list" where
  "Parse items =
     (case items of
        [] \<Rightarrow> Inl HeaderUnreadable
      | SyntaxError _ # _ \<Rightarrow> Inl HeaderUnreadable
      | Record header # rest \<Rightarrow>
          let header = (case header of [] \<Rightarrow> [] | h # hs \<Rightarrow> TrimPrefix h bom # hs)
          in if \<not> equalRecord header canonicalHeader then Inl BadHeader
             else
               (case parse_rows 2 [] [] [] rest of
                  Inl err \<Rightarrow> Inl err
                | Inr (points, rowErrors) \<Rightarrow>
                    if rowErrors \<noteq> [] then Inr ([], rowErrors)
                    else if points = [] then Inl NoPoints
                    else Inr (points, [])))"

text \<open>The order of the exported rows: register type, address, tag.\<close>

definition export_less :: "Point \<Rightarrow> Point \<Rightarrow> bool" where
  "export_less a b =
     (if p_RegType a \<noteq> p_RegType b then p_RegType a < p_RegType b
      else if p_Address a \<noteq> p_Address b then p_Address a < p_Address b
      else p_TagName a < p_TagName b)"

definition export_record :: "Point \<Rightarrow> string list" where
  "export_record p = [p_TagName p, p_RegType p, FormatUint (unat (p_Address p)), p_DataType p,
     Itoa (p_BitOffset p), Itoa (p_BitLen p), Itoa (p_Writeable p), p_Description p]"

definition csv_Write ::
  "((Point \<Rightarrow> Point \<Rightarrow> bool) \<Rightarrow> Point list \<Rightarrow> Point list) \<Rightarrow> Point list \<Rightarrow> string list list" where
  "csv_Write srt points = canonicalHeader # map export_record (srt export_less points)"

definition csv_text ::
  "((Point \<Rightarrow> Point \<Rightarrow> bool) \<Rightarrow> Point list \<Rightarrow> Point list) \<Rightarrow> Point list \<Rightarrow> string" where
  "csv_text srt points = concat (map write_record (csv_Write srt points))"

section \<open>Import\<close>

definition row_ok :: "string list \<Rightarrow> bool" where
  "row_ok r \<longleftrightarrow> length r = 8 \<and> snd (parseRecord r) = []"

lemma length_canonicalHeader [simp]: "length canonicalHeader = 8"
  by (simp add: canonicalHeader_def)

lemma parse_rows_acc:
  "parse_rows row seen points rowErrors items = Inr (ps, es) \<Longrightarrow> \<exists>es'. es = rowErrors @ es'"
proof (induction row seen points rowErrors items rule: parse_rows.induct)
  case (3 row seen points rowErrors r items)
  show ?case
  proof (cases "length r \<noteq> length canonicalHeader")
    case True
    with 3 show ?thesis by fastforce
  next
    case False
    obtain pt fe where pr: "parseRecord r = (pt, fe)" by (cases "parseRecord r")
    from 3(2,3) [OF False pr [symmetric] refl] "3.prems" False show ?thesis
      by (auto simp: pr Let_def split: if_splits)
  qed
qed auto

definition row_point :: "string list \<Rightarrow> Point" where
  "row_point r = fst (parseRecord r)"

lemma collected_errors: "(if e = [] then e @ v else e) = [] \<Longrightarrow> v = []"
  by (simp split: if_splits)

lemma row_ok_valid:
  assumes "row_ok r"
  shows "ValidatePoint (row_point r) = []" "p_TagName (row_point r) \<noteq> []"
proof -
  show v: "ValidatePoint (row_point r) = []"
    using assms unfolding row_ok_def row_point_def parseRecord_def Let_def fst_conv snd_conv
    by (elim conjE) (erule collected_errors)
  then have "isValidTagName (p_TagName (row_point r))"
    by (simp add: ValidatePoint_iff_admissible point_admissible_def)
  then show "p_TagName (row_point r) \<noteq> []" by (auto simp: isValidTagName_def)
qed

text \<open>With no error at the end, every item was a good record with a new tag.\<close>

lemma parse_rows_clean:
  assumes "parse_rows row seen points [] items = Inr (ps, [])"
  shows "\<exists>rs. items = map Record rs \<and> (\<forall>r\<in>set rs. row_ok r) \<and> ps = points @ map row_point rs \<and>
    distinct (map p_TagName (map row_point rs)) \<and>
    (\<forall>r\<in>set rs. p_TagName (row_point r) \<notin> set seen)"
  using assms
proof (induction items arbitrary: row seen points)
  case Nil
  then show ?case by simp
next
  case (Cons item items)
  then obtain r where item: "item = Record r" by (cases item) auto
  have len: "length r = length canonicalHeader"
  proof (rule ccontr)
    assume "length r \<noteq> length canonicalHeader"
    then have "parse_rows (row + 1) seen points
        [row_error row (field_error ''row'' ''must contain exactly 8 columns'')] items = Inr (ps, [])"
      using Cons.prems by (simp add: item)
    from parse_rows_acc [OF this] show False by simp
  qed
  obtain pt fe where pr: "parseRecord r = (pt, fe)" by (cases "parseRecord r")
  have pt: "row_point r = pt" by (simp add: row_point_def pr)
  let ?fe = "fe @ when_err (p_TagName pt \<noteq> [] \<and> p_TagName pt \<in> set seen) ''tag_name'' ''duplicate TagName''"
  have fe: "?fe = []"
  proof (rule ccontr)
    assume n: "?fe \<noteq> []"
    then have "parse_rows (row + 1) seen points (map (row_error row) ?fe) items = Inr (ps, [])"
      using Cons.prems len by (simp only: item parse_rows.simps pr prod.case Let_def) simp
    from parse_rows_acc [OF this] n show False by simp
  qed
  then have "parse_rows (row + 1) (p_TagName pt # seen) (points @ [pt]) [] items = Inr (ps, [])"
    using Cons.prems len by (simp add: item pr)
  from Cons.IH [OF this] obtain rs where IH:
    "items = map Record rs" "\<forall>r\<in>set rs. row_ok r" "ps = (points @ [pt]) @ map row_point rs"
    "distinct (map p_TagName (map row_point rs))"
    "\<forall>r\<in>set rs. p_TagName (row_point r) \<notin> set (p_TagName pt # seen)" by blast
  have ok: "row_ok r" using len fe pr by (simp add: row_ok_def)
  then have "p_TagName pt \<noteq> []" using row_ok_valid(2) [of r] pt by simp
  with fe have "p_TagName pt \<notin> set seen" by simp
  with IH ok pt show ?case
    by (intro exI [of _ "r # rs"]) (auto simp: item)
qed

lemma parse_rows_good:
  assumes "\<forall>r\<in>set rs. row_ok r" "distinct (map p_TagName (map row_point rs))"
    and "\<forall>r\<in>set rs. p_TagName (row_point r) \<notin> set seen"
  shows "parse_rows row seen points [] (map Record rs) = Inr (points @ map row_point rs, [])"
  using assms
proof (induction rs arbitrary: row seen points)
  case (Cons r rs)
  obtain pt fe where pr: "parseRecord r = (pt, fe)" by (cases "parseRecord r")
  have pt: "row_point r = pt" by (simp add: row_point_def pr)
  have "fe = []" "length r = length canonicalHeader" "p_TagName pt \<notin> set seen"
    using Cons.prems by (simp_all add: row_ok_def pr pt)
  moreover have "parse_rows (row + 1) (p_TagName pt # seen) (points @ [pt]) [] (map Record rs) =
      Inr ((points @ [pt]) @ map row_point rs, [])"
    using Cons.prems by (intro Cons.IH) (auto simp: pt image_iff)
  ultimately show ?case by (simp add: pr pt)
qed simp

section \<open>Export\<close>

text \<open>What of a point the table carries: everything but its identity and its times.\<close>

definition portable :: "Point \<Rightarrow> Point" where
  "portable p = p\<lparr>p_ID := 0, p_DeviceID := 0, p_CreatedAt := 0, p_UpdatedAt := 0\<rparr>"

lemma portable_sel [simp]:
  "p_TagName (portable p) = p_TagName p" "p_Description (portable p) = p_Description p"
  "p_RegType (portable p) = p_RegType p" "p_Address (portable p) = p_Address p"
  "p_DataType (portable p) = p_DataType p" "p_BitOffset (portable p) = p_BitOffset p"
  "p_BitLen (portable p) = p_BitLen p" "p_Writeable (portable p) = p_Writeable p"
  by (simp_all add: portable_def)

lemma ValidatePoint_portable: "ValidatePoint (portable p) = ValidatePoint p"
  unfolding ValidatePoint_def portable_sel by (rule refl)

lemma tag_word_char: "tag_char c \<Longrightarrow> ascii_word_char c"
  by (auto simp: tag_char_def tag_first_char_def ascii_word_char_def is_digit_def)

lemma TrimSpace_tag: "isValidTagName t \<Longrightarrow> TrimSpace t = t"
proof -
  assume v: "isValidTagName t"
  then obtain c cs where t: "t = c # cs" "tag_first_char c" "list_all tag_char cs"
    by (auto simp: isValidTagName_def split: list.splits)
  then have "\<forall>x\<in>set t. ascii_word_char x"
    using tag_word_char by (auto simp: list_all_iff tag_char_def)
  then show ?thesis using t(1) by (intro TrimSpace_id) (metis hd_in_set last_in_set)
qed

lemma TrimSpace_types:
  "r \<in> set validRegTypes \<Longrightarrow> TrimSpace r = r" "d \<in> set validDataTypes \<Longrightarrow> TrimSpace d = d"
  by (rule TrimSpace_id; auto simp: validRegTypes_def validDataTypes_def ascii_word_char_def)+

lemma point_admissible_facts:
  assumes "point_admissible p"
  shows "isValidTagName (p_TagName p)" "p_RegType p \<in> set validRegTypes" "p_DataType p \<in> set validDataTypes"
    "0 \<le> p_BitOffset p" "p_BitOffset p \<le> 64" "0 \<le> p_BitLen p" "p_BitLen p \<le> 64" "p_Writeable p \<in> {0, 1}"
proof -
  have "p_BitOffset p + field_length (p_DataType p) (p_BitOffset p) (p_BitLen p) \<le> 64 \<and>
      0 \<le> p_BitOffset p \<and> 0 \<le> p_BitLen p \<and> p_RegType p \<in> {''HoldingReg'', ''InputReg''} \<and>
      p_DataType p \<in> set validDataTypes" if b: "\<not> IsRegTypeBit (p_RegType p)"
  proof -
    have ok: "0 \<le> p_BitOffset p" "0 \<le> p_BitLen p" "p_RegType p \<in> {''HoldingReg'', ''InputReg''}"
      "p_DataType p \<in> set validDataTypes" "point_bits p \<subseteq> {0 ..< TypeBitWidth (p_DataType p)}"
      using assms unfolding point_admissible_def if_not_P [OF b] by blast+
    then show ?thesis
      using point_bits_subset [OF ok(1,2)] TypeBitWidth_le [of "p_DataType p"] by linarith
  qed
  then have reg: "\<not> IsRegTypeBit (p_RegType p) \<Longrightarrow> 0 \<le> p_BitOffset p \<and> p_BitOffset p \<le> 64 \<and>
      0 \<le> p_BitLen p \<and> p_BitLen p \<le> 64 \<and> p_RegType p \<in> set validRegTypes \<and> p_DataType p \<in> set validDataTypes"
    using TypeBitWidth_pos [of "p_DataType p"] validRegTypes_register
    by (simp add: field_length_def split: if_splits)
  have bit: "IsRegTypeBit (p_RegType p) \<Longrightarrow> p_BitOffset p = 0 \<and> p_BitLen p = 0 \<and>
      p_RegType p \<in> set validRegTypes \<and> p_DataType p \<in> set validDataTypes"
    using assms IsRegTypeBit_valid by (simp add: point_admissible_def validDataTypes_def)
  from reg bit show "p_RegType p \<in> set validRegTypes" "p_DataType p \<in> set validDataTypes"
    "0 \<le> p_BitOffset p" "p_BitOffset p \<le> 64" "0 \<le> p_BitLen p" "p_BitLen p \<le> 64"
    by (cases "IsRegTypeBit (p_RegType p)"; simp)+
  show "isValidTagName (p_TagName p)" "p_Writeable p \<in> {0, 1}"
    using assms unfolding point_admissible_def by blast+
qed

lemma row_point_export:
  assumes ok: "point_admissible p" and d: "TrimSpace (p_Description p) = p_Description p"
  shows "parseRecord (export_record p) = (portable p, [])"
proof -
  note f = point_admissible_facts [OF ok]
  have a: "ParseUint (FormatUint (unat (p_Address p))) 16 = Some (unat (p_Address p))"
    using unat_u16_bound [of "p_Address p"] by (intro ParseUint_FormatUint) simp
  have i: "Atoi (Itoa (p_BitOffset p)) = Some (p_BitOffset p)" "Atoi (Itoa (p_BitLen p)) = Some (p_BitLen p)"
    "Atoi (Itoa (p_Writeable p)) = Some (p_Writeable p)"
    using f(4-8) by (auto intro!: Atoi_Itoa)
  have pt: "empty_point\<lparr>p_TagName := p_TagName p, p_RegType := p_RegType p,
      p_DataType := p_DataType p, p_Description := p_Description p, p_Address := p_Address p,
      p_BitOffset := p_BitOffset p, p_BitLen := p_BitLen p, p_Writeable := p_Writeable p\<rparr> = portable p"
    by (simp add: empty_point_def portable_def)
  have w: "p_Writeable p = 0 \<or> p_Writeable p = 1" using f(8) by auto
  have "ValidatePoint (portable p) = []"
    using ok by (simp add: ValidatePoint_portable ValidatePoint_iff_admissible)
  then show ?thesis
    using w by (simp add: parseRecord_def Let_def export_record_def TrimSpace_tag [OF f(1)]
        TrimSpace_types(1) [OF f(2)] TrimSpace_types(2) [OF f(3)] d a i pt when_err_def)
qed

lemma header_trimmed: "list_all2 (\<lambda>l r. TrimSpace l = r) canonicalHeader canonicalHeader"
  by (simp add: canonicalHeader_def, intro conjI TrimSpace_id; simp add: ascii_word_char_def)

lemma header_ok:
  "equalRecord (TrimPrefix (hd canonicalHeader) bom # tl canonicalHeader) canonicalHeader"
proof -
  have "TrimPrefix (hd canonicalHeader) bom = hd canonicalHeader"
    by (simp add: TrimPrefix_def bom_def canonicalHeader_def) code_simp
  then show ?thesis using header_trimmed by (simp add: equalRecord_def) (simp add: canonicalHeader_def)
qed

lemma Parse_header:
  "Parse (Record canonicalHeader # items) =
     (case parse_rows 2 [] [] [] items of
        Inl err \<Rightarrow> Inl err
      | Inr (points, rowErrors) \<Rightarrow>
          if rowErrors \<noteq> [] then Inr ([], rowErrors)
          else if points = [] then Inl NoPoints else Inr (points, []))"
proof -
  have h: "(case canonicalHeader of [] \<Rightarrow> [] | h # hs \<Rightarrow> TrimPrefix h bom # hs) =
      TrimPrefix (hd canonicalHeader) bom # tl canonicalHeader"
    by (simp add: canonicalHeader_def)
  show ?thesis
    unfolding Parse_def list.case csv_item.case Let_def h using header_ok by simp
qed

lemma export_less_key:
  "export_less a b \<longleftrightarrow> (p_RegType a, p_Address a, p_TagName a) < (p_RegType b, p_Address b, p_TagName b)"
  by (auto simp: export_less_def less_prod_def')

text \<open>With distinct tags the export order leaves no choice to the unstable sort.\<close>

lemma sorted_by_key_unique:
  fixes k :: "'a \<Rightarrow> 'k::linorder"
  assumes "sorted_wrt (\<lambda>x y. k x \<le> k y) xs" "sorted_wrt (\<lambda>x y. k x \<le> k y) ys"
    and "mset xs = mset ys" "inj_on k (set xs)"
  shows "xs = ys"
proof -
  have "sorted (map k xs)" "sorted (map k ys)" using assms(1,2) by (simp_all add: sorted_map)
  moreover have "mset (map k xs) = mset (map k ys)" using assms(3) by simp
  ultimately have "map k xs = map k ys" by (metis properties_for_sort)
  moreover have "set xs = set ys" using assms(3) by (metis set_mset_mset)
  ultimately show ?thesis using assms(4) by (intro map_inj_on [of k xs ys]) simp_all
qed

lemma export_sorted:
  assumes "slice_sort srt"
  shows "sorted_wrt (\<lambda>x y. (p_RegType x, p_Address x, p_TagName x) \<le> (p_RegType y, p_Address y, p_TagName y))
    (srt export_less points)"
proof -
  have "export_less = (\<lambda>x y. (p_RegType x, p_Address x, p_TagName x) < (p_RegType y, p_Address y, p_TagName y))"
    by (intro ext) (rule export_less_key)
  then show ?thesis
    using slice_sort.srt_by_key [OF assms, of "\<lambda>x. (p_RegType x, p_Address x, p_TagName x)" points] by simp
qed

section \<open>Properties\<close>

lemma Parse_sound_lemma:
  assumes "Parse items = Inr (points, [])"
  shows "points \<noteq> [] \<and> (\<forall>p\<in>set points. ValidatePoint p = []) \<and> distinct (map p_TagName points) \<and>
    (\<exists>header rows. items = Record header # map Record rows \<and> points = map row_point rows)"
proof -
  obtain header rest where items: "items = Record header # rest"
    using assms by (auto simp: Parse_def split: list.splits csv_item.splits)
  then have p: "parse_rows 2 [] [] [] rest = Inr (points, [])" and ne: "points \<noteq> []"
    using assms by (auto simp: Parse_def Let_def split: if_splits sum.splits)
  from parse_rows_clean [OF p] obtain rs where rs: "rest = map Record rs" "\<forall>r\<in>set rs. row_ok r"
    "points = map row_point rs" "distinct (map p_TagName (map row_point rs))" by auto
  show ?thesis
    using ne rs row_ok_valid(1) by (auto simp: items)
qed

text \<open>
  C24: an import is accepted only as a whole: when \<open>Parse\<close> returns points, there is at least
  one, each passes \<open>ValidatePoint\<close>, no two share a tag, and they are exactly the parsed data
  records of the file, one for one and in order; any single bad row makes it return no points.
\<close>

theorem Parse_sound:
  assumes "Parse items = Inr (points, [])"
  shows "points \<noteq> [] \<and> (\<forall>p\<in>set points. ValidatePoint p = []) \<and> distinct (map p_TagName points) \<and>
    (\<exists>header rows. items = Record header # map Record rows \<and> points = map row_point rows)"
  by (rule Parse_sound_lemma [OF assms])

lemma export_import_lemma:
  assumes "slice_sort srt" and "points \<noteq> []"
    and "\<forall>p\<in>set points. ValidatePoint p = [] \<and> TrimSpace (p_Description p) = p_Description p"
    and "distinct (map p_TagName points)"
  shows "Parse (map Record (csv_Write srt points)) = Inr (map portable (srt export_less points), []) \<and>
    mset (srt export_less points) = mset points"
proof -
  let ?ps = "srt export_less points"
  have m: "mset ?ps = mset points" by (rule slice_sort.srt_mset [OF assms(1)])
  then have s: "set ?ps = set points" by (metis set_mset_mset)
  have row: "parseRecord (export_record p) = (portable p, [])" if "p \<in> set ?ps" for p
    using that s assms(3) by (intro row_point_export) (auto simp: ValidatePoint_iff_admissible)
  have pts: "map row_point (map export_record ?ps) = map portable ?ps"
    using row by (simp add: row_point_def)
  have "\<forall>r\<in>set (map export_record ?ps). row_ok r"
    using row by (auto simp: row_ok_def export_record_def)
  moreover have "distinct (map p_TagName (map row_point (map export_record ?ps)))"
  proof -
    have "mset (map p_TagName ?ps) = mset (map p_TagName points)" using m by simp
    then have "distinct (map p_TagName ?ps)" using assms(4) by (metis mset_eq_imp_distinct_iff)
    then show ?thesis by (simp only: pts) (simp add: comp_def)
  qed
  ultimately have "parse_rows 2 [] [] [] (map Record (map export_record ?ps)) = Inr (map portable ?ps, [])"
    using parse_rows_good [of "map export_record ?ps" "[]" 2 "[]"] pts by simp
  moreover have "?ps \<noteq> []" using m assms(2) by auto
  ultimately show ?thesis using m by (simp add: csv_Write_def Parse_header)
qed

text \<open>The bytes of an export, read again.\<close>

lemma digits_no_cr: "crlf_lf (FormatUint n) = FormatUint n" "0 \<le> i \<Longrightarrow> crlf_lf (Itoa i) = Itoa i"
  by (rule crlf_lf_id, auto simp: Itoa_def CR_def is_digit_def dest: FormatUint_set)+

lemma tag_no_cr: "isValidTagName t \<Longrightarrow> crlf_lf t = t"
  by (rule crlf_lf_id) (auto simp: isValidTagName_def tag_char_def tag_first_char_def is_digit_def CR_def list_all_iff
      split: list.splits)

lemma type_no_cr: "r \<in> set validRegTypes \<Longrightarrow> crlf_lf r = r" "d \<in> set validDataTypes \<Longrightarrow> crlf_lf d = d"
  by (rule crlf_lf_id; auto simp: validRegTypes_def validDataTypes_def CR_def)+

lemma export_record_no_cr:
  assumes "point_admissible p" "crlf_lf (p_Description p) = p_Description p"
  shows "map crlf_lf (export_record p) = export_record p"
  using point_admissible_facts [OF assms(1)] assms(2)
  by (auto simp: export_record_def digits_no_cr tag_no_cr type_no_cr)

lemma header_no_cr: "map crlf_lf canonicalHeader = canonicalHeader"
  by (simp add: canonicalHeader_def CR_def)

lemma csv_text_items:
  assumes "slice_sort srt" "\<forall>p\<in>set points. ValidatePoint p = [] \<and> crlf_lf (p_Description p) = p_Description p"
  shows "csv_items None (csv_text srt points) = map Record (csv_Write srt points)"
proof -
  have s: "set (srt export_less points) = set points"
    using slice_sort.srt_mset [OF assms(1)] by (metis set_mset_mset)
  have "\<forall>r\<in>set (csv_Write srt points). r \<noteq> [] \<and> r \<noteq> [[]]"
    by (auto simp: csv_Write_def canonicalHeader_def export_record_def)
  then have "csv_items None (csv_text srt points) = map (\<lambda>r. Record (map crlf_lf r)) (csv_Write srt points)"
    unfolding csv_text_def by (rule go_csv.rd_all)
  also have "\<dots> = map Record (csv_Write srt points)"
    using assms(2) s export_record_no_cr header_no_cr by (auto simp: csv_Write_def ValidatePoint_iff_admissible)
  finally show ?thesis .
qed

lemma export_import_text:
  assumes "slice_sort srt" and "points \<noteq> []"
    and "\<forall>p\<in>set points. ValidatePoint p = [] \<and> TrimSpace (p_Description p) = p_Description p \<and>
      crlf_lf (p_Description p) = p_Description p"
    and "distinct (map p_TagName points)"
  shows "Parse (csv_items None (csv_text srt points)) = Inr (map portable (srt export_less points), []) \<and>
    mset (srt export_less points) = mset points"
  using csv_text_items [OF assms(1), of points] export_import_lemma [OF assms(1,2) _ assms(4)] assms(3) by simp

text \<open>
  C25: export then import gives the points back: for at least one point, all valid, with distinct tags
  and trimmed descriptions in which no carriage return stands before a line feed, the bytes that
  \<open>Write\<close> produces are read and accepted by \<open>Parse\<close> without any row error and yield exactly those
  points, in export order, up to identities and times. Such descriptions may hold commas, quotes and
  line feeds; a carriage return before a line feed is lost (\<open>export_folds_crlf\<close>).
\<close>

theorem export_import_roundtrip:
  assumes "slice_sort srt" and "points \<noteq> []"
    and "\<forall>p\<in>set points. ValidatePoint p = [] \<and> TrimSpace (p_Description p) = p_Description p \<and>
      crlf_lf (p_Description p) = p_Description p"
    and "distinct (map p_TagName points)"
  shows "Parse (csv_items None (csv_text srt points)) = Inr (map portable (srt export_less points), []) \<and>
    mset (srt export_less points) = mset points"
  by (rule export_import_text [OF assms])

text \<open>
  The export is canonical: for points with distinct tags the written table depends only on
  which points there are, not on the order they are stored in nor on the sort routine.
\<close>

lemma export_canonical:
  assumes "slice_sort srt" and "slice_sort srt'" and "mset points = mset points'"
    and "distinct (map p_TagName points)"
  shows "csv_Write srt points = csv_Write srt' points'"
proof -
  have m: "mset (srt export_less points) = mset points" "mset (srt' export_less points') = mset points"
    using slice_sort.srt_mset [OF assms(1)] slice_sort.srt_mset [OF assms(2)] assms(3) by metis+
  then have "set (srt export_less points) = set points" by (metis set_mset_mset)
  moreover have "inj_on (\<lambda>x. (p_RegType x, p_Address x, p_TagName x)) (set points)"
    using assms(4) by (auto simp: distinct_map inj_on_def)
  ultimately have "srt export_less points = srt' export_less points'"
    using m by (intro sorted_by_key_unique [OF export_sorted [OF assms(1)] export_sorted [OF assms(2)]]) simp_all
  then show ?thesis by (simp add: csv_Write_def)
qed

section \<open>Witnesses\<close>

definition sample_stored :: Point where
  "sample_stored = \<lparr>p_ID = 9, p_DeviceID = 1, p_TagName = ''t1'', p_Description = ''d'',
     p_RegType = ''HoldingReg'', p_Address = 40, p_DataType = ''Int16'', p_BitOffset = 0,
     p_BitLen = 16, p_Writeable = 1, p_CreatedAt = 3, p_UpdatedAt = 4\<rparr>"

lemma sample_trimmed: "TrimSpace ''d'' = ''d''"
  by (rule TrimSpace_id) (simp add: ascii_word_char_def)

lemma sample_valid: "ValidatePoint sample_stored = []"
proof -
  have "RuneCountInString (TrimSpace ''d'') \<le> 1"
    using RuneCount_le_length [of "''d''"] by (simp add: sample_trimmed)
  then show ?thesis
    by (simp add: ValidatePoint_iff_admissible point_admissible_def sample_stored_def IsRegTypeBit_def
        isValidTagName_def tag_first_char_def tag_char_def is_digit_def validDataTypes_def
        point_bits_def field_length_def TypeBitWidth_def whole_value_type_def point_registers_def)
qed

lemma sample_roundtrip_hyps:
  "\<forall>p\<in>set [sample_stored]. ValidatePoint p = [] \<and> TrimSpace (p_Description p) = p_Description p"
  using sample_valid sample_trimmed by (simp add: sample_stored_def)

lemma sample_sort1: "insertion_sort lt [x] = [x]"
  by (simp add: insertion_sort_def)

lemma sample_text_hyps:
  "\<forall>p\<in>set [sample_stored]. ValidatePoint p = [] \<and> TrimSpace (p_Description p) = p_Description p \<and>
     crlf_lf (p_Description p) = p_Description p"
  using sample_roundtrip_hyps by (simp add: sample_stored_def)

theorem export_import_roundtrip_witness:
  "Parse (csv_items None (csv_text insertion_sort [sample_stored])) = Inr ([portable sample_stored], [])"
  using export_import_roundtrip [OF go_sort.slice_sort_axioms _ sample_text_hyps]
  by (simp add: sample_sort1)

text \<open>A carriage return before a line feed does not survive: the description comes back shorter.\<close>

lemma export_folds_crlf:
  "csv_items fin (write_record (export_record (sample_stored\<lparr>p_Description := [CHR ''d'', CR, LF, CHR ''e'']\<rparr>)) @ s) =
     Record (export_record (sample_stored\<lparr>p_Description := [CHR ''d'', LF, CHR ''e'']\<rparr>)) # csv_items fin s"
proof -
  have ok: "point_admissible sample_stored" using sample_valid by (simp add: ValidatePoint_iff_admissible)
  have d: "crlf_lf [CHR ''d'', CR, LF, CHR ''e''] = [CHR ''d'', LF, CHR ''e'']" by (simp add: CR_def LF_def)
  have "map crlf_lf (export_record (sample_stored\<lparr>p_Description := [CHR ''d'', CR, LF, CHR ''e'']\<rparr>)) =
      export_record (sample_stored\<lparr>p_Description := [CHR ''d'', LF, CHR ''e'']\<rparr>)"
    using export_record_no_cr [OF ok] sample_text_hyps d by (simp add: export_record_def)
  then show ?thesis
    using record_read [of "export_record (sample_stored\<lparr>p_Description := [CHR ''d'', CR, LF, CHR ''e'']\<rparr>)" fin s]
    by (simp add: export_record_def)
qed

lemma sample_parsed:
  "Parse (Record canonicalHeader # [Record (export_record sample_stored)]) = Inr ([portable sample_stored], [])"
proof -
  have "parseRecord (export_record sample_stored) = (portable sample_stored, [])"
    using sample_roundtrip_hyps by (intro row_point_export) (simp_all add: ValidatePoint_iff_admissible)
  moreover have "length (export_record sample_stored) = 8" by (simp add: export_record_def)
  ultimately show ?thesis by (simp add: Parse_header)
qed

theorem Parse_sound_witness:
  "ValidatePoint (portable sample_stored) = [] \<and> distinct (map p_TagName [portable sample_stored])"
  using Parse_sound [OF sample_parsed] by simp

theorem export_canonical_witness:
  "csv_Write insertion_sort [sample_stored, sample_stored\<lparr>p_TagName := ''t2''\<rparr>] =
   csv_Write insertion_sort [sample_stored\<lparr>p_TagName := ''t2''\<rparr>, sample_stored]"
  by (rule export_canonical [OF go_sort.slice_sort_axioms go_sort.slice_sort_axioms])
    (simp_all add: sample_stored_def)

end
