(* ===== verification/PointsFile.thy ===== *)
theory PointsFile
  imports PointCsv
begin

text \<open>
  \<open>LoadPointsFromCSV\<close> of \<open>internal/config/point_config.go\<close>: the older, file-based way to
  configure points. The argument \<open>records\<close> is what opening and reading the file gave. Each
  validation message of the code is a constructor of \<open>row_problem\<close>.
\<close>

datatype row_problem =
    BadColumnCount nat
  | TagNameEmpty
  | TagNameInvalid
  | RegTypeInvalid
  | DataTypeInvalid
  | AddressInvalid
  | BitOffsetInvalid
  | BitLenInvalid
  | BoolWithBits
  | FloatWithBits
  | BitLenRequired
  | BitLenTooLarge
  | BitOffsetTooLarge
  | BitFieldTooLarge
  | BitTypeNeedsBool
  | WriteableInvalid
  | DescriptionTooLong
  | TagNameDuplicate

datatype file_error =
    OpenFailed string
  | CsvFailed string
  | TooFewRows
  | HeaderInvalid
  | RowsInvalid "(nat \<times> row_problem) list"
  | NoValidPoints

text \<open>The bit columns of a register point; \<open>None\<close> when they are accepted.\<close>

definition bit_columns :: "string \<Rightarrow> int option \<Rightarrow> int option \<Rightarrow> row_problem option" where
  "bit_columns dataType off len =
     (case off of
        None \<Rightarrow> Some BitOffsetInvalid
      | Some bitOff \<Rightarrow>
          if bitOff < 0 then Some BitOffsetInvalid
          else
            case len of
              None \<Rightarrow> Some BitLenInvalid
            | Some bitLen \<Rightarrow>
                if bitLen < 0 then Some BitLenInvalid
                else if dataType = ''Bool'' \<and> (bitOff > 0 \<or> bitLen > 0) then Some BoolWithBits
                else if (dataType = ''Float32'' \<or> dataType = ''Double'') \<and> (bitOff > 0 \<or> bitLen > 0)
                  then Some FloatWithBits
                else if bitOff = 0 \<and> bitLen = 0 \<and> dataType \<noteq> ''Bool'' then Some BitLenRequired
                else
                  let maxBitLen = (if bitOff > 0 then TypeBitWidth dataType - 1 else TypeBitWidth dataType) in
                  if bitLen > maxBitLen then Some BitLenTooLarge
                  else if bitOff > TypeBitWidth dataType - 1 then Some BitOffsetTooLarge
                  else
                    let effectiveLen = (if bitOff > 0 \<and> bitLen = 0 then 1 else bitLen) in
                    if bitOff + effectiveLen > TypeBitWidth dataType then Some BitFieldTooLarge
                    else None)"

definition load_row :: "string list \<Rightarrow> string set \<Rightarrow> row_problem + PointConfig" where
  "load_row r tagSet =
     (if length r \<noteq> 8 then Inl (BadColumnCount (length r))
      else
        let tagName = TrimSpace (r ! 0); regType = TrimSpace (r ! 1); dataType = TrimSpace (r ! 3) in
        if tagName = [] then Inl TagNameEmpty
        else if \<not> isValidTagName tagName then Inl TagNameInvalid
        else if regType \<notin> set validRegTypes then Inl RegTypeInvalid
        else if dataType \<notin> set validDataTypes then Inl DataTypeInvalid
        else
          case ParseUint (TrimSpace (r ! 2)) 16 of
            None \<Rightarrow> Inl AddressInvalid
          | Some addr \<Rightarrow>
              let off = Atoi (TrimSpace (r ! 4)); len = Atoi (TrimSpace (r ! 5)) in
              case (if IsRegTypeBit regType then None else bit_columns dataType off len) of
                Some problem \<Rightarrow> Inl problem
              | None \<Rightarrow>
                  if IsRegTypeBit regType \<and> dataType \<noteq> ''Bool'' then Inl BitTypeNeedsBool
                  else
                    case Atoi (TrimSpace (r ! 6)) of
                      None \<Rightarrow> Inl WriteableInvalid
                    | Some writeableValue \<Rightarrow>
                        if writeableValue \<noteq> 0 \<and> writeableValue \<noteq> 1 then Inl WriteableInvalid
                        else
                          let description = TrimSpace (r ! 7) in
                          if RuneCountInString description > 255 then Inl DescriptionTooLong
                          else if tagName \<in> tagSet then Inl TagNameDuplicate
                          else Inr \<lparr>pc_TagName = tagName, pc_Description = description,
                            pc_RegType = regType, pc_Address = of_nat addr, pc_DataType = dataType,
                            pc_BitOffset = (if IsRegTypeBit regType then 0 else the off),
                            pc_BitLen = (if IsRegTypeBit regType then 0 else the len),
                            pc_Writeable = (writeableValue = 1)\<rparr>)"

fun load_rows :: "nat \<Rightarrow> string set \<Rightarrow> PointConfig list \<Rightarrow> (nat \<times> row_problem) list \<Rightarrow> string list list \<Rightarrow>
    PointConfig list \<times> (nat \<times> row_problem) list" where
  "load_rows lineNum tagSet points problems [] = (points, problems)"
| "load_rows lineNum tagSet points problems (r # rs) =
     (case load_row r tagSet of
        Inl p \<Rightarrow> load_rows (lineNum + 1) tagSet points (problems @ [(lineNum, p)]) rs
      | Inr pt \<Rightarrow> load_rows (lineNum + 1) (insert (pc_TagName pt) tagSet) (points @ [pt]) problems rs)"

definition LoadPointsFromCSV :: "file_error + string list list \<Rightarrow> file_error + PointConfig list" where
  "LoadPointsFromCSV records =
     (case records of
        Inl err \<Rightarrow> Inl err
      | Inr rows \<Rightarrow>
          if length rows < 2 then Inl TooFewRows
          else if length (hd rows) \<noteq> length canonicalHeader then Inl HeaderInvalid
          else if \<not> list_all2 (\<lambda>cell name. TrimSpace (TrimPrefix cell bom) = name) (hd rows) canonicalHeader
            then Inl HeaderInvalid
          else
            let (points, problems) = load_rows 1 {} [] [] (tl rows) in
            if problems \<noteq> [] then Inl (RowsInvalid problems)
            else if points = [] then Inl NoValidPoints
            else Inr points)"

text \<open>The whole function: \<open>opened\<close> is what opening the file and reading its bytes gives.\<close>

definition load_points_file :: "string + string option \<times> string \<Rightarrow> file_error + PointConfig list" where
  "load_points_file opened =
     LoadPointsFromCSV
       (case opened of
          Inl err \<Rightarrow> Inl (OpenFailed err)
        | Inr (fin, content) \<Rightarrow> with_err CsvFailed (ReadAll fin content))"

text \<open>
  A row with another number of columns never gets to the check of its columns: \<open>ReadAll\<close> refuses the
  whole file, since it takes the width from the first record.
\<close>

lemma load_row_columns: "load_row r tagSet = Inl (BadColumnCount n) \<Longrightarrow> length r \<noteq> length canonicalHeader"
  by (auto simp: load_row_def Let_def bit_columns_def split: if_splits option.splits)

lemma load_rows_columns:
  assumes "load_rows n tagSet points problems rs = (ps, es)" "(k, BadColumnCount m) \<in> set es"
    and "\<forall>r\<in>set rs. length r = length canonicalHeader"
  shows "(k, BadColumnCount m) \<in> set problems"
  using assms
proof (induction n tagSet points problems rs rule: load_rows.induct)
  case (2 lineNum tagSet points problems r rs)
  then show ?case
    by (cases "load_row r tagSet") (auto dest: load_row_columns)
qed simp

lemma column_check_unreachable:
  assumes "load_points_file opened = Inl (RowsInvalid problems)"
  shows "(k, BadColumnCount m) \<notin> set problems"
proof
  assume bad: "(k, BadColumnCount m) \<in> set problems"
  obtain fin content rows where o: "opened = Inr (fin, content)" and rows: "ReadAll fin content = Inr rows"
    using assms by (cases opened) (auto simp: load_points_file_def LoadPointsFromCSV_def with_err_def
        split: sum.splits)
  then have l: "\<not> length rows < 2" "length (hd rows) = length canonicalHeader"
    and e: "\<exists>ps. load_rows 1 {} [] [] (tl rows) = (ps, problems)"
    using assms by (auto simp: load_points_file_def LoadPointsFromCSV_def Let_def split: if_splits prod.splits)
  have "\<forall>r\<in>set (tl rows). length r = length canonicalHeader"
    using ReadAll_width [OF rows] l by (metis list.set_sel(2) tl_Nil)
  with e bad load_rows_columns show False by fastforce
qed

section \<open>Against the validation gate\<close>

text \<open>The stored form of a loaded point, to compare the loader with \<open>ValidatePoint\<close>.\<close>

definition as_point :: "PointConfig \<Rightarrow> Point" where
  "as_point c = empty_point\<lparr>p_TagName := pc_TagName c, p_Description := pc_Description c,
     p_RegType := pc_RegType c, p_Address := pc_Address c, p_DataType := pc_DataType c,
     p_BitOffset := pc_BitOffset c, p_BitLen := pc_BitLen c,
     p_Writeable := (if pc_Writeable c then 1 else 0)\<rparr>"

lemma as_point_sel [simp]:
  "p_TagName (as_point c) = pc_TagName c" "p_Description (as_point c) = pc_Description c"
  "p_RegType (as_point c) = pc_RegType c" "p_Address (as_point c) = pc_Address c"
  "p_DataType (as_point c) = pc_DataType c" "p_BitOffset (as_point c) = pc_BitOffset c"
  "p_BitLen (as_point c) = pc_BitLen c" "p_Writeable (as_point c) = (if pc_Writeable c then 1 else 0)"
  by (simp_all add: as_point_def)

lemma bit_columns_None:
  assumes "bit_columns d off len = None"
  obtains o' l' where "off = Some o'" "len = Some l'" "0 \<le> o'" "0 \<le> l'"
    "o' + field_length d o' l' \<le> TypeBitWidth d" "o' = 0 \<and> l' = 0 \<longleftrightarrow> whole_value_type d"
proof -
  define B where "B \<longleftrightarrow> d = ''Bool''"
  define F where "F \<longleftrightarrow> d = ''Float32'' \<or> d = ''Double''"
  have w: "whole_value_type d \<longleftrightarrow> B \<or> F" by (simp add: whole_value_type_def B_def F_def)
  note pos = TypeBitWidth_pos [of d]
  obtain o' where o: "off = Some o'" "\<not> o' < 0" and rest: "bit_columns d (Some o') len = None"
    using assms by (cases off) (simp_all only: bit_columns_def option.case guards option.distinct simp_thms)
  obtain l' where l: "len = Some l'" "\<not> l' < 0"
    using rest by (cases len) (simp_all only: bit_columns_def option.case guards option.distinct simp_thms)
  note ol = o(1) l(1) o(2) l(2)
  have c: "\<not> (B \<and> (o' > 0 \<or> l' > 0))" "\<not> (F \<and> (o' > 0 \<or> l' > 0))" "\<not> (o' = 0 \<and> l' = 0 \<and> \<not> B)"
    "\<not> o' > TypeBitWidth d - 1" "\<not> o' + (if o' > 0 \<and> l' = 0 then 1 else l') > TypeBitWidth d"
    using assms unfolding bit_columns_def ol option.case B_def [symmetric] F_def [symmetric] Let_def guards
    by blast+
  show ?thesis
  proof (rule that [OF ol(1,2)])
    show "0 \<le> o'" "0 \<le> l'" using ol by simp_all
    show "o' + field_length d o' l' \<le> TypeBitWidth d"
      using c(4,5) ol pos unfolding field_length_def by (cases "o' = 0"; cases "l' = 0") simp_all
    show "o' = 0 \<and> l' = 0 \<longleftrightarrow> whole_value_type d"
      using c(1-3) ol unfolding w by linarith
  qed
qed

lemma load_row_Inr:
  assumes "load_row r tags = Inr c"
  shows "isValidTagName (pc_TagName c) \<and> pc_TagName c \<notin> tags \<and>
    RuneCountInString (pc_Description c) \<le> 255 \<and> TrimSpace (pc_Description c) = pc_Description c \<and>
    pc_RegType c \<in> set validRegTypes \<and> pc_DataType c \<in> set validDataTypes \<and>
    (if IsRegTypeBit (pc_RegType c) then pc_DataType c = ''Bool'' \<and> pc_BitOffset c = 0 \<and> pc_BitLen c = 0
     else 0 \<le> pc_BitOffset c \<and> 0 \<le> pc_BitLen c \<and>
       pc_BitOffset c + field_length (pc_DataType c) (pc_BitOffset c) (pc_BitLen c)
         \<le> TypeBitWidth (pc_DataType c) \<and>
       (pc_BitOffset c = 0 \<and> pc_BitLen c = 0 \<longleftrightarrow> whole_value_type (pc_DataType c)))"
proof -
  define t where "t = TrimSpace (r ! 0)"
  define rt where "rt = TrimSpace (r ! 1)"
  define d where "d = TrimSpace (r ! 3)"
  define b where "b = IsRegTypeBit rt"
  define isBool where "isBool \<longleftrightarrow> d = ''Bool''"
  let ?off = "Atoi (TrimSpace (r ! 4))" and ?len = "Atoi (TrimSpace (r ! 5))"
  have row: "\<not> length r \<noteq> 8" "\<not> t = []" "\<not> \<not> isValidTagName t" "\<not> rt \<notin> set validRegTypes"
      "\<not> d \<notin> set validDataTypes"
      "(case ParseUint (TrimSpace (r ! 2)) 16 of
            None \<Rightarrow> Inl AddressInvalid
          | Some addr \<Rightarrow>
              case (if b then None else bit_columns d ?off ?len) of
                Some problem \<Rightarrow> Inl problem
              | None \<Rightarrow>
                  if b \<and> \<not> isBool then Inl BitTypeNeedsBool
                  else
                    case Atoi (TrimSpace (r ! 6)) of
                      None \<Rightarrow> Inl WriteableInvalid
                    | Some writeableValue \<Rightarrow>
                        if writeableValue \<noteq> 0 \<and> writeableValue \<noteq> 1 then Inl WriteableInvalid
                        else if RuneCountInString (TrimSpace (r ! 7)) > 255 then Inl DescriptionTooLong
                        else if t \<in> tags then Inl TagNameDuplicate
                        else Inr \<lparr>pc_TagName = t, pc_Description = TrimSpace (r ! 7),
                            pc_RegType = rt, pc_Address = of_nat addr, pc_DataType = d,
                            pc_BitOffset = (if b then 0 else the ?off),
                            pc_BitLen = (if b then 0 else the ?len),
                            pc_Writeable = (writeableValue = 1)\<rparr>) = Inr c"
    using assms unfolding load_row_def Let_def guards t_def [symmetric] rt_def [symmetric]
      d_def [symmetric] b_def [symmetric] isBool_def [symmetric] by blast+
  then obtain addr w where
    cols: "b \<or> bit_columns d ?off ?len = None" "\<not> (b \<and> \<not> isBool)"
    and rest: "\<not> RuneCountInString (TrimSpace (r ! 7)) > 255" "\<not> t \<in> tags"
    and c: "c = \<lparr>pc_TagName = t, pc_Description = TrimSpace (r ! 7), pc_RegType = rt,
      pc_Address = of_nat addr, pc_DataType = d, pc_BitOffset = (if b then 0 else the ?off),
      pc_BitLen = (if b then 0 else the ?len), pc_Writeable = w\<rparr>"
    by (auto split: option.splits if_splits)
  have sel: "pc_TagName c = t" "pc_Description c = TrimSpace (r ! 7)" "pc_RegType c = rt" "pc_DataType c = d"
    "pc_BitOffset c = (if b then 0 else the ?off)" "pc_BitLen c = (if b then 0 else the ?len)"
    by (simp_all add: c)
  have bits: "if b then d = ''Bool'' \<and> pc_BitOffset c = 0 \<and> pc_BitLen c = 0
     else 0 \<le> pc_BitOffset c \<and> 0 \<le> pc_BitLen c \<and>
       pc_BitOffset c + field_length d (pc_BitOffset c) (pc_BitLen c) \<le> TypeBitWidth d \<and>
       (pc_BitOffset c = 0 \<and> pc_BitLen c = 0 \<longleftrightarrow> whole_value_type d)"
  proof (cases b)
    case True
    with cols(2) show ?thesis by (simp add: sel isBool_def)
  next
    case False
    with cols(1) have "bit_columns d ?off ?len = None" by simp
    then show ?thesis using False by (elim bit_columns_None) (simp add: sel)
  qed
  show ?thesis
    using row(1-5) rest bits by (simp only: sel(1-4) b_def [symmetric] TrimSpace_idem not_not not_less simp_thms)
qed

lemma load_rows_inv:
  "load_rows n tags points problems rs = (ps, qs) \<Longrightarrow>
     \<exists>new. ps = points @ new \<and> distinct (map pc_TagName new) \<and>
       (\<forall>c\<in>set new. pc_TagName c \<notin> tags \<and> (\<exists>r ts. load_row r ts = Inr c)) \<and>
       (qs = [] \<longrightarrow> length new = length rs)"
proof (induction n tags points problems rs rule: load_rows.induct)
  case (2 n tags points problems r rs)
  show ?case
  proof (cases "load_row r tags")
    case (Inl p)
    have ne: "qs \<noteq> []" if "load_rows m ts pts (problems @ [(n, p)]) rs = (ps, qs)" for m ts pts
    proof -
      have "\<exists>more. qs = pr @ more" if "load_rows m ts pts pr rs = (ps, qs)" for m ts pts pr rs
        using that by (induction m ts pts pr rs rule: load_rows.induct) (auto split: sum.splits)
      from this [OF that] show ?thesis by auto
    qed
    with 2 Inl show ?thesis by fastforce
  next
    case (Inr pt)
    then have "pc_TagName pt \<notin> tags" using load_row_Inr by blast
    moreover from 2(2) [OF Inr] "2.prems" Inr obtain new where
      "ps = (points @ [pt]) @ new" "distinct (map pc_TagName new)"
      "\<forall>c\<in>set new. pc_TagName c \<notin> insert (pc_TagName pt) tags \<and> (\<exists>r ts. load_row r ts = Inr c)"
      "qs = [] \<longrightarrow> length new = length rs" by auto
    ultimately show ?thesis
      using Inr by (intro exI [of _ "pt # new"]) auto
  qed
qed auto

section \<open>Properties\<close>

text \<open>
  A point file is loaded whole or not at all, and what is loaded is nearly what the gate
  accepts: on success there is one point per data row, tags are distinct, and each point passes
  \<open>ValidatePoint\<close> exactly when its registers lie inside the address space and it is not a
  writeable input register; these two checks of the gate are the only ones the loader omits.
\<close>

lemma LoadPointsFromCSV_against_gate:
  assumes "LoadPointsFromCSV (Inr rows) = Inr points"
  shows "length points = length rows - 1 \<and> points \<noteq> [] \<and> distinct (map pc_TagName points) \<and>
    (\<forall>c\<in>set points. ValidatePoint (as_point c) = [] \<longleftrightarrow>
       IsRegTypeBit (pc_RegType c) \<or>
       unat (pc_Address c) + point_registers (pc_DataType c) \<le> 2 ^ 16 \<and>
       \<not> (pc_Writeable c \<and> pc_RegType c \<noteq> ''HoldingReg''))"
proof -
  from assms have "load_rows 1 {} [] [] (tl rows) = (points, [])" and ne: "points \<noteq> []"
    by (auto simp: LoadPointsFromCSV_def Let_def split: if_splits prod.splits)
  from load_rows_inv [OF this(1)] have l: "distinct (map pc_TagName points)"
      "\<forall>c\<in>set points. \<exists>r ts. load_row r ts = Inr c" "length points = length rows - 1" by auto
  have "ValidatePoint (as_point c) = [] \<longleftrightarrow>
       IsRegTypeBit (pc_RegType c) \<or>
       unat (pc_Address c) + point_registers (pc_DataType c) \<le> 2 ^ 16 \<and>
       \<not> (pc_Writeable c \<and> pc_RegType c \<noteq> ''HoldingReg'')" if "c \<in> set points" for c
  proof -
    from that l(2) obtain r ts where "load_row r ts = Inr c" by blast
    note f = load_row_Inr [OF this]
    show ?thesis
    proof (cases "IsRegTypeBit (pc_RegType c)")
      case True
      with f show ?thesis by (simp add: ValidatePoint_iff_admissible point_admissible_def)
    next
      case False
      have n: "0 \<le> p_BitOffset (as_point c)" "0 \<le> p_BitLen (as_point c)" using f False by simp_all
      have reg: "pc_RegType c \<in> {''HoldingReg'', ''InputReg''}"
        using f False validRegTypes_register by blast
      have sub: "point_bits (as_point c) \<subseteq> {0 ..< TypeBitWidth (pc_DataType c)}"
        using f False point_bits_subset [OF n] by simp
      show ?thesis
        unfolding ValidatePoint_iff_admissible point_admissible_def as_point_sel if_not_P [OF False]
        using f False reg sub by (simp only: if_False simp_thms) auto
    qed
  qed
  with l ne show ?thesis by blast
qed

section \<open>Witnesses\<close>

definition sample_loaded :: PointConfig where
  "sample_loaded = \<lparr>pc_TagName = ''t1'', pc_Description = ''d'', pc_RegType = ''HoldingReg'',
     pc_Address = 40, pc_DataType = ''Int16'', pc_BitOffset = 0, pc_BitLen = 16, pc_Writeable = True\<rparr>"

lemma sample_row: "load_row (export_record sample_stored) {} = Inr sample_loaded"
proof -
  have tag: "isValidTagName ''t1''"
    by (simp add: isValidTagName_def tag_first_char_def tag_char_def is_digit_def)
  have rt: "''HoldingReg'' \<in> set validRegTypes" and dt: "''Int16'' \<in> set validDataTypes"
    by (simp_all add: validRegTypes_def validDataTypes_def)
  have bits: "bit_columns ''Int16'' (Some 0) (Some 16) = None"
    by (simp add: bit_columns_def TypeBitWidth_def)
  have n: "ParseUint (FormatUint 40) 16 = Some 40" "Atoi (Itoa 0) = Some 0" "Atoi (Itoa 16) = Some 16"
    "Atoi (Itoa 1) = Some 1"
    by (auto intro!: ParseUint_FormatUint Atoi_Itoa)
  have desc: "\<not> 255 < RuneCountInString ''d''"
    using RuneCount_le_length [of "''d''"] by simp
  have nb: "\<not> IsRegTypeBit ''HoldingReg''" by (simp add: IsRegTypeBit_def)
  show ?thesis
    using tag rt dt desc nb
    by (simp add: load_row_def export_record_def sample_stored_def sample_loaded_def n bits
        TrimSpace_tag TrimSpace_types sample_trimmed)
qed

lemma sample_file_loaded:
  "LoadPointsFromCSV (Inr [canonicalHeader, export_record sample_stored]) = Inr [sample_loaded]"
proof -
  have "list_all (\<lambda>h. TrimPrefix h bom = h) canonicalHeader"
    by code_simp
  then have "list_all2 (\<lambda>cell name. TrimSpace (TrimPrefix cell bom) = name) canonicalHeader canonicalHeader"
    by (intro list.rel_mono_strong [OF header_trimmed]) (simp add: list_all_iff)
  then show ?thesis
    by (simp add: LoadPointsFromCSV_def sample_row)
qed

theorem LoadPointsFromCSV_against_gate_witness:
  "ValidatePoint (as_point sample_loaded) = []"
  using LoadPointsFromCSV_against_gate [OF sample_file_loaded]
  by (simp add: sample_loaded_def point_registers_def)

end
