(* ===== verification/KafkaConfig.thy ===== *)
theory KafkaConfig
  imports DataModel
begin

text \<open>
  \<open>internal/kafkapub/config.go\<close>: normalisation of the global Kafka settings and validation of a
  device's publishing policy. The path functions of \<open>path/filepath\<close> differ between the systems
  the program is built for, so they are the argument \<open>fp\<close>, with the Unix functions as an
  instance; \<open>sarama.ParseKafkaVersion\<close>, a third-party function, is the argument \<open>versionOk\<close>.
\<close>

section \<open>Paths\<close>

record path_ops =
  fp_IsAbs :: "string \<Rightarrow> bool"
  fp_Clean :: "string \<Rightarrow> string"
  fp_Join :: "string \<Rightarrow> string \<Rightarrow> string"

text \<open>\<open>filepath.Clean\<close> and its companions on Unix.\<close>

fun split_on :: "char \<Rightarrow> string \<Rightarrow> string \<Rightarrow> string list" where
  "split_on sep acc [] = [acc]"
| "split_on sep acc (c # cs) = (if c = sep then acc # split_on sep [] cs else split_on sep (acc @ [c]) cs)"

fun join_with :: "string \<Rightarrow> string list \<Rightarrow> string" where
  "join_with sep [] = []"
| "join_with sep [x] = x"
| "join_with sep (x # y # ys) = x @ sep @ join_with sep (y # ys)"

definition clean_step :: "bool \<Rightarrow> string list \<Rightarrow> string \<Rightarrow> string list" where
  "clean_step rooted stack c =
     (if c = [] \<or> c = ''.'' then stack
      else if c = ''..'' then
        (if stack \<noteq> [] \<and> last stack \<noteq> ''..'' then butlast stack
         else if rooted then stack else stack @ [c])
      else stack @ [c])"

definition unix_IsAbs :: "string \<Rightarrow> bool" where
  "unix_IsAbs p \<longleftrightarrow> p \<noteq> [] \<and> hd p = CHR ''/''"

definition unix_Clean :: "string \<Rightarrow> string" where
  "unix_Clean p =
     (let rooted = unix_IsAbs p;
          stack = foldl (clean_step rooted) [] (split_on (CHR ''/'') [] p);
          body = join_with ''/'' stack
      in if rooted then ''/'' @ body else if body = [] then ''.'' else body)"

definition unix_Join :: "string \<Rightarrow> string \<Rightarrow> string" where
  "unix_Join a b =
     (if a = [] \<and> b = [] then []
      else unix_Clean (join_with ''/'' (filter (\<lambda>e. e \<noteq> []) [a, b])))"

definition unix_paths :: path_ops where
  "unix_paths = \<lparr>fp_IsAbs = unix_IsAbs, fp_Clean = unix_Clean, fp_Join = unix_Join\<rparr>"

section \<open>Host and port\<close>

definition last_index :: "char \<Rightarrow> string \<Rightarrow> nat option" where
  "last_index c s = (if c \<in> set s then Some (length s - 1 - length (takeWhile (\<lambda>x. x \<noteq> c) (rev s))) else None)"

definition first_index :: "char \<Rightarrow> string \<Rightarrow> nat option" where
  "first_index c s = (if c \<in> set s then Some (length (takeWhile (\<lambda>x. x \<noteq> c) s)) else None)"

text \<open>Whether \<open>net.SplitHostPort\<close> succeeds, and with which host and port.\<close>

definition SplitHostPort :: "string \<Rightarrow> (string \<times> string) option" where
  "SplitHostPort hostport =
     (case last_index (CHR '':'') hostport of
        None \<Rightarrow> None
      | Some i \<Rightarrow>
          if hd hostport = CHR ''['' then
            (case first_index (CHR '']'') hostport of
               None \<Rightarrow> None
             | Some e \<Rightarrow>
                 if e + 1 \<noteq> i then None
                 else if CHR ''['' \<in> set (drop 1 hostport) \<or> CHR '']'' \<in> set (drop (e + 1) hostport) then None
                 else Some (take (e - 1) (drop 1 hostport), drop (i + 1) hostport))
          else
            let host = take i hostport in
            if CHR '':'' \<in> set host then None
            else if CHR ''['' \<in> set hostport \<or> CHR '']'' \<in> set hostport then None
            else Some (host, drop (i + 1) hostport))"

section \<open>Global settings\<close>

datatype kafka_error =
    BrokerNotHostPort string
  | BrokerRequired
  | ClientIDEmpty
  | KafkaVersionInvalid string
  | QueueCapacityRange
  | UnsupportedProtocol string
  | UnsupportedMechanism string
  | MechanismWithoutSASL
  | CertificateWithoutKey
  | EndpointAlgorithm

definition resolveOptionalPath :: "path_ops \<Rightarrow> string \<Rightarrow> string \<Rightarrow> string" where
  "resolveOptionalPath fp baseDir val =
     (let val = TrimSpace val in
      if val = [] \<or> fp_IsAbs fp val then fp_Clean fp val
      else fp_Clean fp (fp_Join fp baseDir val))"

fun first_bad_broker :: "string list \<Rightarrow> string option" where
  "first_bad_broker [] = None"
| "first_bad_broker (b # bs) = (if SplitHostPort b = None then Some b else first_bad_broker bs)"

definition usesSASL :: "string \<Rightarrow> bool" where
  "usesSASL protocol \<longleftrightarrow> protocol = ''SASL_PLAINTEXT'' \<or> protocol = ''SASL_SSL''"

definition NormalizeSettings :: "(string \<Rightarrow> string) \<Rightarrow> path_ops \<Rightarrow> (string \<Rightarrow> bool) \<Rightarrow>
    KafkaSettings \<Rightarrow> string \<Rightarrow> kafka_error + KafkaSettings" where
  "NormalizeSettings uni fp versionOk cfg0 baseDir =
     (let cfg = cfg0\<lparr>k_ClientID := TrimSpace (k_ClientID cfg0),
            k_KafkaVersion := TrimSpace (k_KafkaVersion cfg0),
            k_SecurityProtocol := ToUpper uni (TrimSpace (k_SecurityProtocol cfg0)),
            k_SASLMechanism := ToUpper uni (TrimSpace (k_SASLMechanism cfg0)),
            k_SASLUsername := TrimSpace (k_SASLUsername cfg0),
            k_SSLEndpointIdentificationAlgorithm :=
              ToLower uni (TrimSpace (k_SSLEndpointIdentificationAlgorithm cfg0)),
            k_Brokers := map TrimSpace (k_Brokers cfg0)\<rparr>
      in case first_bad_broker (k_Brokers cfg) of
           Some b \<Rightarrow> Inl (BrokerNotHostPort b)
         | None \<Rightarrow>
             if k_Enabled cfg \<and> k_Brokers cfg = [] then Inl BrokerRequired
             else if k_ClientID cfg = [] then Inl ClientIDEmpty
             else if \<not> versionOk (k_KafkaVersion cfg) then Inl (KafkaVersionInvalid (k_KafkaVersion cfg))
             else if k_QueueCapacity cfg < 1 \<or> k_QueueCapacity cfg > 100000 then Inl QueueCapacityRange
             else if k_SecurityProtocol cfg \<notin> {[], ''SASL_PLAINTEXT'', ''SSL'', ''SASL_SSL''}
               then Inl (UnsupportedProtocol (k_SecurityProtocol cfg))
             else if usesSASL (k_SecurityProtocol cfg) \<and>
                 k_SASLMechanism cfg \<notin> {''PLAIN'', ''SCRAM-SHA-256'', ''SCRAM-SHA-512''}
               then Inl (UnsupportedMechanism (k_SASLMechanism cfg))
             else if \<not> usesSASL (k_SecurityProtocol cfg) \<and> k_SASLMechanism cfg \<noteq> []
               then Inl MechanismWithoutSASL
             else if (k_SSLCertificatePath cfg = []) \<noteq> (k_SSLKeyPath cfg = [])
               then Inl CertificateWithoutKey
             else if k_SSLEndpointIdentificationAlgorithm cfg \<notin> {[], ''none'', ''https''}
               then Inl EndpointAlgorithm
             else Inr (cfg\<lparr>k_SSLCAPath := resolveOptionalPath fp baseDir (k_SSLCAPath cfg),
               k_SSLCertificatePath := resolveOptionalPath fp baseDir (k_SSLCertificatePath cfg),
               k_SSLKeyPath := resolveOptionalPath fp baseDir (k_SSLKeyPath cfg)\<rparr>))"

section \<open>Device policies\<close>

datatype policy_error = PolicyMode | PolicyInterval | PolicyTopic

definition topic_char :: "char \<Rightarrow> bool" where
  "topic_char c \<longleftrightarrow>
     (65 \<le> (of_char c :: nat) \<and> (of_char c :: nat) \<le> 90) \<or>
     (97 \<le> (of_char c :: nat) \<and> (of_char c :: nat) \<le> 122) \<or> is_digit c \<or>
     c = CHR ''.'' \<or> c = CHR ''_'' \<or> c = CHR ''-''"

definition topicPattern :: "string \<Rightarrow> bool" where
  "topicPattern s \<longleftrightarrow> s \<noteq> [] \<and> list_all topic_char s"

definition ValidateDeviceConfig :: "DeviceKafkaConfig \<Rightarrow> policy_error option" where
  "ValidateDeviceConfig cfg =
     (let topic = TrimSpace (dk_Topic cfg) in
      if dk_Mode cfg \<noteq> KafkaModeFull \<and> dk_Mode cfg \<noteq> KafkaModeChange then Some PolicyMode
      else if dk_FullIntervalSec cfg < 1 \<or> dk_FullIntervalSec cfg > 86400 then Some PolicyInterval
      else if \<not> dk_Enabled cfg then None
      else if length topic < 1 \<or> length topic > 249 \<or> \<not> topicPattern topic \<or> topic = ''.'' \<or> topic = ''..''
        then Some PolicyTopic
      else None)"

section \<open>Properties\<close>

text \<open>What the producer may rely on after normalisation.\<close>

definition settings_ok :: "(string \<Rightarrow> bool) \<Rightarrow> KafkaSettings \<Rightarrow> bool" where
  "settings_ok versionOk s \<longleftrightarrow>
     (\<forall>b\<in>set (k_Brokers s). SplitHostPort b \<noteq> None) \<and> (k_Enabled s \<longrightarrow> k_Brokers s \<noteq> []) \<and>
     k_ClientID s \<noteq> [] \<and> versionOk (k_KafkaVersion s) \<and>
     1 \<le> k_QueueCapacity s \<and> k_QueueCapacity s \<le> 100000 \<and>
     k_SecurityProtocol s \<in> {[], ''SASL_PLAINTEXT'', ''SSL'', ''SASL_SSL''} \<and>
     (if usesSASL (k_SecurityProtocol s)
      then k_SASLMechanism s \<in> {''PLAIN'', ''SCRAM-SHA-256'', ''SCRAM-SHA-512''}
      else k_SASLMechanism s = []) \<and>
     k_SSLEndpointIdentificationAlgorithm s \<in> {[], ''none'', ''https''}"

lemma first_bad_broker_None: "first_bad_broker bs = None \<longleftrightarrow> (\<forall>b\<in>set bs. SplitHostPort b \<noteq> None)"
  by (induction bs) auto

lemma guard_case: "(case x of Some b \<Rightarrow> Inl (f b) | None \<Rightarrow> e) = Inr y \<longleftrightarrow> x = None \<and> e = Inr y"
  by (cases x) simp_all

text \<open>The trimmed and case-folded input of the checks.\<close>

definition trimmed_settings :: "(string \<Rightarrow> string) \<Rightarrow> KafkaSettings \<Rightarrow> KafkaSettings" where
  "trimmed_settings uni cfg0 = cfg0\<lparr>k_ClientID := TrimSpace (k_ClientID cfg0),
            k_KafkaVersion := TrimSpace (k_KafkaVersion cfg0),
            k_SecurityProtocol := ToUpper uni (TrimSpace (k_SecurityProtocol cfg0)),
            k_SASLMechanism := ToUpper uni (TrimSpace (k_SASLMechanism cfg0)),
            k_SASLUsername := TrimSpace (k_SASLUsername cfg0),
            k_SSLEndpointIdentificationAlgorithm :=
              ToLower uni (TrimSpace (k_SSLEndpointIdentificationAlgorithm cfg0)),
            k_Brokers := map TrimSpace (k_Brokers cfg0)\<rparr>"

definition resolved_settings :: "path_ops \<Rightarrow> string \<Rightarrow> KafkaSettings \<Rightarrow> KafkaSettings" where
  "resolved_settings fp baseDir cfg = cfg\<lparr>k_SSLCAPath := resolveOptionalPath fp baseDir (k_SSLCAPath cfg),
               k_SSLCertificatePath := resolveOptionalPath fp baseDir (k_SSLCertificatePath cfg),
               k_SSLKeyPath := resolveOptionalPath fp baseDir (k_SSLKeyPath cfg)\<rparr>"

lemma NormalizeSettings_accepts:
  assumes "NormalizeSettings uni fp versionOk cfg0 baseDir = Inr s"
  shows "settings_ok versionOk (trimmed_settings uni cfg0) \<and>
    s = resolved_settings fp baseDir (trimmed_settings uni cfg0)"
proof -
  let ?c = "trimmed_settings uni cfg0"
  have g: "first_bad_broker (k_Brokers ?c) = None" "\<not> (k_Enabled ?c \<and> k_Brokers ?c = [])"
    "\<not> k_ClientID ?c = []" "\<not> \<not> versionOk (k_KafkaVersion ?c)"
    "\<not> (k_QueueCapacity ?c < 1 \<or> k_QueueCapacity ?c > 100000)"
    "\<not> k_SecurityProtocol ?c \<notin> {[], ''SASL_PLAINTEXT'', ''SSL'', ''SASL_SSL''}"
    "\<not> (usesSASL (k_SecurityProtocol ?c) \<and>
        k_SASLMechanism ?c \<notin> {''PLAIN'', ''SCRAM-SHA-256'', ''SCRAM-SHA-512''})"
    "\<not> (\<not> usesSASL (k_SecurityProtocol ?c) \<and> k_SASLMechanism ?c \<noteq> [])"
    "\<not> k_SSLEndpointIdentificationAlgorithm ?c \<notin> {[], ''none'', ''https''}"
    "Inr (resolved_settings fp baseDir ?c) = (Inr s :: kafka_error + KafkaSettings)"
    using assms unfolding NormalizeSettings_def Let_def trimmed_settings_def [symmetric]
      resolved_settings_def [symmetric] guard_case guards by blast+
  show ?thesis
  proof
    show "settings_ok versionOk ?c"
      unfolding settings_ok_def first_bad_broker_None [symmetric]
      using g(1-9) by (simp only: simp_thms not_less not_not not_le if_split de_Morgan_disj) blast
    show "s = resolved_settings fp baseDir ?c" using g(10) by simp
  qed
qed

lemma NormalizeSettings_lemma:
  assumes "NormalizeSettings uni fp versionOk cfg baseDir = Inr s"
  shows "settings_ok versionOk s \<and> k_Enabled s = k_Enabled cfg \<and>
    k_Brokers s = map TrimSpace (k_Brokers cfg) \<and> k_SASLPassword s = k_SASLPassword cfg \<and>
    k_QueueCapacity s = k_QueueCapacity cfg \<and> k_ClientID s = TrimSpace (k_ClientID cfg)"
proof -
  note a = NormalizeSettings_accepts [OF assms]
  have "settings_ok versionOk (resolved_settings fp baseDir (trimmed_settings uni cfg)) =
      settings_ok versionOk (trimmed_settings uni cfg)"
    unfolding settings_ok_def resolved_settings_def by simp
  with a show ?thesis by (simp add: resolved_settings_def trimmed_settings_def)
qed

text \<open>
  Settings that pass normalisation are consistent: every broker is a host and a port, an
  enabled configuration has a broker, the client ID is set, the version parses, the queue
  capacity is in range, a SASL mechanism is chosen exactly for the SASL protocols; and nothing
  that the operator set is altered beyond trimming, case folding and path resolution.
\<close>

lemma NormalizeSettings_sound:
  assumes "NormalizeSettings uni fp versionOk cfg baseDir = Inr s"
  shows "settings_ok versionOk s \<and> k_Enabled s = k_Enabled cfg \<and>
    k_Brokers s = map TrimSpace (k_Brokers cfg) \<and> k_SASLPassword s = k_SASLPassword cfg \<and>
    k_QueueCapacity s = k_QueueCapacity cfg \<and> k_ClientID s = TrimSpace (k_ClientID cfg)"
  by (rule NormalizeSettings_lemma [OF assms])

text \<open>
  An unset certificate path does not stay unset: \<open>filepath.Clean\<close> turns the empty path
  into \<open>"."\<close>, so whatever settings are accepted with an empty CA path, the producer is given
  \<open>"."\<close> and takes it for a configured CA file. The same holds for the certificate and key.
\<close>

lemma empty_tls_paths_become_dot:
  assumes "NormalizeSettings uni fp versionOk cfg baseDir = Inr s"
    and "fp_Clean fp [] = ''.''"
  shows "(TrimSpace (k_SSLCAPath cfg) = [] \<longrightarrow> k_SSLCAPath s = ''.'') \<and>
    (TrimSpace (k_SSLCertificatePath cfg) = [] \<longrightarrow> k_SSLCertificatePath s = ''.'') \<and>
    (TrimSpace (k_SSLKeyPath cfg) = [] \<longrightarrow> k_SSLKeyPath s = ''.'')"
  using NormalizeSettings_accepts [OF assms(1)] assms(2)
  by (simp add: resolved_settings_def trimmed_settings_def resolveOptionalPath_def)

text \<open>
  A publishing policy is accepted exactly when its mode is one of the two, its interval is
  between a second and a day, and, if it is enabled, its trimmed topic is a legal Kafka topic
  name; a disabled policy needs no topic.
\<close>

lemma ValidateDeviceConfig_exact:
  "ValidateDeviceConfig cfg = None \<longleftrightarrow>
     dk_Mode cfg \<in> {KafkaModeFull, KafkaModeChange} \<and> dk_FullIntervalSec cfg \<in> {1 .. 86400} \<and>
     (\<not> dk_Enabled cfg \<or>
      (let t = TrimSpace (dk_Topic cfg) in
       t \<notin> {''.'', ''..''} \<and> length t \<in> {1 .. 249} \<and> (\<forall>c\<in>set t. topic_char c)))"
proof -
  define t where "t = TrimSpace (dk_Topic cfg)"
  have p: "topicPattern t \<longleftrightarrow> t \<noteq> [] \<and> (\<forall>c\<in>set t. topic_char c)"
    by (simp add: topicPattern_def list_all_iff)
  have "t = [] \<longleftrightarrow> \<not> 1 \<le> length t" by (simp add: Suc_le_eq)
  then show ?thesis
    unfolding ValidateDeviceConfig_def Let_def t_def [symmetric] p by auto
qed

text \<open>
  The topic is trimmed for the check only: an accepted policy may still carry the spaces, and
  they are part of the topic that is stored and published to.
\<close>

lemma padded_topic_accepted:
  "ValidateDeviceConfig \<lparr>dk_DeviceID = 1, dk_Enabled = True, dk_Topic = '' plc '', dk_Mode = KafkaModeFull,
     dk_FullIntervalSec = 60, dk_CreatedAt = 0, dk_UpdatedAt = 0\<rparr> = None \<and> \<not> topicPattern '' plc ''"
proof -
  have t: "TrimSpace '' plc '' = ''plc''"
    using TrimSpace_pad [of "''plc''"] by (simp add: ascii_word_char_def)
  have "topicPattern ''plc'' \<and> \<not> topicPattern '' plc ''" by code_simp
  then show ?thesis by (simp add: ValidateDeviceConfig_def t)
qed

section \<open>Witnesses\<close>

definition sample_settings :: KafkaSettings where
  "sample_settings = \<lparr>k_Enabled = True, k_Brokers = [''h:1''], k_ClientID = ''c'', k_KafkaVersion = ''3'',
     k_SecurityProtocol = [], k_SASLMechanism = [], k_SASLUsername = [], k_SASLPassword = ''pw'',
     k_SSLCAPath = [], k_SSLCertificatePath = [], k_SSLKeyPath = [],
     k_SSLEndpointIdentificationAlgorithm = [], k_QueueCapacity = 10, k_UpdatedAt = 0\<rparr>"

lemma sample_trims:
  "TrimSpace ''h:1'' = ''h:1''" "TrimSpace ''c'' = ''c''" "TrimSpace ''3'' = ''3''" "TrimSpace [] = []"
  by (rule TrimSpace_id; simp add: ascii_word_char_def)+

lemma sample_strings:
  "ToUpper id [] = []" "ToLower id [] = []" "SplitHostPort ''h:1'' = Some (''h'', ''1'')" "unix_Clean [] = ''.''"
  by code_simp+

lemma sample_normalized:
  "NormalizeSettings id unix_paths (\<lambda>_. True) sample_settings ''/b'' =
     Inr (sample_settings\<lparr>k_SSLCAPath := ''.'', k_SSLCertificatePath := ''.'', k_SSLKeyPath := ''.''\<rparr>)"
  by (simp add: NormalizeSettings_def sample_settings_def sample_strings sample_trims usesSASL_def
      resolveOptionalPath_def unix_paths_def)

theorem NormalizeSettings_sound_witness:
  "settings_ok (\<lambda>_. True) (sample_settings\<lparr>k_SSLCAPath := ''.'', k_SSLCertificatePath := ''.'', k_SSLKeyPath := ''.''\<rparr>)"
  using NormalizeSettings_sound [OF sample_normalized] by blast

theorem empty_tls_paths_become_dot_witness:
  "k_SSLCAPath (sample_settings\<lparr>k_SSLCAPath := ''.'', k_SSLCertificatePath := ''.'', k_SSLKeyPath := ''.''\<rparr>) = ''.''"
  using empty_tls_paths_become_dot [OF sample_normalized]
  by (simp add: unix_paths_def sample_strings sample_trims sample_settings_def)

end
