(* ===== verification/KafkaProducer.thy ===== *)
theory KafkaProducer
  imports KafkaConfig
begin

text \<open>
  \<open>internal/kafkapub/producer.go\<close>: from saved settings to the configuration of the Sarama producer. The
  Sarama and TLS libraries and the file system are the record \<open>ProducerEnv\<close>; a certificate pool and
  a key pair are represented by the texts they were made of.
\<close>

datatype sasl_mechanism = SASLTypePlaintext | SASLTypeSCRAMSHA256 | SASLTypeSCRAMSHA512

datatype tls_version = VersionTLS12 | VersionTLS13

record TlsConfig =
  tl_MinVersion :: tls_version
  tl_InsecureSkipVerify :: bool
  tl_RootCAs :: "string option"
  tl_Certificates :: "(string \<times> string) list"

text \<open>
  The fields that \<open>Open\<close> sets; \<open>None\<close> is what \<open>sarama.NewConfig\<close> leaves. The hash of the SCRAM client is
  the number of its bits.
\<close>

record SaramaConfig =
  sa_Version :: string
  sa_ClientID :: string
  sa_WaitForLocal :: bool
  sa_RetryMax :: int
  sa_RetryBackoff :: int
  sa_ReturnSuccesses :: bool
  sa_HashPartitioner :: bool
  sa_SASL :: bool
  sa_User :: string
  sa_Password :: string
  sa_Mechanism :: "sasl_mechanism option"
  sa_Scram :: "nat option"
  sa_TLS :: "TlsConfig option"

record ProducerEnv =
  pe_ParseKafkaVersion :: "string \<Rightarrow> string + string"
  pe_ReadFile :: "string \<Rightarrow> string + string"
  pe_ValidPEM :: "string \<Rightarrow> bool"
  pe_LoadX509KeyPair :: "string \<Rightarrow> string \<Rightarrow> string + (string \<times> string)"
  pe_NewSyncProducer :: "string list \<Rightarrow> SaramaConfig \<Rightarrow> string option"

definition buildTLSConfig :: "ProducerEnv \<Rightarrow> KafkaSettings \<Rightarrow> string + TlsConfig" where
  "buildTLSConfig env s =
     and_then
       (if k_SSLCAPath s \<noteq> [] then
          and_then (with_err (\<lambda>e. ''read Kafka CA: '' @ e) (pe_ReadFile env (k_SSLCAPath s))) (\<lambda>pem.
            if pe_ValidPEM env pem then Inr (Some pem) else Inl ''parse Kafka CA'')
        else Inr None) (\<lambda>pool.
     and_then
       (if k_SSLCertificatePath s \<noteq> [] then
          and_then (with_err (\<lambda>e. ''load Kafka client certificate: '' @ e)
            (pe_LoadX509KeyPair env (k_SSLCertificatePath s) (k_SSLKeyPath s))) (\<lambda>pair. Inr [pair])
        else Inr []) (\<lambda>certificates.
     Inr \<lparr>tl_MinVersion = VersionTLS12,
       tl_InsecureSkipVerify = (k_SSLEndpointIdentificationAlgorithm s = ''none''),
       tl_RootCAs = pool, tl_Certificates = certificates\<rparr>))"

definition base_config :: "string \<Rightarrow> string \<Rightarrow> SaramaConfig" where
  "base_config version clientID =
     \<lparr>sa_Version = version, sa_ClientID = clientID, sa_WaitForLocal = True, sa_RetryMax = 3,
      sa_RetryBackoff = second, sa_ReturnSuccesses = True, sa_HashPartitioner = True, sa_SASL = False,
      sa_User = [], sa_Password = [], sa_Mechanism = None, sa_Scram = None, sa_TLS = None\<rparr>"

definition with_sasl :: "KafkaSettings \<Rightarrow> SaramaConfig \<Rightarrow> SaramaConfig" where
  "with_sasl s cfg =
     (if k_SecurityProtocol s = ''SASL_PLAINTEXT'' \<or> k_SecurityProtocol s = ''SASL_SSL'' then
        let cfg = cfg\<lparr>sa_SASL := True, sa_User := k_SASLUsername s, sa_Password := k_SASLPassword s\<rparr> in
        if k_SASLMechanism s = ''PLAIN'' then cfg\<lparr>sa_Mechanism := Some SASLTypePlaintext\<rparr>
        else if k_SASLMechanism s = ''SCRAM-SHA-256'' then
          cfg\<lparr>sa_Mechanism := Some SASLTypeSCRAMSHA256, sa_Scram := Some 256\<rparr>
        else if k_SASLMechanism s = ''SCRAM-SHA-512'' then
          cfg\<lparr>sa_Mechanism := Some SASLTypeSCRAMSHA512, sa_Scram := Some 512\<rparr>
        else cfg
      else cfg)"

definition producer_config :: "ProducerEnv \<Rightarrow> KafkaSettings \<Rightarrow> string + SaramaConfig" where
  "producer_config env s =
     and_then (with_err (\<lambda>e. ''parse Kafka version: '' @ e) (pe_ParseKafkaVersion env (k_KafkaVersion s))) (\<lambda>version.
     let cfg = with_sasl s (base_config version (k_ClientID s)) in
     if k_SecurityProtocol s = ''SSL'' \<or> k_SecurityProtocol s = ''SASL_SSL'' then
       and_then (buildTLSConfig env s) (\<lambda>tls. Inr (cfg\<lparr>sa_TLS := Some tls\<rparr>))
     else Inr cfg)"

text \<open>\<open>Open\<close>: the producer it opens is given by its brokers and its configuration.\<close>

definition producer_Open :: "ProducerEnv \<Rightarrow> KafkaSettings \<Rightarrow> string + (string list \<times> SaramaConfig)" where
  "producer_Open env s =
     and_then (producer_config env s) (\<lambda>cfg.
       case pe_NewSyncProducer env (k_Brokers s) cfg of
         Some e \<Rightarrow> Inl (''open Kafka producer: '' @ e)
       | None \<Rightarrow> Inr (k_Brokers s, cfg))"

section \<open>Records and the SCRAM exchange\<close>

record ProducerMessage =
  pm_Topic :: string
  pm_Key :: string
  pm_Value :: string

text \<open>\<open>Send\<close>: \<open>send\<close> is the library's \<open>SendMessage\<close> with topic, key and value.\<close>

definition producer_Send :: "(string \<Rightarrow> string \<Rightarrow> string \<Rightarrow> string option) \<Rightarrow> ProducerMessage \<Rightarrow> string option" where
  "producer_Send send message = send (pm_Topic message) (pm_Key message) (pm_Value message)"

text \<open>
  The SCRAM client of one connection: the hash it was made with and the library's conversation, which
  \<open>Begin\<close> starts; \<open>Step\<close> and \<open>Done\<close> before that dereference a nil pointer, which is \<open>None\<close> here.
\<close>

record 'conv scramClient =
  sc_hash :: nat
  sc_conversation :: "'conv option"

definition scram_generator :: "nat \<Rightarrow> 'conv scramClient" where
  "scram_generator hash = \<lparr>sc_hash = hash, sc_conversation = None\<rparr>"

definition scram_Begin :: "(nat \<Rightarrow> string \<Rightarrow> string \<Rightarrow> string \<Rightarrow> string + 'conv) \<Rightarrow> string \<Rightarrow> string \<Rightarrow> string \<Rightarrow>
    'conv scramClient \<Rightarrow> string option \<times> 'conv scramClient" where
  "scram_Begin new_client user password authz c =
     (case new_client (sc_hash c) user password authz of
        Inl err \<Rightarrow> (Some err, c)
      | Inr conv \<Rightarrow> (None, c\<lparr>sc_conversation := Some conv\<rparr>))"

definition scram_Step :: "('conv \<Rightarrow> string \<Rightarrow> (string + string) \<times> 'conv) \<Rightarrow> string \<Rightarrow> 'conv scramClient \<Rightarrow>
    ((string + string) \<times> 'conv scramClient) option" where
  "scram_Step step challenge c =
     map_option (\<lambda>conv. (fst (step conv challenge), c\<lparr>sc_conversation := Some (snd (step conv challenge))\<rparr>))
       (sc_conversation c)"

definition scram_Done :: "('conv \<Rightarrow> bool) \<Rightarrow> 'conv scramClient \<Rightarrow> bool option" where
  "scram_Done is_done c = map_option is_done (sc_conversation c)"

fun scram_steps :: "('conv \<Rightarrow> string \<Rightarrow> (string + string) \<times> 'conv) \<Rightarrow> string list \<Rightarrow> 'conv scramClient \<Rightarrow>
    'conv scramClient option" where
  "scram_steps step [] c = Some c"
| "scram_steps step (ch # chs) c = Option.bind (scram_Step step ch c) (\<lambda>(_, c'). scram_steps step chs c')"

text \<open>A client that was begun never panics, however the exchange goes, and keeps its hash.\<close>

lemma scram_exchange_safe:
  assumes "scram_Begin new_client user password authz c = (None, c1)"
  shows "\<exists>c2. scram_steps step challenges c1 = Some c2 \<and> sc_hash c2 = sc_hash c \<and> scram_Done is_done c2 \<noteq> None"
proof -
  have "\<exists>c2. scram_steps step challenges c' = Some c2 \<and> sc_hash c2 = sc_hash c' \<and> sc_conversation c2 \<noteq> None"
    if "sc_conversation c' \<noteq> None" for c'
    using that
  proof (induction challenges arbitrary: c')
    case (Cons ch chs)
    then obtain conv where "sc_conversation c' = Some conv" by blast
    then show ?case
      using Cons.IH [of "c'\<lparr>sc_conversation := Some (snd (step conv ch))\<rparr>"] by (simp add: scram_Step_def)
  qed simp
  moreover have "sc_conversation c1 \<noteq> None" "sc_hash c1 = sc_hash c"
    using assms by (auto simp: scram_Begin_def split: sum.splits)
  ultimately show ?thesis by (fastforce simp: scram_Done_def)
qed

section \<open>Properties\<close>

lemma with_sasl_views:
  "sa_TLS (with_sasl s cfg) = sa_TLS cfg" "sa_ClientID (with_sasl s cfg) = sa_ClientID cfg"
  "sa_SASL (with_sasl s cfg) \<longleftrightarrow> usesSASL (k_SecurityProtocol s) \<or> sa_SASL cfg"
  "usesSASL (k_SecurityProtocol s) \<Longrightarrow> sa_User (with_sasl s cfg) = k_SASLUsername s \<and>
     sa_Password (with_sasl s cfg) = k_SASLPassword s"
  "\<not> usesSASL (k_SecurityProtocol s) \<Longrightarrow> with_sasl s cfg = cfg"
  by (auto simp: with_sasl_def usesSASL_def Let_def)

text \<open>The names of the mechanisms in the settings, with the hash each needs.\<close>

definition mechanism_named :: "string \<Rightarrow> sasl_mechanism option \<Rightarrow> nat option \<Rightarrow> bool" where
  "mechanism_named name m scram \<longleftrightarrow>
     (name, m, scram) \<in> {(''PLAIN'', Some SASLTypePlaintext, None), (''SCRAM-SHA-256'', Some SASLTypeSCRAMSHA256, Some 256),
       (''SCRAM-SHA-512'', Some SASLTypeSCRAMSHA512, Some 512)}"

lemma with_sasl_mechanism:
  assumes "settings_ok versionOk s" "usesSASL (k_SecurityProtocol s)" "sa_Scram cfg = None"
  shows "mechanism_named (k_SASLMechanism s) (sa_Mechanism (with_sasl s cfg)) (sa_Scram (with_sasl s cfg))"
proof -
  have u: "(k_SecurityProtocol s = ''SASL_PLAINTEXT'' \<or> k_SecurityProtocol s = ''SASL_SSL'') = True"
    using assms(2) by (simp add: usesSASL_def)
  have "k_SASLMechanism s \<in> {''PLAIN'', ''SCRAM-SHA-256'', ''SCRAM-SHA-512''}"
    using assms(1,2) by (simp add: settings_ok_def)
  then consider "k_SASLMechanism s = ''PLAIN''" | "k_SASLMechanism s = ''SCRAM-SHA-256''" | "k_SASLMechanism s = ''SCRAM-SHA-512''"
    by blast
  then show ?thesis
    using assms(3) by cases (simp_all add: with_sasl_def u mechanism_named_def)
qed

text \<open>
  A TLS configuration made for a CA path, the paths of a client certificate and its key, and the name of
  the endpoint check: the authorities are what the CA file holds, the client certificate is the
  pair loaded from the two files in this order, and an empty path stands for nothing.
\<close>

definition tls_made :: "ProducerEnv \<Rightarrow> string \<Rightarrow> string \<Rightarrow> string \<Rightarrow> string \<Rightarrow> TlsConfig \<Rightarrow> bool" where
  "tls_made env ca certificate key endpoint t \<longleftrightarrow>
     tl_MinVersion t = VersionTLS12 \<and> (tl_InsecureSkipVerify t \<longleftrightarrow> endpoint = ''none'') \<and>
     (if ca = [] then tl_RootCAs t = None
      else \<exists>pem. pe_ReadFile env ca = Inr pem \<and> pe_ValidPEM env pem \<and> tl_RootCAs t = Some pem) \<and>
     (if certificate = [] then tl_Certificates t = []
      else \<exists>pair. pe_LoadX509KeyPair env certificate key = Inr pair \<and> tl_Certificates t = [pair])"

lemma buildTLSConfig_Inr:
  assumes "buildTLSConfig env s = Inr t"
  shows "tls_made env (k_SSLCAPath s) (k_SSLCertificatePath s) (k_SSLKeyPath s) (k_SSLEndpointIdentificationAlgorithm s) t"
  using assms by (auto simp: buildTLSConfig_def tls_made_def and_then_Inr split: if_splits sum.splits)

definition config_made :: "ProducerEnv \<Rightarrow> KafkaSettings \<Rightarrow> string \<Rightarrow> SaramaConfig \<Rightarrow> bool" where
  "config_made env s v c \<longleftrightarrow>
     c = with_sasl s (base_config v (k_ClientID s)) \<and> k_SecurityProtocol s \<notin> {''SSL'', ''SASL_SSL''} \<or>
     (\<exists>t. c = (with_sasl s (base_config v (k_ClientID s)))\<lparr>sa_TLS := Some t\<rparr> \<and> buildTLSConfig env s = Inr t \<and>
        k_SecurityProtocol s \<in> {''SSL'', ''SASL_SSL''})"

lemma producer_config_Inr:
  assumes pc: "producer_config env s = Inr c"
  shows "\<exists>v. config_made env s v c"
proof -
  have "\<exists>v. (if k_SecurityProtocol s = ''SSL'' \<or> k_SecurityProtocol s = ''SASL_SSL''
      then and_then (buildTLSConfig env s) (\<lambda>tls. Inr ((with_sasl s (base_config v (k_ClientID s)))\<lparr>sa_TLS := Some tls\<rparr>))
      else Inr (with_sasl s (base_config v (k_ClientID s)))) = Inr c"
    using pc unfolding producer_config_def and_then_Inr Let_def by blast
  then obtain v where v: "(if k_SecurityProtocol s = ''SSL'' \<or> k_SecurityProtocol s = ''SASL_SSL''
      then and_then (buildTLSConfig env s) (\<lambda>tls. Inr ((with_sasl s (base_config v (k_ClientID s)))\<lparr>sa_TLS := Some tls\<rparr>))
      else Inr (with_sasl s (base_config v (k_ClientID s)))) = Inr c" by blast
  have "c = with_sasl s (base_config v (k_ClientID s)) \<and> k_SecurityProtocol s \<notin> {''SSL'', ''SASL_SSL''} \<or>
      (\<exists>t. c = (with_sasl s (base_config v (k_ClientID s)))\<lparr>sa_TLS := Some t\<rparr> \<and> buildTLSConfig env s = Inr t \<and>
         k_SecurityProtocol s \<in> {''SSL'', ''SASL_SSL''})"
  proof (cases "k_SecurityProtocol s = ''SSL'' \<or> k_SecurityProtocol s = ''SASL_SSL''")
    case True
    with v obtain t where "buildTLSConfig env s = Inr t"
        "(with_sasl s (base_config v (k_ClientID s)))\<lparr>sa_TLS := Some t\<rparr> = c"
      by (simp only: if_True and_then_Inr sum.inject) blast
    with True show ?thesis by blast
  next
    case False
    with v show ?thesis by simp
  qed
  then show ?thesis unfolding config_made_def by blast
qed

text \<open>
  C32: the producer runs with the security that was saved. For settings that passed normalisation, an
  opened producer authenticates exactly when a SASL protocol is set, with the saved user, password
  and mechanism and the hash of that mechanism, and gives no password away otherwise; it encrypts
  exactly when an SSL protocol is set, never below TLS 1.2, checks the broker's name unless the
  operator chose not to, trusts what the file at the saved CA path holds, and presents the pair
  loaded from the saved certificate and key paths, each path as it is resolved against the base.
\<close>

theorem producer_follows_settings:
  assumes "NormalizeSettings uni fp versionOk cfg baseDir = Inr s" "producer_Open env s = Inr (brokers, c)"
  shows "brokers = map TrimSpace (k_Brokers cfg) \<and> sa_ClientID c = TrimSpace (k_ClientID cfg) \<and>
    (if usesSASL (ToUpper uni (TrimSpace (k_SecurityProtocol cfg)))
     then sa_SASL c \<and> sa_User c = TrimSpace (k_SASLUsername cfg) \<and> sa_Password c = k_SASLPassword cfg \<and>
       mechanism_named (ToUpper uni (TrimSpace (k_SASLMechanism cfg))) (sa_Mechanism c) (sa_Scram c)
     else \<not> sa_SASL c \<and> sa_Password c = []) \<and>
    (if ToUpper uni (TrimSpace (k_SecurityProtocol cfg)) \<in> {''SSL'', ''SASL_SSL''}
     then \<exists>t. sa_TLS c = Some t \<and>
       tls_made env (resolveOptionalPath fp baseDir (k_SSLCAPath cfg))
         (resolveOptionalPath fp baseDir (k_SSLCertificatePath cfg))
         (resolveOptionalPath fp baseDir (k_SSLKeyPath cfg))
         (ToLower uni (TrimSpace (k_SSLEndpointIdentificationAlgorithm cfg))) t
     else sa_TLS c = None)"
proof -
  note n = NormalizeSettings_lemma [OF assms(1)]
  from assms(2) have pc: "producer_config env s = Inr c" and b: "brokers = k_Brokers s"
    by (auto simp: producer_Open_def and_then_Inr split: option.splits)
  obtain v where c: "config_made env s v c" using producer_config_Inr [OF pc] by blast
  note views = with_sasl_views [of s "base_config v (k_ClientID s)"]
  have base: "sa_TLS (base_config v x) = None" "sa_ClientID (base_config v x) = x" "\<not> sa_SASL (base_config v x)"
    "sa_Password (base_config v x) = []" "sa_Scram (base_config v x) = None" for x
    by (simp_all add: base_config_def)
  have mech: "usesSASL (k_SecurityProtocol s) \<Longrightarrow> mechanism_named (k_SASLMechanism s)
      (sa_Mechanism (with_sasl s (base_config v (k_ClientID s)))) (sa_Scram (with_sasl s (base_config v (k_ClientID s))))"
    using n by (intro with_sasl_mechanism) (auto simp: base)
  have 1: "sa_ClientID c = k_ClientID s \<and>
      (if usesSASL (k_SecurityProtocol s)
       then sa_SASL c \<and> sa_User c = k_SASLUsername s \<and> sa_Password c = k_SASLPassword s \<and>
         mechanism_named (k_SASLMechanism s) (sa_Mechanism c) (sa_Scram c)
       else \<not> sa_SASL c \<and> sa_Password c = [])"
    using c views mech by (auto simp: base config_made_def)
  have 2: "if k_SecurityProtocol s \<in> {''SSL'', ''SASL_SSL''}
     then \<exists>t. sa_TLS c = Some t \<and> buildTLSConfig env s = Inr t else sa_TLS c = None"
    using c views(1) by (auto simp: base config_made_def)
  have "k_SSLCAPath s = resolveOptionalPath fp baseDir (k_SSLCAPath cfg)"
    "k_SSLCertificatePath s = resolveOptionalPath fp baseDir (k_SSLCertificatePath cfg)"
    "k_SSLKeyPath s = resolveOptionalPath fp baseDir (k_SSLKeyPath cfg)"
    and saved: "k_SecurityProtocol s = ToUpper uni (TrimSpace (k_SecurityProtocol cfg))"
      "k_SASLMechanism s = ToUpper uni (TrimSpace (k_SASLMechanism cfg))" "k_SASLUsername s = TrimSpace (k_SASLUsername cfg)"
      "k_SSLEndpointIdentificationAlgorithm s = ToLower uni (TrimSpace (k_SSLEndpointIdentificationAlgorithm cfg))"
    using NormalizeSettings_accepts [OF assms(1)] by (simp_all add: resolved_settings_def trimmed_settings_def)
  with 1 2 n b show ?thesis
    unfolding saved [symmetric] using buildTLSConfig_Inr [of env s] by (auto split: if_splits)
qed

text \<open>
  Encryption with the authorities of the system cannot be had: an empty CA path is saved as a dot, the
  directory of the process, which is no file, so no producer is ever opened.
\<close>

lemma tls_without_ca_never_opens:
  assumes "NormalizeSettings uni unix_paths versionOk cfg baseDir = Inr s"
    and "k_SecurityProtocol s \<in> {''SSL'', ''SASL_SSL''}" "TrimSpace (k_SSLCAPath cfg) = []"
    and "pe_ReadFile env ''.'' = Inl err" "pe_ParseKafkaVersion env (k_KafkaVersion s) = Inr v"
  shows "producer_Open env s = Inl (''read Kafka CA: '' @ err)"
proof -
  have "fp_Clean unix_paths [] = ''.''" by (simp add: unix_paths_def sample_strings)
  then have "k_SSLCAPath s = ''.''" using empty_tls_paths_become_dot [OF assms(1)] assms(3) by blast
  then show ?thesis using assms(2,4,5) by (auto simp: producer_Open_def producer_config_def buildTLSConfig_def)
qed

section \<open>Witnesses\<close>

definition sample_env :: ProducerEnv where
  "sample_env = \<lparr>pe_ParseKafkaVersion = Inr, pe_ReadFile = (\<lambda>p. if p = ''.'' then Inl ''is a directory'' else Inr p),
     pe_ValidPEM = (\<lambda>_. True), pe_LoadX509KeyPair = (\<lambda>c k. Inr (c, k)), pe_NewSyncProducer = (\<lambda>_ _. None)\<rparr>"

definition secured_settings :: KafkaSettings where
  "secured_settings = sample_settings\<lparr>k_SecurityProtocol := ''SASL_SSL'', k_SASLMechanism := ''PLAIN'',
     k_SSLCAPath := ''/c/ca'', k_SSLCertificatePath := ''/c/cert'', k_SSLKeyPath := ''/c/key''\<rparr>"

lemma secured_strings:
  "ToUpper id ''SASL_SSL'' = ''SASL_SSL''" "ToUpper id ''PLAIN'' = ''PLAIN''"
  "TrimSpace ''SASL_SSL'' = ''SASL_SSL''" "TrimSpace ''PLAIN'' = ''PLAIN''"
  by (code_simp, code_simp) (rule TrimSpace_id; simp add: ascii_word_char_def)+

lemma secured_cleaned:
  "unix_Clean ''/c/ca'' = ''/c/ca''" "unix_Clean ''/c/cert'' = ''/c/cert''" "unix_Clean ''/c/key'' = ''/c/key''"
  by code_simp+

lemma secured_trims:
  "TrimSpace ''/c/ca'' = ''/c/ca''" "TrimSpace ''/c/cert'' = ''/c/cert''" "TrimSpace ''/c/key'' = ''/c/key''"
  by (rule TrimSpace_id; simp add: ascii_word_char_def)+

lemma secured_paths:
  "resolveOptionalPath unix_paths ''/b'' ''/c/ca'' = ''/c/ca''"
  "resolveOptionalPath unix_paths ''/b'' ''/c/cert'' = ''/c/cert''"
  "resolveOptionalPath unix_paths ''/b'' ''/c/key'' = ''/c/key''"
  by (simp_all add: resolveOptionalPath_def secured_trims unix_paths_def unix_IsAbs_def secured_cleaned)

lemma secured_normalized:
  "NormalizeSettings id unix_paths (\<lambda>_. True) secured_settings ''/b'' = Inr secured_settings"
  by (simp add: NormalizeSettings_def secured_settings_def sample_settings_def sample_strings sample_trims usesSASL_def
      secured_strings secured_paths)

theorem producer_follows_settings_witness:
  "\<exists>c t. producer_Open sample_env secured_settings = Inr ([''h:1''], c) \<and> sa_SASL c \<and> sa_Password c = ''pw'' \<and>
     sa_Mechanism c = Some SASLTypePlaintext \<and> sa_TLS c = Some t \<and> tl_RootCAs t = Some ''/c/ca'' \<and>
     tl_Certificates t = [(''/c/cert'', ''/c/key'')] \<and> \<not> tl_InsecureSkipVerify t"
proof -
  have "\<exists>c. producer_Open sample_env secured_settings = Inr ([''h:1''], c)"
    by (simp add: producer_Open_def producer_config_def buildTLSConfig_def sample_env_def secured_settings_def sample_settings_def Let_def)
  then obtain c where c: "producer_Open sample_env secured_settings = Inr ([''h:1''], c)" by blast
  from producer_follows_settings [OF secured_normalized c] c show ?thesis
    by (auto simp: secured_settings_def sample_settings_def usesSASL_def mechanism_named_def secured_strings secured_paths
        tls_made_def sample_env_def sample_strings sample_trims)
qed

end
