(* ===== verification/KafkaManager.thy ===== *)
theory KafkaManager
  imports Coordinator GoStrings KafkaProducer
begin

text \<open>
  \<open>internal/kafkapub/manager.go\<close>: the owner of the live producer and of the worker that empties
  the queue of the coordinator. A producer is a number, counted in the order in which the factory
  opened them; \<open>Open\<close>, \<open>Send\<close> and \<open>json.Marshal\<close> answer as they like. Every call and the
  reconnection goroutine is a \<open>thread\<close>, cut where the code takes or gives up a lock, calls the
  factory or waits; the worker has one phase for each place of its loop. The system is the shared
  state with the multiset of the threads under way, and any of them may take the next step.
\<close>

section \<open>State\<close>

definition KafkaStateDisabled :: string where "KafkaStateDisabled = ''disabled''"

definition KafkaStateOnline :: string where "KafkaStateOnline = ''online''"

definition KafkaStateReconnecting :: string where "KafkaStateReconnecting = ''reconnecting''"

definition KafkaStateStopping :: string where "KafkaStateStopping = ''stopping''"

lemma kafka_states_distinct [simp]:
  "KafkaStateDisabled \<noteq> KafkaStateOnline" "KafkaStateReconnecting \<noteq> KafkaStateOnline"
  "KafkaStateStopping \<noteq> KafkaStateOnline"
  by (simp_all add: KafkaStateDisabled_def KafkaStateOnline_def KafkaStateReconnecting_def KafkaStateStopping_def)

text \<open>
  The places of the worker: at the head of its loop, waiting for a producer, looking into the
  queue with the producer it read, waiting for the queue, sending, and gone (\<open>done\<close> is closed).
\<close>

datatype worker =
    WHead
  | WBlocked
  | WChecking nat
  | WWaiting nat
  | WSending nat ProducerMessage
  | WEnded

text \<open>\<open>km_worker\<close> is \<open>None\<close> as long as \<open>cancel\<close> is nil; \<open>km_notify\<close> tells if \<open>notify\<close> holds a token.\<close>

record Manager =
  km_coordinator :: Coordinator
  km_producer :: "nat option"
  km_settings :: KafkaSettings
  km_status :: KafkaStatus
  km_worker :: "worker option"
  km_cancelled :: bool
  km_notify :: bool

definition km_NewManager :: "Coordinator \<Rightarrow> KafkaSettings \<Rightarrow> Manager" where
  "km_NewManager coordinator zero =
     \<lparr>km_coordinator = coordinator, km_producer = None, km_settings = zero,
      km_status = \<lparr>ks_State = KafkaStateDisabled, ks_LastError = [], ks_DroppedMessages = 0\<rparr>,
      km_worker = None, km_cancelled = False, km_notify = False\<rparr>"

section \<open>The locked sections\<close>

definition km_dropped :: "Manager \<Rightarrow> u64" where
  "km_dropped m = Dropped (km_coordinator m)"

definition start_worker :: "Manager \<Rightarrow> Manager" where
  "start_worker m = (if km_worker m = None then m\<lparr>km_worker := Some WHead\<rparr> else m)"

definition start_disabled :: "KafkaSettings \<Rightarrow> Manager \<Rightarrow> Manager" where
  "start_disabled settings m =
     m\<lparr>km_settings := settings,
       km_status := \<lparr>ks_State = KafkaStateDisabled, ks_LastError = [], ks_DroppedMessages = 0\<rparr>\<rparr>"

definition start_failed :: "KafkaSettings \<Rightarrow> string \<Rightarrow> Manager \<Rightarrow> Manager" where
  "start_failed settings err m =
     m\<lparr>km_settings := settings,
       km_status := \<lparr>ks_State = KafkaStateReconnecting, ks_LastError = err, ks_DroppedMessages = 0\<rparr>\<rparr>"

definition retry_failed :: "string \<Rightarrow> Manager \<Rightarrow> Manager" where
  "retry_failed err m = m\<lparr>km_status := (km_status m)\<lparr>ks_LastError := err\<rparr>\<rparr>"

definition next_delay :: "int \<Rightarrow> int" where
  "next_delay delay = min (delay * 2) (30 * second)"

definition km_SetEnabled :: "bool \<Rightarrow> Manager \<Rightarrow> Manager" where
  "km_SetEnabled enabled m = m\<lparr>km_coordinator := co_SetEnabled enabled (km_coordinator m)\<rparr>"

definition install :: "KafkaSettings \<Rightarrow> nat \<Rightarrow> Manager \<Rightarrow> Manager" where
  "install settings producer m =
     m\<lparr>km_settings := settings, km_producer := Some producer,
       km_status := \<lparr>ks_State = KafkaStateOnline, ks_LastError = [], ks_DroppedMessages = km_dropped m\<rparr>\<rparr>"

definition apply_disabled :: "KafkaSettings \<Rightarrow> Manager \<Rightarrow> Manager" where
  "apply_disabled settings m =
     m\<lparr>km_producer := None, km_settings := settings,
       km_status := \<lparr>ks_State = KafkaStateDisabled, ks_LastError = [], ks_DroppedMessages = km_dropped m\<rparr>\<rparr>"

definition km_Status :: "Manager \<Rightarrow> KafkaStatus" where
  "km_Status m = (km_status m)\<lparr>ks_DroppedMessages := km_dropped m\<rparr>"

definition send_failed :: "string \<Rightarrow> Manager \<Rightarrow> Manager" where
  "send_failed err m =
     m\<lparr>km_status := \<lparr>ks_State = KafkaStateReconnecting, ks_LastError = ''send Kafka message: '' @ err,
         ks_DroppedMessages = km_dropped m\<rparr>\<rparr>"

definition stop_locked :: "Manager \<Rightarrow> Manager" where
  "stop_locked m = m\<lparr>km_status := (km_status m)\<lparr>ks_State := KafkaStateStopping\<rparr>, km_producer := None\<rparr>"

text \<open>\<open>ApplySettings\<close> from beginning to end: its answer, the producer that it closes, and the manager after it.\<close>

definition ApplySettings :: "string + nat \<Rightarrow> KafkaSettings \<Rightarrow> Manager \<Rightarrow>
    (KafkaStatus \<times> string option) \<times> nat option \<times> Manager" where
  "ApplySettings opened settings m =
     (if \<not> k_Enabled settings then
        let m1 = km_SetEnabled False m; m2 = apply_disabled settings m1
        in ((km_Status m2, None), km_producer m1, m2)
      else
        case opened of
          Inl err \<Rightarrow> ((km_Status m, Some err), None, m)
        | Inr producer \<Rightarrow>
            let m1 = km_SetEnabled True m; m2 = (install settings producer m1)\<lparr>km_notify := True\<rparr>
            in ((km_Status m2, None), km_producer m1, m2))"

section \<open>The system\<close>

text \<open>
  Where a call or the reconnection goroutine stands: \<open>Starting\<close> to \<open>StartRetry\<close> is \<open>Start\<close>,
  \<open>Backoff\<close> and \<open>Retrying\<close> is \<open>reconnect\<close>, \<open>Applying\<close> and \<open>ApplyOff\<close> is \<open>ApplySettings\<close>,
  \<open>Enabling\<close> to \<open>Notifying\<close> is \<open>install\<close>, and the last four are \<open>Stop\<close>. A thread carries the
  producer that it has in hand.
\<close>

datatype thread =
    Starting KafkaSettings
  | Started KafkaSettings
  | StartOff KafkaSettings
  | StartRetry
  | Backoff int
  | Retrying KafkaSettings int
  | Applying KafkaSettings
  | ApplyOff KafkaSettings
  | Enabling KafkaSettings nat
  | Installing KafkaSettings nat
  | Replacing "nat option"
  | Notifying
  | Releasing "nat option"
  | Stopping
  | StopLocking
  | StopCancelling bool "nat option"
  | StopWaiting "nat option"

text \<open>
  The manager with what happened to the producers: how many were opened, which were closed, which
  a \<open>Stop\<close> gave up when its context ended, and what was sent with which producer.
\<close>

record Kafka =
  ka_manager :: Manager
  ka_opened :: nat
  ka_closed :: "nat list"
  ka_abandoned :: "nat list"
  ka_sent :: "(nat \<times> ProducerMessage) list"

definition on_manager :: "(Manager \<Rightarrow> Manager) \<Rightarrow> Kafka \<Rightarrow> Kafka" where
  "on_manager f s = s\<lparr>ka_manager := f (ka_manager s)\<rparr>"

definition close_producer :: "nat option \<Rightarrow> Kafka \<Rightarrow> Kafka" where
  "close_producer old s = s\<lparr>ka_closed := ka_closed s @ (case old of None \<Rightarrow> [] | Some p \<Rightarrow> [p])\<rparr>"

definition abandon :: "nat option \<Rightarrow> Kafka \<Rightarrow> Kafka" where
  "abandon old s = s\<lparr>ka_abandoned := ka_abandoned s @ (case old of None \<Rightarrow> [] | Some p \<Rightarrow> [p])\<rparr>"

definition open_producer :: "Kafka \<Rightarrow> Kafka" where
  "open_producer s = s\<lparr>ka_opened := ka_opened s + 1\<rparr>"

inductive thread_step :: "Kafka \<Rightarrow> thread \<Rightarrow> Kafka \<Rightarrow> thread list \<Rightarrow> bool" where
  Start: "thread_step s (Starting st) (on_manager start_worker s) [Started st]"
| StartDisabled: "\<not> k_Enabled st \<Longrightarrow> thread_step s (Started st) (on_manager (km_SetEnabled False) s) [StartOff st]"
| StartOff: "thread_step s (StartOff st) (on_manager (start_disabled st) s) []"
| StartOpened: "k_Enabled st \<Longrightarrow> thread_step s (Started st) (open_producer s) [Enabling st (ka_opened s)]"
| StartFailed: "k_Enabled st \<Longrightarrow> thread_step s (Started st) (on_manager (start_failed st err) s) [StartRetry]"
| StartRetry: "thread_step s StartRetry (on_manager (km_SetEnabled True) s) [Backoff second]"
| Timer: "thread_step s (Backoff d) s [Retrying (km_settings (ka_manager s)) d]"
| RetryDone: "km_cancelled (ka_manager s) \<Longrightarrow> thread_step s (Backoff d) s []"
| RetryOpened: "thread_step s (Retrying st d) (open_producer s) [Enabling st (ka_opened s)]"
| RetryFailed: "thread_step s (Retrying st d) (on_manager (retry_failed err) s) [Backoff (next_delay d)]"
| ApplyDisabled: "\<not> k_Enabled st \<Longrightarrow>
    thread_step s (Applying st) (on_manager (km_SetEnabled False) s) [ApplyOff st]"
| ApplyOff: "thread_step s (ApplyOff st) (on_manager (apply_disabled st) s) [Releasing (km_producer (ka_manager s))]"
| ApplyOpened: "k_Enabled st \<Longrightarrow> thread_step s (Applying st) (open_producer s) [Enabling st (ka_opened s)]"
| ApplyFailed: "k_Enabled st \<Longrightarrow> thread_step s (Applying st) s []"
| Release: "thread_step s (Releasing old) (close_producer old s) []"
| Enable: "thread_step s (Enabling st p) (on_manager (km_SetEnabled True) s) [Installing st p]"
| Install: "thread_step s (Installing st p) (on_manager (install st p) s) [Replacing (km_producer (ka_manager s))]"
| Replace: "thread_step s (Replacing old) (close_producer old s) [Notifying]"
| Notify: "thread_step s Notifying (on_manager (\<lambda>m. m\<lparr>km_notify := True\<rparr>) s) []"
| Stop: "thread_step s Stopping
    (on_manager (\<lambda>m. m\<lparr>km_coordinator := StopAccepting (km_coordinator m)\<rparr>) s) [StopLocking]"
| StopLock: "thread_step s StopLocking (on_manager stop_locked s)
    [StopCancelling (km_worker (ka_manager s) \<noteq> None) (km_producer (ka_manager s))]"
| StopIdle: "thread_step s (StopCancelling False old) (close_producer old s) []"
| StopCancel: "thread_step s (StopCancelling True old) (on_manager (\<lambda>m. m\<lparr>km_cancelled := True\<rparr>) s) [StopWaiting old]"
| StopDone: "km_worker (ka_manager s) = Some WEnded \<Longrightarrow> thread_step s (StopWaiting old) (close_producer old s) []"
| StopGivesUp: "thread_step s (StopWaiting old) (abandon old s) []"

text \<open>What the worker sends, unless the values cannot be encoded.\<close>

definition encoded :: "(Message \<Rightarrow> string option) \<Rightarrow> Message \<Rightarrow> ProducerMessage option" where
  "encoded marshal m =
     map_option (\<lambda>body. \<lparr>pm_Topic = m_Topic m, pm_Key = Itoa (di_ID (m_Device m)), pm_Value = body\<rparr>) (marshal m)"

abbreviation at_phase :: "worker \<Rightarrow> Kafka \<Rightarrow> Kafka" where
  "at_phase w \<equiv> on_manager (\<lambda>m. m\<lparr>km_worker := Some w\<rparr>)"

inductive worker_step :: "(Message \<Rightarrow> string option) \<Rightarrow> worker \<Rightarrow> Kafka \<Rightarrow> Kafka \<Rightarrow> bool" for marshal where
  ReadNone: "km_producer (ka_manager s) = None \<Longrightarrow> worker_step marshal WHead s (at_phase WBlocked s)"
| ReadSome: "km_producer (ka_manager s) = Some p \<Longrightarrow> worker_step marshal WHead s (at_phase (WChecking p) s)"
| BlockedDone: "km_cancelled (ka_manager s) \<Longrightarrow> worker_step marshal WBlocked s (at_phase WEnded s)"
| Notified: "km_notify (ka_manager s) \<Longrightarrow>
    worker_step marshal WBlocked s (at_phase WHead (on_manager (\<lambda>m. m\<lparr>km_notify := False\<rparr>) s))"
| Taken: "co_Next (km_coordinator (ka_manager s)) = Some (m, c) \<Longrightarrow> encoded marshal m = Some pm \<Longrightarrow>
    worker_step marshal (WChecking p) s (at_phase (WSending p pm) (on_manager (\<lambda>m. m\<lparr>km_coordinator := c\<rparr>) s))"
| Unencodable: "co_Next (km_coordinator (ka_manager s)) = Some (m, c) \<Longrightarrow> encoded marshal m = None \<Longrightarrow>
    worker_step marshal (WChecking p) s (at_phase WHead (on_manager (\<lambda>m. m\<lparr>km_coordinator := c\<rparr>) s))"
| QueueEmpty: "co_Next (km_coordinator (ka_manager s)) = None \<Longrightarrow>
    worker_step marshal (WChecking p) s (at_phase (WWaiting p) s)"
| QueueWake: "mq_wake (co_queue (km_coordinator (ka_manager s))) \<Longrightarrow>
    worker_step marshal (WWaiting p) s (at_phase (WChecking p) (on_manager (\<lambda>m. m\<lparr>km_coordinator :=
      (km_coordinator m)\<lparr>co_queue := (co_queue (km_coordinator m))\<lparr>mq_wake := False\<rparr>\<rparr>\<rparr>) s))"
| QueueDone: "km_cancelled (ka_manager s) \<Longrightarrow> worker_step marshal (WWaiting p) s (at_phase WEnded s)"
| Sent: "p \<notin> set (ka_closed s) \<Longrightarrow>
    worker_step marshal (WSending p pm) s (at_phase WHead (s\<lparr>ka_sent := ka_sent s @ [(p, pm)]\<rparr>))"
| SendFailed: "worker_step marshal (WSending p pm) s (at_phase WHead (on_manager (send_failed err) s))"

text \<open>Calls begin when they like; other goroutines submit scans and change policies meanwhile.\<close>

fun is_call :: "thread \<Rightarrow> bool" where
  "is_call (Starting st) = True"
| "is_call (Applying st) = True"
| "is_call Stopping = True"
| "is_call t = False"

inductive kafka_step :: "(Message \<Rightarrow> string option) \<Rightarrow> Kafka \<times> thread multiset \<Rightarrow> Kafka \<times> thread multiset \<Rightarrow> bool"
  for marshal where
  Call: "is_call t \<Longrightarrow> kafka_step marshal (s, T) (s, add_mset t T)"
| Thread: "thread_step s t s' ts \<Longrightarrow> kafka_step marshal (s, add_mset t T) (s', mset ts + T)"
| Worker: "km_worker (ka_manager s) = Some w \<Longrightarrow> worker_step marshal w s s' \<Longrightarrow>
    kafka_step marshal (s, T) (s', T)"
| Cancel: "kafka_step marshal (s, T) (on_manager (\<lambda>m. m\<lparr>km_cancelled := True\<rparr>) s, T)"
| Submit: "kafka_step marshal (s, T)
    (on_manager (\<lambda>m. m\<lparr>km_coordinator := Submit now snapshot (km_coordinator m)\<rparr>) s, T)"
| ApplyDeviceConfig: "kafka_step marshal (s, T)
    (on_manager (\<lambda>m. m\<lparr>km_coordinator := ApplyDeviceConfig cfg (km_coordinator m)\<rparr>) s, T)"
| ResetDevice: "kafka_step marshal (s, T)
    (on_manager (\<lambda>m. m\<lparr>km_coordinator := ResetDevice d (km_coordinator m)\<rparr>) s, T)"

definition kafka_init :: "int \<Rightarrow> bool \<Rightarrow> KafkaSettings \<Rightarrow> Kafka \<times> thread multiset" where
  "kafka_init capacity onDrop zero =
     (\<lparr>ka_manager = km_NewManager (NewCoordinator capacity onDrop) zero, ka_opened = 0, ka_closed = [],
       ka_abandoned = [], ka_sent = []\<rparr>, {#})"

section \<open>Where the producers are\<close>

definition opt_mset :: "'a option \<Rightarrow> 'a multiset" where
  "opt_mset x = (case x of None \<Rightarrow> {#} | Some y \<Rightarrow> {#y#})"

lemma opt_mset_simps [simp]: "opt_mset None = {#}" "opt_mset (Some y) = {#y#}"
  by (simp_all add: opt_mset_def)

fun in_hand :: "thread \<Rightarrow> nat multiset" where
  "in_hand (Enabling st p) = {#p#}"
| "in_hand (Installing st p) = {#p#}"
| "in_hand (Replacing old) = opt_mset old"
| "in_hand (Releasing old) = opt_mset old"
| "in_hand (StopCancelling b old) = opt_mset old"
| "in_hand (StopWaiting old) = opt_mset old"
| "in_hand t = {#}"

definition held :: "thread multiset \<Rightarrow> nat multiset" where
  "held T = \<Sum>\<^sub># (image_mset in_hand T)"

lemma held_simps [simp]: "held {#} = {#}" "held (add_mset t T) = in_hand t + held T" "held (T + T') = held T + held T'"
  by (simp_all add: held_def)

definition accounted :: "Kafka \<Rightarrow> nat multiset" where
  "accounted s = mset (ka_closed s) + mset (ka_abandoned s) + opt_mset (km_producer (ka_manager s))"

lemma on_manager_fields [simp]:
  "ka_manager (on_manager f s) = f (ka_manager s)" "ka_opened (on_manager f s) = ka_opened s"
  "ka_closed (on_manager f s) = ka_closed s" "ka_abandoned (on_manager f s) = ka_abandoned s"
  "ka_sent (on_manager f s) = ka_sent s"
  by (simp_all add: on_manager_def)

lemma close_producer_fields [simp]:
  "ka_manager (close_producer old s) = ka_manager s" "ka_opened (close_producer old s) = ka_opened s"
  "mset (ka_closed (close_producer old s)) = mset (ka_closed s) + opt_mset old"
  "ka_abandoned (close_producer old s) = ka_abandoned s"
  by (simp_all add: close_producer_def split: option.split)

lemma abandon_fields [simp]:
  "ka_manager (abandon old s) = ka_manager s" "ka_opened (abandon old s) = ka_opened s"
  "mset (ka_abandoned (abandon old s)) = mset (ka_abandoned s) + opt_mset old"
  "ka_closed (abandon old s) = ka_closed s"
  by (simp_all add: abandon_def split: option.split)

lemma open_producer_fields [simp]:
  "ka_manager (open_producer s) = ka_manager s" "ka_opened (open_producer s) = Suc (ka_opened s)"
  "ka_closed (open_producer s) = ka_closed s" "ka_abandoned (open_producer s) = ka_abandoned s"
  by (simp_all add: open_producer_def)

lemmas section_defs = start_worker_def start_disabled_def start_failed_def retry_failed_def km_SetEnabled_def
  install_def apply_disabled_def send_failed_def stop_locked_def

lemma thread_step_accounted:
  "thread_step s t s' ts \<Longrightarrow>
   accounted s' + held (mset ts) + mset [0..<ka_opened s] = accounted s + in_hand t + mset [0..<ka_opened s']"
  by (induction rule: thread_step.induct) (simp_all add: accounted_def section_defs)

lemma worker_step_accounted:
  "worker_step marshal w s s' \<Longrightarrow> accounted s' = accounted s \<and> ka_opened s' = ka_opened s"
  by (induction rule: worker_step.induct) (simp_all add: accounted_def section_defs)

definition all_accounted :: "Kafka \<times> thread multiset \<Rightarrow> bool" where
  "all_accounted z \<longleftrightarrow> accounted (fst z) + held (snd z) = mset [0..<ka_opened (fst z)]"

lemma kafka_step_accounted: "kafka_step marshal z z' \<Longrightarrow> all_accounted z \<Longrightarrow> all_accounted z'"
proof (induction rule: kafka_step.induct)
  case (Call t s T)
  then show ?case by (cases t) (simp_all add: all_accounted_def)
next
  case (Thread s t s' ts T)
  have "accounted s' + held (mset ts) + held T + mset [0..<ka_opened s] =
      (accounted s + in_hand t + held T) + mset [0..<ka_opened s']"
    using thread_step_accounted [OF Thread(1)] by (simp add: ac_simps)
  with Thread(2) show ?case by (simp add: all_accounted_def ac_simps)
next
  case (Worker s w s' T)
  then show ?case using worker_step_accounted by (simp add: all_accounted_def)
qed (simp_all add: all_accounted_def accounted_def)

text \<open>Only a \<open>Stop\<close> that has cancelled the worker ever gives a producer up.\<close>

definition gave_up :: "Kafka \<times> thread multiset \<Rightarrow> bool" where
  "gave_up z \<longleftrightarrow> km_cancelled (ka_manager (fst z)) \<or>
     ka_abandoned (fst z) = [] \<and> (\<forall>old. StopWaiting old \<notin># snd z)"

lemma thread_step_gave_up: "thread_step s t s' ts \<Longrightarrow> gave_up (s, add_mset t T) \<Longrightarrow> gave_up (s', mset ts + T)"
  by (induction rule: thread_step.induct) (auto simp: gave_up_def section_defs)

lemma worker_step_gave_up: "worker_step marshal w s s' \<Longrightarrow> gave_up (s, T) \<Longrightarrow> gave_up (s', T)"
  by (induction rule: worker_step.induct) (auto simp: gave_up_def section_defs)

lemma kafka_step_gave_up: "kafka_step marshal z z' \<Longrightarrow> gave_up z \<Longrightarrow> gave_up z'"
proof (induction rule: kafka_step.induct)
  case (Call t s T)
  then show ?case by (cases t) (auto simp: gave_up_def)
next
  case (Thread s t s' ts T)
  then show ?case by (rule thread_step_gave_up)
next
  case (Worker s w s' T)
  from Worker(2,3) show ?case by (rule worker_step_gave_up)
qed (auto simp: gave_up_def)

section \<open>The state that is shown\<close>

definition status_ok :: "Kafka \<times> thread multiset \<Rightarrow> bool" where
  "status_ok z \<longleftrightarrow>
     (ks_State (km_status (ka_manager (fst z))) = KafkaStateOnline \<longrightarrow> km_producer (ka_manager (fst z)) \<noteq> None)"

lemma kafka_step_status: "kafka_step marshal z z' \<Longrightarrow> status_ok z \<Longrightarrow> status_ok z'"
proof (induction rule: kafka_step.induct)
  case (Thread s t s' ts T)
  then show ?case by (induction rule: thread_step.induct) (auto simp: status_ok_def section_defs)
next
  case (Worker s w s' T)
  from Worker(2,3) show ?case by (induction rule: worker_step.induct) (auto simp: status_ok_def section_defs)
qed (simp_all add: status_ok_def)

section \<open>The pauses of the reconnection\<close>

fun pause_ok :: "thread \<Rightarrow> bool" where
  "pause_ok (Backoff d) = (d \<in> {second, 2 * second, 4 * second, 8 * second, 16 * second, 30 * second})"
| "pause_ok (Retrying st d) = (d \<in> {second, 2 * second, 4 * second, 8 * second, 16 * second, 30 * second})"
| "pause_ok t = True"

lemma kafka_step_pause:
  "kafka_step marshal z z' \<Longrightarrow> \<forall>t\<in>#snd z. pause_ok t \<Longrightarrow> \<forall>t\<in>#snd z'. pause_ok t"
proof (induction rule: kafka_step.induct)
  case (Call t s T)
  then show ?case by (cases t) simp_all
next
  case (Thread s t s' ts T)
  have "\<forall>t'\<in>set ts. pause_ok t'" if "pause_ok t"
    using Thread(1) that by (induction rule: thread_step.induct) (auto simp: next_delay_def second_def)
  with Thread(2) show ?case by auto
qed simp_all

section \<open>Wake-ups\<close>

text \<open>A queue that holds messages has its wake-up token while the worker waits for it.\<close>

definition awake :: "messageQueue \<Rightarrow> bool" where
  "awake q \<longleftrightarrow> (mq_contents q \<noteq> [] \<longrightarrow> mq_wake q)"

lemma push_awake: "mq_wf q \<Longrightarrow> awake q \<Longrightarrow> mq_wf (snd (mq_push m q)) \<and> awake (snd (mq_push m q))"
  using mq_push_fields [of q m] mq_push_wake [of q m] mq.push_refused [of q m] by (auto simp: awake_def)

definition pushed :: "messageQueue \<Rightarrow> messageQueue \<Rightarrow> bool" where
  "pushed q q' \<longleftrightarrow> q' = q \<or> (\<exists>m. q' = snd (mq_push m q))"

lemma pushed_refl [simp]: "pushed q q"
  by (simp add: pushed_def)

lemma enqueue_pushed: "co_queue c = q \<Longrightarrow> pushed q (co_queue (enqueue now cfg snap ty pts c))"
  using enqueue_queue [of now cfg snap ty pts c] by (auto simp: pushed_def)

lemma Submit_pushed: "pushed (co_queue c) (co_queue (Submit now snap c))"
proof -
  have "pushed q (co_queue (submitChanges now cfg st snap c'))" if "co_queue c' = q" for q cfg st c'
    using that by (auto simp: submitChanges_def Let_def intro!: enqueue_pushed split: prod.split)
  moreover have "pushed q (co_queue (submitFull now cfg st snap c'))" if "co_queue c' = q" for q cfg st c'
    using that by (auto simp: submitFull_def Let_def intro!: enqueue_pushed)
  ultimately show ?thesis by (auto simp: Submit_def Let_def split: option.split)
qed

lemma pushed_awake: "pushed q q' \<Longrightarrow> mq_wf q \<Longrightarrow> mq_wf q' \<and> (awake q \<longrightarrow> awake q')"
  using push_awake mq_push_fields by (auto simp: pushed_def)

fun telling :: "thread \<Rightarrow> bool" where
  "telling (Replacing old) = True"
| "telling Notifying = True"
| "telling t = False"

definition wakes :: "Kafka \<times> thread multiset \<Rightarrow> bool" where
  "wakes z \<longleftrightarrow>
     (let m = ka_manager (fst z); q = co_queue (km_coordinator m) in
      mq_wf q \<and>
      (km_worker m = Some WBlocked \<and> km_producer m \<noteq> None \<longrightarrow> km_notify m \<or> (\<exists>t\<in>#snd z. telling t)) \<and>
      ((\<exists>p. km_worker m = Some (WWaiting p)) \<longrightarrow> awake q))"

text \<open>What the calls on the coordinator do to its queue.\<close>

lemma calm_queue:
  assumes "mq_wf q"
  shows "mq_wf (mq_discardAll q)" "awake (mq_discardAll q)" "mq_wf (mq_stopAccepting q)"
    "awake (mq_stopAccepting q) = awake q" "mq_wf (q\<lparr>mq_wake := w\<rparr>)"
  using assms mq_discardAll_wf [of q] mq_stopAccepting_wf [of q]
  by (simp_all add: awake_def mq_contents_def mq_stopAccepting_def mq_discardAll_def mq_wf_def)

lemma co_SetEnabled_queue:
  "mq_wf (co_queue c) \<Longrightarrow> mq_wf (co_queue (co_SetEnabled b c)) \<and>
     (awake (co_queue c) \<longrightarrow> awake (co_queue (co_SetEnabled b c)))"
  using calm_queue [of "co_queue c"] by (simp add: co_SetEnabled_def Let_def)

lemma StopAccepting_queue:
  "mq_wf (co_queue c) \<Longrightarrow> mq_wf (co_queue (StopAccepting c)) \<and>
     awake (co_queue (StopAccepting c)) = awake (co_queue c)"
  using calm_queue [of "co_queue c"] by (simp add: StopAccepting_def)

lemma policy_queue [simp]:
  "co_queue (ApplyDeviceConfig cfg c) = co_queue c" "co_queue (ResetDevice d c) = co_queue c"
  by (simp_all add: ApplyDeviceConfig_def ResetDevice_def Let_def)

lemma thread_step_wakes: "thread_step s t s' ts \<Longrightarrow> wakes (s, add_mset t T) \<Longrightarrow> wakes (s', mset ts + T)"
  by (induction rule: thread_step.induct)
    (auto simp: wakes_def Let_def section_defs co_SetEnabled_queue StopAccepting_queue)

lemma co_Next_queue:
  "co_Next c = Some (m, c') \<Longrightarrow> mq_wf (co_queue c) \<Longrightarrow> mq_wf (co_queue c')"
  using mq_take_wf by (auto simp: co_Next_def)

lemma co_Next_None: "mq_wf (co_queue c) \<Longrightarrow> co_Next c = None \<longleftrightarrow> mq_contents (co_queue c) = []"
  using mq.take_oldest [of "co_queue c"] mq.take_empty [of "co_queue c"]
  by (cases "mq_contents (co_queue c)") (auto simp: co_Next_def)

lemma worker_step_wakes:
  "worker_step marshal w s s' \<Longrightarrow> km_worker (ka_manager s) = Some w \<Longrightarrow> wakes (s, T) \<Longrightarrow> wakes (s', T)"
  by (induction rule: worker_step.induct)
    (auto simp: wakes_def Let_def section_defs co_Next_queue co_Next_None awake_def calm_queue)

lemma kafka_step_wakes: "kafka_step marshal z z' \<Longrightarrow> wakes z \<Longrightarrow> wakes z'"
proof (induction rule: kafka_step.induct)
  case (Submit s T now snapshot)
  then show ?case
    using pushed_awake [OF Submit_pushed, of "km_coordinator (ka_manager s)" now snapshot]
    by (auto simp: wakes_def Let_def)
next
  case (Thread s t s' ts T)
  then show ?case by (rule thread_step_wakes)
next
  case (Worker s w s' T)
  from Worker(2,1,3) show ?case by (rule worker_step_wakes)
qed (auto simp: wakes_def Let_def)

section \<open>Every history\<close>

definition kafka_reachable :: "(Message \<Rightarrow> string option) \<Rightarrow> Kafka \<times> thread multiset \<Rightarrow> bool" where
  "kafka_reachable marshal z \<longleftrightarrow>
     (\<exists>capacity onDrop zero. (kafka_step marshal)\<^sup>*\<^sup>* (kafka_init capacity onDrop zero) z)"

lemma kafka_init_ok:
  "all_accounted (kafka_init capacity onDrop zero) \<and> status_ok (kafka_init capacity onDrop zero) \<and>
   (\<forall>t\<in>#snd (kafka_init capacity onDrop zero). pause_ok t) \<and> wakes (kafka_init capacity onDrop zero) \<and>
   gave_up (kafka_init capacity onDrop zero)"
  using newMessageQueue_wf [of capacity]
  by (simp add: gave_up_def kafka_init_def km_NewManager_def all_accounted_def accounted_def status_ok_def wakes_def
      NewCoordinator_def)

interpretation kafka_history: kept_by_steps "kafka_step marshal" all_accounted for marshal
  by unfold_locales (rule kafka_step_accounted)

lemmas steps_accounted = kafka_history.all_kept

interpretation kafka_invariant: kept_by_steps "kafka_step marshal"
  "\<lambda>z. all_accounted z \<and> status_ok z \<and> (\<forall>t\<in>#snd z. pause_ok t) \<and> wakes z \<and> gave_up z" for marshal
  using kafka_step_accounted kafka_step_status kafka_step_pause kafka_step_wakes kafka_step_gave_up by unfold_locales blast

lemma kafka_reachable_inv:
  assumes "kafka_reachable marshal z"
  shows "all_accounted z" "status_ok z" "\<forall>t\<in>#snd z. pause_ok t" "wakes z" "gave_up z"
proof -
  obtain capacity onDrop zero where "(kafka_step marshal)\<^sup>*\<^sup>* (kafka_init capacity onDrop zero) z"
    using assms by (auto simp: kafka_reachable_def)
  from kafka_invariant.all_kept [OF this kafka_init_ok] show "all_accounted z" "status_ok z" "\<forall>t\<in>#snd z. pause_ok t" "wakes z" "gave_up z" by blast+
qed

lemma accounted_current:
  assumes "all_accounted (s, T)"
  shows "distinct (ka_closed s)" "\<And>p. km_producer (ka_manager s) = Some p \<Longrightarrow> p \<notin> set (ka_closed s) \<and> p \<notin> set (ka_abandoned s)"
    "\<And>p. p < ka_opened s \<longleftrightarrow> p \<in> set (ka_closed s) \<or> p \<in> set (ka_abandoned s) \<or>
      km_producer (ka_manager s) = Some p \<or> (\<exists>t\<in>#T. p \<in># in_hand t)"
proof -
  let ?all = "mset (ka_closed s) + mset (ka_abandoned s) + opt_mset (km_producer (ka_manager s)) + held T"
  have eq: "?all = mset [0..<ka_opened s]" using assms by (simp add: all_accounted_def accounted_def)
  have one: "count ?all p \<le> 1" for p
    unfolding eq using distinct_count_atmost_1 [of "[0..<ka_opened s]"] by (cases "p < ka_opened s") simp_all
  have "count (mset (ka_closed s)) p \<le> 1" for p
    using one [of p] by (rule le_trans [rotated]) (simp add: add.assoc)
  then show "distinct (ka_closed s)"
    by (metis distinct_count_atmost_1 count_mset_0_iff less_one linorder_not_less order_antisym_conv)
  show "p \<notin> set (ka_closed s) \<and> p \<notin> set (ka_abandoned s)" if "km_producer (ka_manager s) = Some p" for p
  proof -
    have "count (mset (ka_closed s)) p = 0" "count (mset (ka_abandoned s)) p = 0"
      using one [of p] that by simp_all
    then show ?thesis by (metis count_eq_zero_iff set_mset_mset)
  qed
  show "p < ka_opened s \<longleftrightarrow> p \<in> set (ka_closed s) \<or> p \<in> set (ka_abandoned s) \<or>
      km_producer (ka_manager s) = Some p \<or> (\<exists>t\<in>#T. p \<in># in_hand t)" for p
  proof -
    have "p < ka_opened s \<longleftrightarrow> p \<in># ?all" unfolding eq by simp
    also have "p \<in># opt_mset (km_producer (ka_manager s)) \<longleftrightarrow> km_producer (ka_manager s) = Some p"
      by (auto simp: opt_mset_def split: option.split)
    then have "p \<in># ?all \<longleftrightarrow> p \<in> set (ka_closed s) \<or> p \<in> set (ka_abandoned s) \<or>
      km_producer (ka_manager s) = Some p \<or> (\<exists>t\<in>#T. p \<in># in_hand t)"
      by (auto simp: held_def)
    finally show ?thesis .
  qed
qed

section \<open>Runs of one thread\<close>

lemma run_thread:
  "thread_step s t s' [t'] \<Longrightarrow> (kafka_step marshal)\<^sup>*\<^sup>* (s', add_mset t' T) z \<Longrightarrow>
     (kafka_step marshal)\<^sup>*\<^sup>* (s, add_mset t T) z"
  using kafka_step.Thread [of s t s' "[t']" marshal T] by (auto intro: converse_rtranclp_into_rtranclp)

lemma run_last:
  "thread_step s t s' [] \<Longrightarrow> (kafka_step marshal)\<^sup>*\<^sup>* (s, add_mset t T) (s', T)"
  using kafka_step.Thread [of s t s' "[]" marshal T] by auto

lemma run_worker:
  "km_worker (ka_manager s) = Some w \<Longrightarrow> worker_step marshal w s s' \<Longrightarrow> (kafka_step marshal)\<^sup>*\<^sup>* (s', T) z \<Longrightarrow>
     (kafka_step marshal)\<^sup>*\<^sup>* (s, T) z"
  by (rule converse_rtranclp_into_rtranclp) (rule kafka_step.Worker)

text \<open>A worker that looks into a queue with messages sends one, if its producer is open.\<close>

lemma send_checking:
  assumes "km_worker (ka_manager s) = Some (WChecking q)" "co_Next (km_coordinator (ka_manager s)) = Some (m, c)"
    and "encoded marshal m = Some pm" "q \<notin> set (ka_closed s)"
  shows "\<exists>s'. (kafka_step marshal)\<^sup>*\<^sup>* (s, T) (s', T) \<and> ka_sent s' = ka_sent s @ [(q, pm)]"
proof -
  let ?s1 = "at_phase (WSending q pm) (on_manager (\<lambda>m. m\<lparr>km_coordinator := c\<rparr>) s)"
  let ?s2 = "at_phase WHead (?s1\<lparr>ka_sent := ka_sent ?s1 @ [(q, pm)]\<rparr>)"
  have "worker_step marshal (WChecking q) s ?s1" using assms(2,3) by (rule worker_step.Taken)
  moreover have "worker_step marshal (WSending q pm) ?s1 ?s2" using assms(4) by (intro worker_step.Sent) simp
  ultimately have "(kafka_step marshal)\<^sup>*\<^sup>* (s, T) (?s2, T)"
    using assms(1) by (intro run_worker [of s _ _ ?s1] run_worker [of ?s1 _ _ ?s2] rtranclp.rtrancl_refl) simp_all
  then show ?thesis by (intro exI [of _ ?s2]) simp
qed

lemma send_head:
  assumes "km_worker (ka_manager s) = Some WHead" "km_producer (ka_manager s) = Some p"
    and "co_Next (km_coordinator (ka_manager s)) = Some (m, c)" "encoded marshal m = Some pm" "p \<notin> set (ka_closed s)"
  shows "\<exists>s'. (kafka_step marshal)\<^sup>*\<^sup>* (s, T) (s', T) \<and> ka_sent s' = ka_sent s @ [(p, pm)]"
proof -
  let ?s1 = "at_phase (WChecking p) s"
  have "worker_step marshal WHead s ?s1" using assms(2) by (rule worker_step.ReadSome)
  with send_checking [of ?s1 p m c marshal pm T] assms show ?thesis by (auto intro: run_worker)
qed

lemma send_notified:
  assumes "km_worker (ka_manager s) = Some WBlocked" "km_notify (ka_manager s)" "km_producer (ka_manager s) = Some p"
    and "co_Next (km_coordinator (ka_manager s)) = Some (m, c)" "encoded marshal m = Some pm" "p \<notin> set (ka_closed s)"
  shows "\<exists>s'. (kafka_step marshal)\<^sup>*\<^sup>* (s, T) (s', T) \<and> ka_sent s' = ka_sent s @ [(p, pm)]"
proof -
  let ?s1 = "at_phase WHead (on_manager (\<lambda>m. m\<lparr>km_notify := False\<rparr>) s)"
  have "worker_step marshal WBlocked s ?s1" using assms(2) by (rule worker_step.Notified)
  with send_head [of ?s1 p m c marshal pm T] assms show ?thesis by (auto intro: run_worker)
qed

lemma telling_notifies:
  assumes "telling t"
  shows "\<exists>s'. (kafka_step marshal)\<^sup>*\<^sup>* (s, add_mset t T) (s', T) \<and> km_notify (ka_manager s') \<and>
    km_worker (ka_manager s') = km_worker (ka_manager s) \<and> km_producer (ka_manager s') = km_producer (ka_manager s) \<and>
    km_coordinator (ka_manager s') = km_coordinator (ka_manager s) \<and> ka_sent s' = ka_sent s"
proof -
  let ?tell = "on_manager (\<lambda>m. m\<lparr>km_notify := True\<rparr>)"
  have 1: "(kafka_step marshal)\<^sup>*\<^sup>* (s, add_mset Notifying T) (?tell s, T)" for s
    by (rule run_last) (rule thread_step.Notify)
  have 2: "ka_sent (close_producer old s) = ka_sent s" for old by (simp add: close_producer_def)
  have "(kafka_step marshal)\<^sup>*\<^sup>* (s, add_mset (Replacing old) T) (?tell (close_producer old s), T)" for old
    by (rule run_thread [OF thread_step.Replace 1])
  with 1 2 assms show ?thesis by (cases t) (force intro: exI [of _ "?tell s"] exI [of _ "?tell (close_producer _ s)"])+
qed

lemma send_blocked:
  assumes "all_accounted (s, T)" "wakes (s, T)"
    and "km_worker (ka_manager s) = Some WBlocked" "km_producer (ka_manager s) = Some p"
    and "co_Next (km_coordinator (ka_manager s)) = Some (m, c)" "encoded marshal m = Some pm"
  shows "\<exists>s' T'. (kafka_step marshal)\<^sup>*\<^sup>* (s, T) (s', T') \<and> ka_sent s' = ka_sent s @ [(p, pm)]"
proof (cases "km_notify (ka_manager s)")
  case True
  with send_notified [OF assms(3) _ assms(4-6)] accounted_current(2) [OF assms(1,4)] show ?thesis by blast
next
  case False
  then obtain t T' where t: "telling t" "T = add_mset t T'"
    using assms(2-4) by (auto simp: wakes_def Let_def dest: multi_member_split)
  obtain s1 where s1: "(kafka_step marshal)\<^sup>*\<^sup>* (s, T) (s1, T')" "km_notify (ka_manager s1)"
    "km_worker (ka_manager s1) = Some WBlocked" "km_producer (ka_manager s1) = Some p"
    "co_Next (km_coordinator (ka_manager s1)) = Some (m, c)" "ka_sent s1 = ka_sent s"
    using telling_notifies [OF t(1), of marshal s T'] assms(3-5) unfolding t(2) by metis
  have "p \<notin> set (ka_closed s1)"
    using accounted_current(2) [OF steps_accounted [OF s1(1) assms(1)] s1(4)] by blast
  from send_notified [OF s1(3,2,4,5) assms(6) this, of T'] s1(1,6) show ?thesis
    by (metis rtranclp_trans)
qed

lemma send_waiting:
  assumes "wakes (s, T)" "km_worker (ka_manager s) = Some (WWaiting q)"
    and "co_Next (km_coordinator (ka_manager s)) = Some (m, c)" "encoded marshal m = Some pm" "q \<notin> set (ka_closed s)"
  shows "\<exists>s'. (kafka_step marshal)\<^sup>*\<^sup>* (s, T) (s', T) \<and> ka_sent s' = ka_sent s @ [(q, pm)]"
proof -
  let ?c = "km_coordinator (ka_manager s)"
  let ?s1 = "at_phase (WChecking q) (on_manager (\<lambda>m. m\<lparr>km_coordinator :=
      (km_coordinator m)\<lparr>co_queue := (co_queue (km_coordinator m))\<lparr>mq_wake := False\<rparr>\<rparr>\<rparr>) s)"
  have "mq_wf (co_queue ?c)" "awake (co_queue ?c)" using assms(1,2) by (simp_all add: wakes_def Let_def)
  moreover have "mq_contents (co_queue ?c) \<noteq> []" using co_Next_None [OF calculation(1)] assms(3) by auto
  ultimately have wake: "mq_wake (co_queue ?c)" by (simp add: awake_def)
  then have step: "worker_step marshal (WWaiting q) s ?s1" by (rule worker_step.QueueWake)
  have "\<exists>c'. co_Next (km_coordinator (ka_manager ?s1)) = Some (m, c')"
    using assms(3) by (auto simp: co_Next_def mq_take_def split: if_splits)
  then obtain c' where "co_Next (km_coordinator (ka_manager ?s1)) = Some (m, c')" by blast
  from send_checking [OF _ this assms(4), of q T] assms(5) obtain s' where
    "(kafka_step marshal)\<^sup>*\<^sup>* (?s1, T) (s', T)" "ka_sent s' = ka_sent s @ [(q, pm)]" by auto
  with run_worker [OF assms(2) step] show ?thesis by blast
qed

section \<open>Properties\<close>

text \<open>
  C28: under every interleaving of \<open>Start\<close>, \<open>ApplySettings\<close>, \<open>Stop\<close>, reconnections, scans and the
  worker, every producer is accounted for and none is closed twice: whatever was opened is the current
  producer, in the hands of a call under way, closed once, or, the one leak, given up unclosed by a
  \<open>Stop\<close> whose context ended; and that needs a \<open>Stop\<close>, so until the worker is cancelled nothing
  is given up. The current producer is never a closed one, \<open>online\<close> is only shown while there is
  one, and a reconnection pauses 1, 2, 4, 8, 16 or 30 seconds.
\<close>

theorem producers_accounted:
  assumes "kafka_reachable marshal (s, T)"
  shows "distinct (ka_closed s) \<and>
    (\<forall>p. p < ka_opened s \<longleftrightarrow> p \<in> set (ka_closed s) \<or> p \<in> set (ka_abandoned s) \<or>
       km_producer (ka_manager s) = Some p \<or> (\<exists>t\<in>#T. p \<in># in_hand t)) \<and>
    (ka_abandoned s = [] \<or> km_cancelled (ka_manager s)) \<and>
    (\<forall>p. km_producer (ka_manager s) = Some p \<longrightarrow> p \<notin> set (ka_closed s) \<and> p \<notin> set (ka_abandoned s)) \<and>
    (ks_State (km_Status (ka_manager s)) = KafkaStateOnline \<longrightarrow> km_producer (ka_manager s) \<noteq> None) \<and>
    (\<forall>d. Backoff d \<in># T \<longrightarrow> d \<in> {second, 2 * second, 4 * second, 8 * second, 16 * second, 30 * second})"
proof -
  note inv = kafka_reachable_inv [OF assms]
  have "pause_ok (Backoff d)" if "Backoff d \<in># T" for d
    by (rule bspec [OF inv(3)]) (simp add: that)
  moreover have "ks_State (km_Status (ka_manager s)) = ks_State (km_status (ka_manager s))" by (simp add: km_Status_def)
  moreover have "ka_abandoned s = [] \<or> km_cancelled (ka_manager s)" using inv(5) by (auto simp: gave_up_def)
  ultimately show ?thesis using accounted_current [OF inv(1)] inv(2) by (simp add: status_ok_def)
qed

text \<open>
  C7: no message is stuck. In every reachable state in which a worker lives, a producer is
  installed and the queue holds a message that can be encoded, steps of the worker and of the calls
  under way lead to that message being sent: no notification and no wake-up is ever lost. The one
  state excluded is that of a worker that already waits for the queue with an older producer that was
  closed since; there the message is lost (\<open>replaced_producer_still_in_use\<close>). With an older
  producer that is still open the worker sends with that one.
\<close>

theorem queued_message_is_sent:
  assumes "kafka_reachable marshal (s, T)"
    and "km_worker (ka_manager s) = Some w" "w \<noteq> WEnded" "km_producer (ka_manager s) = Some p"
    and "co_Next (km_coordinator (ka_manager s)) = Some (m, c)" "encoded marshal m = Some pm"
    and "\<And>q. w = WChecking q \<or> w = WWaiting q \<Longrightarrow> q \<notin> set (ka_closed s)"
  shows "\<exists>q s' T'. (kafka_step marshal)\<^sup>*\<^sup>* (s, T) (s', T') \<and> ka_sent s' = ka_sent s @ [(q, pm)] \<and>
    (q = p \<or> w = WChecking q \<or> w = WWaiting q)"
proof -
  note inv = kafka_reachable_inv [OF assms(1)]
  have open_p: "p \<notin> set (ka_closed s)" using accounted_current(2) [OF inv(1) assms(4)] by blast
  show ?thesis
  proof (cases w)
    case WHead
    with send_head [OF _ assms(4-6) open_p] assms(2) show ?thesis by blast
  next
    case WBlocked
    with send_blocked [OF inv(1,4) _ assms(4-6)] assms(2) show ?thesis by blast
  next
    case (WChecking q)
    with send_checking [OF _ assms(5,6)] assms(2,7) show ?thesis by blast
  next
    case (WWaiting q)
    with send_waiting [OF inv(4) _ assms(5,6)] assms(2,7) show ?thesis by blast
  next
    case (WSending q pm')
    let ?s1 = "at_phase WHead (on_manager (send_failed []) s)"
    have step: "worker_step marshal w s ?s1" unfolding WSending by (rule worker_step.SendFailed)
    from send_head [of ?s1 p m c marshal pm T] assms(4-6) open_p obtain s' where
      "(kafka_step marshal)\<^sup>*\<^sup>* (?s1, T) (s', T)" "ka_sent s' = ka_sent s @ [(p, pm)]"
      by (auto simp: send_failed_def)
    with run_worker [OF assms(2) step] show ?thesis by blast
  qed (use assms(3) in simp)
qed

lemma ApplySettings_failed: "k_Enabled st \<Longrightarrow> ApplySettings (Inl err) st m = ((km_Status m, Some err), None, m)"
  by (simp add: ApplySettings_def)

text \<open>
  C34: a call of \<open>ApplySettings\<close> that nothing interrupts does what \<open>ApplySettings\<close> says from beginning
  to end. When the new producer cannot be opened the old one stays, with its settings and its
  status, and the error is returned. Otherwise exactly the old producer is closed, nothing that is
  queued is lost, and the new one is current; disabling empties the queue and leaves no producer.
\<close>

theorem ApplySettings_alone:
  assumes "ApplySettings opened st (ka_manager s) = ((status, err), old, m')"
    and "\<And>p. opened = Inr p \<Longrightarrow> p = ka_opened s"
  shows "(\<exists>s'. (kafka_step marshal)\<^sup>*\<^sup>* (s, add_mset (Applying st) T) (s', T) \<and> ka_manager s' = m' \<and>
      mset (ka_closed s') = mset (ka_closed s) + opt_mset old) \<and>
    (if k_Enabled st then
       (case opened of
          Inl e \<Rightarrow> err = Some e \<and> old = None \<and> m' = ka_manager s \<and> status = km_Status (ka_manager s)
        | Inr p \<Rightarrow> err = None \<and> old = km_producer (ka_manager s) \<and> km_producer m' = Some p \<and> km_settings m' = st \<and>
            km_notify m' \<and> co_enabled (km_coordinator m') \<and> ks_State status = KafkaStateOnline \<and>
            queued (km_coordinator m') = queued (km_coordinator (ka_manager s)))
     else err = None \<and> old = km_producer (ka_manager s) \<and> km_producer m' = None \<and> km_settings m' = st \<and>
       \<not> co_enabled (km_coordinator m') \<and> ks_State status = KafkaStateDisabled \<and>
       queued (km_coordinator m') = [])"
proof (cases "k_Enabled st")
  case False
  let ?s1 = "on_manager (km_SetEnabled False) s"
  let ?s2 = "on_manager (apply_disabled st) ?s1"
  let ?s3 = "close_producer (km_producer (ka_manager ?s1)) ?s2"
  have "(kafka_step marshal)\<^sup>*\<^sup>* (s, add_mset (Applying st) T) (?s3, T)"
    by (rule run_thread [OF thread_step.ApplyDisabled [OF False] run_thread [OF thread_step.ApplyOff
      run_last [OF thread_step.Release]]])
  moreover have "ka_manager ?s3 = m'" "mset (ka_closed ?s3) = mset (ka_closed s) + opt_mset old"
    using assms(1) False by (auto simp: ApplySettings_def Let_def)
  ultimately have "\<exists>s'. (kafka_step marshal)\<^sup>*\<^sup>* (s, add_mset (Applying st) T) (s', T) \<and> ka_manager s' = m' \<and>
      mset (ka_closed s') = mset (ka_closed s) + opt_mset old" by blast
  moreover have "queued (co_SetEnabled False c) = []" for c
    by (simp add: co_SetEnabled_def queued_def mq_contents_def mq_discardAll_def)
  moreover have "m' = apply_disabled st (km_SetEnabled False (ka_manager s))" "status = km_Status m'" "err = None"
    "old = km_producer (km_SetEnabled False (ka_manager s))"
    using False assms(1) by (auto simp: ApplySettings_def Let_def)
  ultimately show ?thesis
    using False by (simp add: km_SetEnabled_def apply_disabled_def km_Status_def) (simp add: co_SetEnabled_def)
next
  case on: True
  show ?thesis
  proof (cases opened)
    case (Inl e)
    have "(kafka_step marshal)\<^sup>*\<^sup>* (s, add_mset (Applying st) T) (s, T)"
      by (rule run_last [OF thread_step.ApplyFailed [OF on]])
    with on Inl assms(1) show ?thesis by (auto simp: ApplySettings_def)
  next
    case (Inr p)
    let ?s0 = "open_producer s"
    let ?s1 = "on_manager (km_SetEnabled True) ?s0"
    let ?s2 = "on_manager (install st p) ?s1"
    let ?s3 = "close_producer (km_producer (ka_manager ?s1)) ?s2"
    let ?s4 = "on_manager (\<lambda>m. m\<lparr>km_notify := True\<rparr>) ?s3"
    have p: "ka_opened s = p" using assms(2) [OF Inr] by simp
    have "(kafka_step marshal)\<^sup>*\<^sup>* (s, add_mset (Applying st) T) (?s4, T)"
      by (rule run_thread [OF thread_step.ApplyOpened [OF on, of s, unfolded p] run_thread [OF thread_step.Enable
        run_thread [OF thread_step.Install run_thread [OF thread_step.Replace run_last [OF thread_step.Notify]]]]])
    moreover have "ka_manager ?s4 = m'" "mset (ka_closed ?s4) = mset (ka_closed s) + opt_mset old"
      using assms(1) on Inr by (auto simp: ApplySettings_def Let_def)
    ultimately have "\<exists>s'. (kafka_step marshal)\<^sup>*\<^sup>* (s, add_mset (Applying st) T) (s', T) \<and> ka_manager s' = m' \<and>
      mset (ka_closed s') = mset (ka_closed s) + opt_mset old" by blast
    moreover have "m' = (install st p (km_SetEnabled True (ka_manager s)))\<lparr>km_notify := True\<rparr>"
      "status = km_Status m'" "err = None" "old = km_producer (km_SetEnabled True (ka_manager s))"
      using on Inr assms(1) by (auto simp: ApplySettings_def Let_def)
    ultimately show ?thesis
      using on Inr by (simp add: km_SetEnabled_def install_def km_Status_def) (simp add: co_SetEnabled_def queued_def)
  qed
qed

section \<open>What goes wrong\<close>

text \<open>
  The reconnection that \<open>Start\<close> left behind does not end when the publisher is disabled: it opens a
  producer with the disabled settings, enables the coordinator and shows \<open>online\<close>.
\<close>

lemma disabled_then_reconnected:
  assumes "\<not> k_Enabled (km_settings (ka_manager s))"
  shows "\<exists>s'. (kafka_step marshal)\<^sup>*\<^sup>* (s, add_mset (Backoff d) T) (s', T) \<and>
    ks_State (km_Status (ka_manager s')) = KafkaStateOnline \<and> co_enabled (km_coordinator (ka_manager s')) \<and>
    \<not> k_Enabled (km_settings (ka_manager s'))"
proof -
  let ?st = "km_settings (ka_manager s)"
  let ?s1 = "on_manager (km_SetEnabled True) (open_producer s)"
  let ?s2 = "on_manager (install ?st (ka_opened s)) ?s1"
  let ?s3 = "close_producer (km_producer (ka_manager ?s1)) ?s2"
  let ?s4 = "on_manager (\<lambda>m. m\<lparr>km_notify := True\<rparr>) ?s3"
  have "(kafka_step marshal)\<^sup>*\<^sup>* (s, add_mset (Backoff d) T) (?s4, T)"
    by (rule run_thread [OF thread_step.Timer run_thread [OF thread_step.RetryOpened run_thread [OF thread_step.Enable
        run_thread [OF thread_step.Install run_thread [OF thread_step.Replace run_last [OF thread_step.Notify]]]]]])
  with assms show ?thesis
    by (intro exI [of _ ?s4]) (simp add: km_Status_def install_def km_SetEnabled_def co_SetEnabled_def)
qed

text \<open>
  A worker that waits for the queue keeps the producer that it read before: after the settings are
  replaced it waits on with a closed one, and loses the next message.
\<close>

lemma replaced_producer_still_in_use:
  assumes "km_worker (ka_manager s) = Some (WWaiting q)" "km_producer (ka_manager s) = Some q" "k_Enabled st"
  shows "\<exists>s'. (kafka_step marshal)\<^sup>*\<^sup>* (s, add_mset (Applying st) T) (s', T) \<and>
    km_worker (ka_manager s') = Some (WWaiting q) \<and> q \<in> set (ka_closed s')"
proof -
  let ?s1 = "on_manager (km_SetEnabled True) (open_producer s)"
  let ?s2 = "on_manager (install st (ka_opened s)) ?s1"
  let ?s3 = "close_producer (km_producer (ka_manager ?s1)) ?s2"
  let ?s4 = "on_manager (\<lambda>m. m\<lparr>km_notify := True\<rparr>) ?s3"
  have "(kafka_step marshal)\<^sup>*\<^sup>* (s, add_mset (Applying st) T) (?s4, T)"
    by (rule run_thread [OF thread_step.ApplyOpened [OF assms(3)] run_thread [OF thread_step.Enable
        run_thread [OF thread_step.Install run_thread [OF thread_step.Replace run_last [OF thread_step.Notify]]]]])
  with assms show ?thesis
    by (intro exI [of _ ?s4]) (simp add: install_def km_SetEnabled_def close_producer_def)
qed

text \<open>One failed message is shown as \<open>reconnecting\<close> however many are sent after it.\<close>

lemma failed_send_sticks:
  "worker_step marshal w s s' \<Longrightarrow> ks_State (km_Status (ka_manager s)) = KafkaStateReconnecting \<Longrightarrow>
   ks_State (km_Status (ka_manager s')) = KafkaStateReconnecting"
  by (induction rule: worker_step.induct) (simp_all add: km_Status_def send_failed_def)

section \<open>Witnesses\<close>

definition zero_settings :: KafkaSettings where
  "zero_settings = \<lparr>k_Enabled = True, k_Brokers = [], k_ClientID = [], k_KafkaVersion = [],
     k_SecurityProtocol = [], k_SASLMechanism = [], k_SASLUsername = [], k_SASLPassword = [], k_SSLCAPath = [],
     k_SSLCertificatePath = [], k_SSLKeyPath = [], k_SSLEndpointIdentificationAlgorithm = [],
     k_QueueCapacity = 4, k_UpdatedAt = 0\<rparr>"

definition no_settings :: "Kafka \<times> thread multiset" where
  "no_settings = kafka_init 4 True zero_settings"

theorem ApplySettings_alone_witness:
  "\<exists>s'. (kafka_step (\<lambda>_. Some []))\<^sup>*\<^sup>* (fst no_settings, {#Applying zero_settings#}) (s', {#}) \<and>
     km_producer (ka_manager s') = Some 0"
proof -
  obtain status err old m' where call:
    "ApplySettings (Inr 0) zero_settings (ka_manager (fst no_settings)) = ((status, err), old, m')"
    by (metis prod.exhaust)
  have "\<And>p. (Inr 0 :: string + nat) = Inr p \<Longrightarrow> p = ka_opened (fst no_settings)"
    by (simp add: no_settings_def kafka_init_def)
  from ApplySettings_alone [OF call this, of "\<lambda>_. Some []" "{#}"] show ?thesis by (auto simp: zero_settings_def)
qed

text \<open>A device was scanned while the worker waits for the first producer.\<close>

lemma reach_step: "kafka_reachable marshal z \<Longrightarrow> kafka_step marshal z z' \<Longrightarrow> kafka_reachable marshal z'"
  unfolding kafka_reachable_def by (blast intro: rtranclp.rtrancl_into_rtrancl)

lemma reach_thread: "kafka_reachable marshal (s, add_mset t T) \<Longrightarrow> thread_step s t s' ts \<Longrightarrow>
    kafka_reachable marshal (s', mset ts + T)"
  by (erule reach_step) (rule kafka_step.Thread)

lemma reach_worker: "kafka_reachable marshal (s, T) \<Longrightarrow> km_worker (ka_manager s) = Some w \<Longrightarrow> worker_step marshal w s s' \<Longrightarrow>
    kafka_reachable marshal (s', T)"
  by (erule reach_step) (rule kafka_step.Worker)

lemma reach_call: "kafka_reachable marshal (s, T) \<Longrightarrow> is_call t \<Longrightarrow> kafka_reachable marshal (s, add_mset t T)"
  by (erule reach_step) (rule kafka_step.Call)

definition fed :: Coordinator where
  "fed = Submit (\<lambda>n. int n + 1) sample_scan (ApplyDeviceConfig (sample_policy KafkaModeFull) (NewCoordinator 4 True))"

lemma fed_queue: "mq_size (co_queue fed) = 1"
proof -
  have e: "\<exists>m. co_queue (enqueue now cfg snap ty pts c) = snd (mq_push m (newMessageQueue 4))"
    if "co_queue c = newMessageQueue 4" for now cfg snap ty pts c
    using enqueue_queue [of now cfg snap ty pts c] that by auto
  have "\<exists>m. co_queue fed = snd (mq_push m (newMessageQueue 4))"
    by (simp add: fed_def Submit_def ApplyDeviceConfig_def NewCoordinator_def submitFull_def Let_def)
      (rule e, simp)
  then show ?thesis by (auto simp: mq_push_def newMessageQueue_def Let_def)
qed

definition waiting_manager :: Manager where
  "waiting_manager = (install zero_settings 0 (km_SetEnabled True ((km_NewManager fed zero_settings)\<lparr>km_worker := Some WBlocked\<rparr>)))"

definition waiting_worker :: Kafka where
  "waiting_worker = \<lparr>ka_manager = waiting_manager, ka_opened = 1, ka_closed = [], ka_abandoned = [], ka_sent = []\<rparr>"

lemma waiting_worker_reachable: "kafka_reachable marshal (waiting_worker, {#Replacing None#})"
proof -
  let ?s0 = "fst (kafka_init 4 True zero_settings)"
  have "kafka_reachable marshal (?s0, {#})"
    unfolding kafka_reachable_def by (intro exI [of _ 4] exI [of _ True] exI [of _ zero_settings])
      (simp add: kafka_init_def)
  from reach_step [OF reach_step [OF this kafka_step.ApplyDeviceConfig] kafka_step.Submit]
  have "kafka_reachable marshal (?s0\<lparr>ka_manager := km_NewManager fed zero_settings\<rparr>, {#})"
    by (simp add: kafka_init_def on_manager_def km_NewManager_def fed_def)
  from reach_thread [OF reach_call [OF this, of "Starting zero_settings"] thread_step.Start]
  have "kafka_reachable marshal (at_phase WHead (?s0\<lparr>ka_manager := km_NewManager fed zero_settings\<rparr>), {#Started zero_settings#})"
    by (simp add: on_manager_def start_worker_def km_NewManager_def)
  from reach_worker [OF this _ worker_step.ReadNone]
  have "kafka_reachable marshal (at_phase WBlocked (?s0\<lparr>ka_manager := km_NewManager fed zero_settings\<rparr>), {#Started zero_settings#})"
    by (simp add: on_manager_def km_NewManager_def)
  from reach_thread [OF this thread_step.StartOpened]
  have "kafka_reachable marshal (open_producer (at_phase WBlocked (?s0\<lparr>ka_manager := km_NewManager fed zero_settings\<rparr>)),
      {#Enabling zero_settings 0#})"
    by (simp add: zero_settings_def kafka_init_def)
  from reach_thread [OF this thread_step.Enable]
  have "kafka_reachable marshal (on_manager (km_SetEnabled True) (open_producer (at_phase WBlocked
      (?s0\<lparr>ka_manager := km_NewManager fed zero_settings\<rparr>))), {#Installing zero_settings 0#})"
    by simp
  from reach_thread [OF this thread_step.Install]
  show ?thesis
    by (simp add: waiting_worker_def waiting_manager_def on_manager_def open_producer_def kafka_init_def
        km_NewManager_def km_SetEnabled_def)
qed

text \<open>The settings are applied again: the second producer is installed and the first one closed.\<close>

lemma second_producer_reachable:
  "\<exists>s. kafka_reachable marshal (s, {#Notifying, Replacing None#}) \<and> ka_opened s = 2 \<and> ka_closed s = [0] \<and>
     km_producer (ka_manager s) = Some 1"
proof -
  have w: "ka_opened waiting_worker = 1" "ka_closed waiting_worker = []" "km_producer (ka_manager waiting_worker) = Some 0"
    by (simp_all add: waiting_worker_def waiting_manager_def install_def)
  have "k_Enabled zero_settings" by (simp add: zero_settings_def)
  from reach_thread [OF reach_call [OF waiting_worker_reachable, of "Applying zero_settings"] thread_step.ApplyOpened [OF this]]
  have "kafka_reachable marshal (open_producer waiting_worker, {#Enabling zero_settings 1, Replacing None#})"
    by (simp add: w add_mset_commute)
  from reach_thread [OF this thread_step.Enable] have "kafka_reachable marshal
      (on_manager (km_SetEnabled True) (open_producer waiting_worker), {#Installing zero_settings 1, Replacing None#})" by (simp add: add_mset_commute)
  from reach_thread [OF this thread_step.Install] have "kafka_reachable marshal
      (on_manager (install zero_settings 1) (on_manager (km_SetEnabled True) (open_producer waiting_worker)),
       {#Replacing (Some 0), Replacing None#})"
    by (simp add: w km_SetEnabled_def add_mset_commute)
  from reach_thread [OF this thread_step.Replace]
  have "kafka_reachable marshal (close_producer (Some 0) (on_manager (install zero_settings 1)
      (on_manager (km_SetEnabled True) (open_producer waiting_worker))), {#Notifying, Replacing None#})" (is "kafka_reachable _ (?s, _)")
    by (simp add: add_mset_commute)
  moreover have "ka_opened ?s = 2" "ka_closed ?s = [0]" "km_producer (ka_manager ?s) = Some 1"
    by (simp_all add: w close_producer_def install_def)
  ultimately show ?thesis by blast
qed

text \<open>The leak: \<open>Stop\<close> takes the producer out, cancels the worker and gives up before that has ended.\<close>

lemma stop_gives_up_leaks:
  "\<exists>s. kafka_reachable marshal (s, {#Replacing None#}) \<and> ka_opened s = 1 \<and> ka_closed s = [] \<and>
     ka_abandoned s = [0] \<and> km_producer (ka_manager s) = None"
proof -
  have w: "ka_opened waiting_worker = 1" "ka_closed waiting_worker = []" "ka_abandoned waiting_worker = []"
    "km_producer (ka_manager waiting_worker) = Some 0" "km_worker (ka_manager waiting_worker) = Some WBlocked"
    by (simp_all add: waiting_worker_def waiting_manager_def install_def km_SetEnabled_def km_NewManager_def)
  let ?s1 = "on_manager (\<lambda>m. m\<lparr>km_coordinator := StopAccepting (km_coordinator m)\<rparr>) waiting_worker"
  from reach_thread [OF reach_call [OF waiting_worker_reachable, of Stopping] thread_step.Stop]
  have "kafka_reachable marshal (?s1, {#StopLocking, Replacing None#})" by (simp add: add_mset_commute)
  from reach_thread [OF this thread_step.StopLock]
  have "kafka_reachable marshal (on_manager stop_locked ?s1, {#StopCancelling True (Some 0), Replacing None#})"
    by (simp add: w add_mset_commute)
  from reach_thread [OF this thread_step.StopCancel]
  have "kafka_reachable marshal (on_manager (\<lambda>m. m\<lparr>km_cancelled := True\<rparr>) (on_manager stop_locked ?s1),
      {#StopWaiting (Some 0), Replacing None#})" by (simp add: add_mset_commute)
  from reach_thread [OF this thread_step.StopGivesUp]
  have "kafka_reachable marshal (abandon (Some 0) (on_manager (\<lambda>m. m\<lparr>km_cancelled := True\<rparr>) (on_manager stop_locked ?s1)),
      {#Replacing None#})" (is "kafka_reachable _ (?s, _)") by simp
  moreover have "ka_opened ?s = 1" "ka_closed ?s = []" "ka_abandoned ?s = [0]" "km_producer (ka_manager ?s) = None"
    by (simp_all add: w abandon_def stop_locked_def)
  ultimately show ?thesis by blast
qed

theorem producers_accounted_witness:
  "\<exists>s. kafka_reachable (\<lambda>_. None) (s, {#Notifying, Replacing None#}) \<and> ka_closed s = [0] \<and>
     km_producer (ka_manager s) = Some 1 \<and> {p. p < ka_opened s} = {0, 1} \<and> set (ka_abandoned s) \<subseteq> {0}"
proof -
  obtain s where s: "kafka_reachable (\<lambda>_. None) (s, {#Notifying, Replacing None#})" "ka_opened s = 2" "ka_closed s = [0]"
    "km_producer (ka_manager s) = Some 1" using second_producer_reachable by blast
  from producers_accounted [OF s(1)]
  have all: "\<forall>p. p < ka_opened s \<longleftrightarrow> p \<in> set (ka_closed s) \<or> p \<in> set (ka_abandoned s) \<or>
      km_producer (ka_manager s) = Some p \<or> (\<exists>t\<in>#{#Notifying, Replacing None#}. p \<in># in_hand t)"
    and current: "\<forall>p. km_producer (ka_manager s) = Some p \<longrightarrow> p \<notin> set (ka_closed s) \<and> p \<notin> set (ka_abandoned s)"
    by blast+
  have "p \<in> {0}" if "p \<in> set (ka_abandoned s)" for p
  proof -
    have "p < 2" using all that s(2) by metis
    moreover have "p \<noteq> 1" using current that s(4) by blast
    ultimately show ?thesis by (simp add: less_2_cases_iff)
  qed
  moreover have "{p. p < ka_opened s} = {0, 1}" using s(2) by (auto simp: less_2_cases_iff)
  ultimately show ?thesis using s by blast
qed

theorem queued_message_is_sent_witness:
  "\<exists>s' T' pm. (kafka_step (\<lambda>_. Some []))\<^sup>*\<^sup>* (waiting_worker, {#Replacing None#}) (s', T') \<and> ka_sent s' = [(0, pm)]"
proof -
  have "0 < mq_size (co_queue (co_SetEnabled True fed))" using fed_queue by (simp add: co_SetEnabled_def)
  then obtain m c where msg: "co_Next (km_coordinator (ka_manager waiting_worker)) = Some (m, c)"
    by (auto simp: waiting_worker_def waiting_manager_def install_def km_SetEnabled_def km_NewManager_def
        co_Next_def mq_take_def)
  obtain pm where pm: "encoded (\<lambda>_. Some []) m = Some pm" by (simp add: encoded_def)
  have "km_worker (ka_manager waiting_worker) = Some WBlocked" "km_producer (ka_manager waiting_worker) = Some 0"
    by (simp_all add: waiting_worker_def waiting_manager_def install_def km_SetEnabled_def km_NewManager_def)
  from queued_message_is_sent [OF waiting_worker_reachable this(1) _ this(2) msg pm] show ?thesis
    by (auto simp: waiting_worker_def)
qed

end
