(* ===== verification/Store.thy ===== *)
theory Store
  imports PointConfig "HOL-Library.List_Lexorder" "HOL-Library.Char_ord" "HOL-Library.Product_Lexorder"
begin

text \<open>
  \<open>internal/store\<close>: devices, points and Kafka settings in SQLite. The statements of the Go code
  are given their SQL meaning over tables that are lists of rows: unique columns, foreign keys
  with cascading deletes, automatic keys that are never used twice, transactions that are undone
  unless committed. What SQL leaves open is in the record \<open>Env\<close>: which statement of a call
  fails and with what text, the clock, the operator \<open>LIKE\<close>, the JSON text of a string list and
  the lower case of text outside ASCII.
\<close>

section \<open>Tables\<close>

record Db =
  db_devices :: "Device list"
  db_points :: "Point list"
  db_configs :: "DeviceKafkaConfig list"
  db_settings :: KafkaSettings
  db_brokers :: string
  db_device_seq :: int
  db_point_seq :: int
  db_versions :: "nat list"

record Env =
  en_fault :: "nat \<Rightarrow> string option"
  en_now :: instant
  en_like :: "string \<Rightarrow> string \<Rightarrow> bool"
  en_marshal :: "string list \<Rightarrow> string"
  en_unmarshal :: "string \<Rightarrow> string + string list"
  en_lower :: "string \<Rightarrow> string"

section \<open>Errors\<close>

datatype sql_error = SqlNoRows | SqlText string

datatype store_error = ErrNotFound string | ErrConflict string | StoreError string

fun contains :: "string \<Rightarrow> string \<Rightarrow> bool" where
  "contains sub [] = (sub = [])"
| "contains sub (c # s) = (take (length sub) (c # s) = sub \<or> contains sub s)"

definition mapError :: "Env \<Rightarrow> string \<Rightarrow> sql_error \<Rightarrow> store_error" where
  "mapError env operation err =
     (case err of
        SqlNoRows \<Rightarrow> ErrNotFound operation
      | SqlText text \<Rightarrow>
          if contains ''unique constraint'' (ToLower (en_lower env) text) \<or>
             contains ''constraint failed'' (ToLower (en_lower env) text)
          then ErrConflict operation else StoreError (operation @ '': '' @ text))"

definition wrapped :: "string \<Rightarrow> string \<Rightarrow> store_error" where
  "wrapped operation text = StoreError (operation @ '': '' @ text)"

text \<open>The \<open>n\<close>-th exchange of a call with the database, which may fail.\<close>

definition exec :: "Env \<Rightarrow> nat \<Rightarrow> string + 'a \<Rightarrow> string + 'a" where
  "exec env n r = (case en_fault env n of Some e \<Rightarrow> Inl e | None \<Rightarrow> r)"

lemma exec_Inr: "exec env n r = Inr x \<longleftrightarrow> en_fault env n = None \<and> r = Inr x"
  by (simp add: exec_def split: option.split)

definition requireAffected :: "Env \<Rightarrow> nat \<Rightarrow> string \<Rightarrow> nat \<Rightarrow> store_error + unit" where
  "requireAffected env k operation n =
     and_then (with_err (wrapped (operation @ '' rows affected'')) (exec env k (Inr n)))
       (\<lambda>n. if n = 0 then Inl (ErrNotFound operation) else Inr ())"

text \<open>A transaction: its changes are the database's when every step worked, and gone otherwise.\<close>

definition transaction :: "Db \<Rightarrow> store_error + 'a \<times> Db \<Rightarrow> ('a \<Rightarrow> Db \<Rightarrow> store_error + 'b) \<Rightarrow>
    (store_error + 'b) \<times> Db" where
  "transaction db tx answer =
     (case tx of Inl e \<Rightarrow> (Inl e, db) | Inr (x, db') \<Rightarrow> (answer x db', db'))"

section \<open>Statements\<close>

definition unique_failed :: string where
  "unique_failed = ''constraint failed: UNIQUE constraint failed''"

definition foreign_failed :: string where
  "foreign_failed = ''constraint failed: FOREIGN KEY constraint failed''"

definition check_failed :: string where
  "check_failed = ''constraint failed: CHECK constraint failed''"

definition device_row :: "int \<Rightarrow> Db \<Rightarrow> Device option" where
  "device_row i db = find (\<lambda>d. d_ID d = i) (db_devices db)"

definition point_row :: "int \<Rightarrow> int \<Rightarrow> Db \<Rightarrow> Point option" where
  "point_row i k db = find (\<lambda>p. p_DeviceID p = i \<and> p_ID p = k) (db_points db)"

definition config_row :: "int \<Rightarrow> Db \<Rightarrow> DeviceKafkaConfig option" where
  "config_row i db = find (\<lambda>c. dk_DeviceID c = i) (db_configs db)"

definition points_of :: "int \<Rightarrow> Db \<Rightarrow> Point list" where
  "points_of i db = filter (\<lambda>p. p_DeviceID p = i) (db_points db)"

definition insert_device :: "instant \<Rightarrow> Device \<Rightarrow> Db \<Rightarrow> string + int \<times> Db" where
  "insert_device now d db =
     (if d_Name d \<in> d_Name ` set (db_devices db) then Inl unique_failed
      else let i = db_device_seq db + 1 in
        Inr (i, db\<lparr>db_devices := db_devices db @
            [d\<lparr>d_ID := i, d_ConfigVersion := 1, d_CreatedAt := now, d_UpdatedAt := now\<rparr>],
          db_device_seq := i\<rparr>))"

text \<open>The columns that the statement leaves to their defaults.\<close>

definition default_config :: "instant \<Rightarrow> int \<Rightarrow> DeviceKafkaConfig" where
  "default_config now i = \<lparr>dk_DeviceID = i, dk_Enabled = False, dk_Topic = [], dk_Mode = KafkaModeChange,
     dk_FullIntervalSec = 1, dk_CreatedAt = now, dk_UpdatedAt = now\<rparr>"

definition insert_config :: "instant \<Rightarrow> int \<Rightarrow> Db \<Rightarrow> string + Db" where
  "insert_config now i db =
     (if i \<in> dk_DeviceID ` set (db_configs db) then Inl unique_failed
      else if i \<notin> d_ID ` set (db_devices db) then Inl foreign_failed
      else Inr (db\<lparr>db_configs := db_configs db @ [default_config now i]\<rparr>))"

definition insert_point :: "instant \<Rightarrow> Point \<Rightarrow> Db \<Rightarrow> string + int \<times> Db" where
  "insert_point now p db =
     (if (p_DeviceID p, p_TagName p) \<in> (\<lambda>q. (p_DeviceID q, p_TagName q)) ` set (db_points db)
      then Inl unique_failed
      else if p_DeviceID p \<notin> d_ID ` set (db_devices db) then Inl foreign_failed
      else let k = db_point_seq db + 1 in
        Inr (k, db\<lparr>db_points := db_points db @ [p\<lparr>p_ID := k, p_CreatedAt := now, p_UpdatedAt := now\<rparr>],
          db_point_seq := k\<rparr>))"

text \<open>\<open>UPDATE devices SET ... WHERE id=?\<close>, with the number of rows affected.\<close>

definition update_devices :: "(Device \<Rightarrow> Device) \<Rightarrow> int \<Rightarrow> Db \<Rightarrow> string + nat \<times> Db" where
  "update_devices f i db =
     (let ds = map (\<lambda>d. if d_ID d = i then f d else d) (db_devices db) in
      if \<not> distinct (map d_Name ds) then Inl unique_failed
      else Inr (length (filter (\<lambda>d. d_ID d = i) (db_devices db)), db\<lparr>db_devices := ds\<rparr>))"

definition delete_devices :: "int \<Rightarrow> Db \<Rightarrow> nat \<times> Db" where
  "delete_devices i db =
     (length (filter (\<lambda>d. d_ID d = i) (db_devices db)),
      db\<lparr>db_devices := filter (\<lambda>d. d_ID d \<noteq> i) (db_devices db),
        db_points := filter (\<lambda>p. p_DeviceID p \<noteq> i) (db_points db),
        db_configs := filter (\<lambda>c. dk_DeviceID c \<noteq> i) (db_configs db)\<rparr>)"

definition update_points :: "instant \<Rightarrow> Point \<Rightarrow> Db \<Rightarrow> string + nat \<times> Db" where
  "update_points now p db =
     (let mine = (\<lambda>q. p_ID q = p_ID p \<and> p_DeviceID q = p_DeviceID p);
          ps = map (\<lambda>q. if mine q then p\<lparr>p_CreatedAt := p_CreatedAt q, p_UpdatedAt := now\<rparr> else q)
            (db_points db)
      in if \<not> distinct (map (\<lambda>q. (p_DeviceID q, p_TagName q)) ps) then Inl unique_failed
         else Inr (length (filter mine (db_points db)), db\<lparr>db_points := ps\<rparr>))"

definition delete_points :: "(Point \<Rightarrow> bool) \<Rightarrow> Db \<Rightarrow> nat \<times> Db" where
  "delete_points sel db =
     (length (filter sel (db_points db)), db\<lparr>db_points := filter (\<lambda>p. \<not> sel p) (db_points db)\<rparr>)"

definition update_configs :: "instant \<Rightarrow> DeviceKafkaConfig \<Rightarrow> Db \<Rightarrow> string + nat \<times> Db" where
  "update_configs now cfg db =
     (let n = length (filter (\<lambda>c. dk_DeviceID c = dk_DeviceID cfg) (db_configs db)) in
      if n \<noteq> 0 \<and> dk_Mode cfg \<noteq> KafkaModeFull \<and> dk_Mode cfg \<noteq> KafkaModeChange then Inl check_failed
      else Inr (n, db\<lparr>db_configs := map (\<lambda>c. if dk_DeviceID c = dk_DeviceID cfg
          then cfg\<lparr>dk_CreatedAt := dk_CreatedAt c, dk_UpdatedAt := now\<rparr> else c) (db_configs db)\<rparr>))"

section \<open>Devices\<close>

definition row_or :: "Env \<Rightarrow> nat \<Rightarrow> string \<Rightarrow> 'a option \<Rightarrow> store_error + 'a" where
  "row_or env n operation r =
     (case en_fault env n of
        Some e \<Rightarrow> Inl (mapError env operation (SqlText e))
      | None \<Rightarrow> (case r of None \<Rightarrow> Inl (mapError env operation SqlNoRows) | Some x \<Rightarrow> Inr x))"

definition GetDevice :: "Env \<Rightarrow> nat \<Rightarrow> int \<Rightarrow> Db \<Rightarrow> store_error + Device" where
  "GetDevice env n i db = row_or env n ''get device'' (device_row i db)"

definition ListDevices :: "Env \<Rightarrow> nat \<Rightarrow> Db \<Rightarrow> store_error + Device list" where
  "ListDevices env n db =
     with_err (wrapped ''list devices'') (exec env n (Inr (sort_key d_ID (db_devices db))))"

definition CreateDevice :: "Env \<Rightarrow> Device \<Rightarrow> Db \<Rightarrow> (store_error + Device) \<times> Db" where
  "CreateDevice env d db =
     transaction db
       (and_then (with_err (wrapped ''begin create device'') (exec env 0 (Inr db))) (\<lambda>tx.
        and_then (with_err (\<lambda>e. mapError env ''create device'' (SqlText e))
          (exec env 1 (insert_device (en_now env) d tx))) (\<lambda>(i, tx).
        and_then (with_err (wrapped ''create device ID'') (exec env 2 (Inr i))) (\<lambda>i.
        and_then (with_err (\<lambda>e. mapError env ''create device Kafka config'' (SqlText e))
          (exec env 3 (insert_config (en_now env) i tx))) (\<lambda>tx.
        with_err (wrapped ''commit create device'') (exec env 4 (Inr (i, tx))))))))
       (\<lambda>i. GetDevice env 5 i)"

definition UpdateDevice :: "Env \<Rightarrow> Device \<Rightarrow> Db \<Rightarrow> (store_error + Device) \<times> Db" where
  "UpdateDevice env d db =
     transaction db
       (with_err (\<lambda>e. mapError env ''update device'' (SqlText e))
         (exec env 0 (update_devices (\<lambda>r. r\<lparr>d_Name := d_Name d, d_Address := d_Address d,
           d_Port := d_Port d, d_SlaveID := d_SlaveID d, d_ByteOrder := d_ByteOrder d,
           d_TimeoutSec := d_TimeoutSec d, d_ScanIntervalMs := d_ScanIntervalMs d,
           d_ConfigVersion := d_ConfigVersion r + 1, d_UpdatedAt := en_now env\<rparr>) (d_ID d) db)))
       (\<lambda>n db'. and_then (requireAffected env 1 ''update device'' n) (\<lambda>_. GetDevice env 2 (d_ID d) db'))"

definition SetDeviceEnabled :: "Env \<Rightarrow> int \<Rightarrow> bool \<Rightarrow> Db \<Rightarrow> (store_error + Device) \<times> Db" where
  "SetDeviceEnabled env i enabled db =
     transaction db
       (with_err (\<lambda>e. mapError env ''set device enabled'' (SqlText e))
         (exec env 0 (update_devices (\<lambda>r. r\<lparr>d_Enabled := enabled, d_UpdatedAt := en_now env\<rparr>) i db)))
       (\<lambda>n db'. and_then (requireAffected env 1 ''set device enabled'' n) (\<lambda>_. GetDevice env 2 i db'))"

definition DeleteDevice :: "Env \<Rightarrow> int \<Rightarrow> Db \<Rightarrow> (store_error + unit) \<times> Db" where
  "DeleteDevice env i db =
     transaction db
       (with_err (\<lambda>e. mapError env ''delete device'' (SqlText e)) (exec env 0 (Inr (delete_devices i db))))
       (\<lambda>n db'. requireAffected env 1 ''delete device'' n)"

section \<open>Points\<close>

record PointFilter =
  pf_Search :: string
  pf_RegType :: string
  pf_Limit :: int
  pf_Offset :: int

record PointPage =
  pg_Items :: "Point list"
  pg_Total :: int

definition bumpVersion :: "Env \<Rightarrow> nat \<Rightarrow> int \<Rightarrow> Db \<Rightarrow> store_error + Db" where
  "bumpVersion env n i tx =
     and_then (with_err (wrapped ''increment device version'')
       (exec env n (update_devices (\<lambda>r. r\<lparr>d_ConfigVersion := d_ConfigVersion r + 1,
         d_UpdatedAt := en_now env\<rparr>) i tx))) (\<lambda>(k, tx).
     and_then (requireAffected env (n + 1) ''increment device version'' k) (\<lambda>_. Inr tx))"

definition GetPoint :: "Env \<Rightarrow> nat \<Rightarrow> int \<Rightarrow> int \<Rightarrow> Db \<Rightarrow> store_error + Point" where
  "GetPoint env n i k db = row_or env n ''get point'' (point_row i k db)"

definition CreatePoint :: "Env \<Rightarrow> Point \<Rightarrow> Db \<Rightarrow> (store_error + Point) \<times> Db" where
  "CreatePoint env p db =
     transaction db
       (and_then (with_err (wrapped ''begin create point'') (exec env 0 (Inr db))) (\<lambda>tx.
        and_then (with_err (\<lambda>e. mapError env ''create point'' (SqlText e))
          (exec env 1 (insert_point (en_now env) p tx))) (\<lambda>(k, tx).
        and_then (with_err (wrapped ''create point ID'') (exec env 2 (Inr k))) (\<lambda>k.
        and_then (bumpVersion env 3 (p_DeviceID p) tx) (\<lambda>tx.
        with_err (wrapped ''commit create point'') (exec env 5 (Inr (k, tx))))))))
       (\<lambda>k. GetPoint env 6 (p_DeviceID p) k)"

definition pointWhere :: "Env \<Rightarrow> int \<Rightarrow> PointFilter \<Rightarrow> Point \<Rightarrow> bool" where
  "pointWhere env i f p \<longleftrightarrow> p_DeviceID p = i \<and>
     (pf_Search f \<noteq> [] \<longrightarrow> en_like env (''%'' @ pf_Search f @ ''%'') (p_TagName p)) \<and>
     (pf_RegType f \<noteq> [] \<longrightarrow> p_RegType p = pf_RegType f)"

definition point_key :: "Point \<Rightarrow> string \<times> nat \<times> string" where
  "point_key p = (p_RegType p, unat (p_Address p), p_TagName p)"

definition ListPoints :: "Env \<Rightarrow> nat \<Rightarrow> int \<Rightarrow> PointFilter \<Rightarrow> Db \<Rightarrow> store_error + PointPage" where
  "ListPoints env n i f db =
     and_then (with_err (wrapped ''count points'')
       (exec env n (Inr (length (filter (pointWhere env i f) (db_points db)))))) (\<lambda>total.
     and_then (with_err (wrapped ''list points'')
       (exec env (n + 1) (Inr (take (nat (if pf_Limit f \<le> 0 then 50 else pf_Limit f))
         (drop (nat (pf_Offset f)) (sort_key point_key (filter (pointWhere env i f) (db_points db)))))))) (\<lambda>items.
     Inr \<lparr>pg_Items = items, pg_Total = int total\<rparr>))"

definition ListAllPoints :: "Env \<Rightarrow> nat \<Rightarrow> int \<Rightarrow> Db \<Rightarrow> store_error + Point list" where
  "ListAllPoints env n i db =
     and_then (ListPoints env n i \<lparr>pf_Search = [], pf_RegType = [], pf_Limit = 2 ^ 63 - 1, pf_Offset = 0\<rparr> db)
       (\<lambda>page. Inr (pg_Items page))"

definition UpdatePoint :: "Env \<Rightarrow> Point \<Rightarrow> Db \<Rightarrow> (store_error + Point) \<times> Db" where
  "UpdatePoint env p db =
     transaction db
       (and_then (with_err (wrapped ''begin update point'') (exec env 0 (Inr db))) (\<lambda>tx.
        and_then (with_err (\<lambda>e. mapError env ''update point'' (SqlText e))
          (exec env 1 (update_points (en_now env) p tx))) (\<lambda>(n, tx).
        and_then (requireAffected env 2 ''update point'' n) (\<lambda>_.
        and_then (bumpVersion env 3 (p_DeviceID p) tx) (\<lambda>tx.
        with_err (wrapped ''commit update point'') (exec env 5 (Inr ((), tx))))))))
       (\<lambda>_. GetPoint env 6 (p_DeviceID p) (p_ID p))"

definition DeletePoint :: "Env \<Rightarrow> int \<Rightarrow> int \<Rightarrow> Db \<Rightarrow> (store_error + unit) \<times> Db" where
  "DeletePoint env i k db =
     transaction db
       (and_then (with_err (wrapped ''begin delete point'') (exec env 0 (Inr db))) (\<lambda>tx.
        and_then (with_err (\<lambda>e. mapError env ''delete point'' (SqlText e))
          (exec env 1 (Inr (delete_points (\<lambda>p. p_DeviceID p = i \<and> p_ID p = k) tx)))) (\<lambda>(n, tx).
        and_then (requireAffected env 2 ''delete point'' n) (\<lambda>_.
        and_then (bumpVersion env 3 i tx) (\<lambda>tx.
        with_err (wrapped ''commit delete point'') (exec env 5 (Inr ((), tx))))))))
       (\<lambda>_ _. Inr ())"

definition DeletePoints :: "Env \<Rightarrow> int \<Rightarrow> int list \<Rightarrow> Db \<Rightarrow> (store_error + nat) \<times> Db" where
  "DeletePoints env i ks db =
     (if ks = [] then (Inl (ErrNotFound ''delete points''), db)
      else
        let sel = (\<lambda>p. p_DeviceID p = i \<and> p_ID p \<in> set ks) in
        transaction db
          (and_then (with_err (wrapped ''begin delete points'') (exec env 0 (Inr db))) (\<lambda>tx.
           and_then (with_err (wrapped ''count delete points'')
             (exec env 1 (Inr (length (filter sel (db_points tx)))))) (\<lambda>count.
           if count \<noteq> length ks then Inl (ErrNotFound ''delete points'')
           else
             and_then (with_err (\<lambda>e. mapError env ''delete points'' (SqlText e))
               (exec env 2 (Inr (delete_points sel tx)))) (\<lambda>(_, tx).
             and_then (bumpVersion env 3 i tx) (\<lambda>tx.
             with_err (wrapped ''commit delete points'') (exec env 5 (Inr (count, tx))))))))
          (\<lambda>count _. Inr count))"

text \<open>The insertions of \<open>ReplacePoints\<close>, numbered from \<open>n\<close>.\<close>

fun insert_points :: "Env \<Rightarrow> nat \<Rightarrow> int \<Rightarrow> Point list \<Rightarrow> Db \<Rightarrow> store_error + Db" where
  "insert_points env n i [] tx = Inr tx"
| "insert_points env n i (p # ps) tx =
     and_then (with_err (\<lambda>e. mapError env ''replace points'' (SqlText e))
       (exec env n (insert_point (en_now env) (p\<lparr>p_DeviceID := i\<rparr>) tx))) (\<lambda>(_, tx).
     insert_points env (n + 1) i ps tx)"

definition ReplacePoints :: "Env \<Rightarrow> int \<Rightarrow> Point list \<Rightarrow> Db \<Rightarrow> (store_error + unit) \<times> Db" where
  "ReplacePoints env i ps db =
     transaction db
       (and_then (with_err (wrapped ''begin replace points'') (exec env 0 (Inr db))) (\<lambda>tx.
        and_then (with_err (wrapped ''delete old points'')
          (exec env 1 (Inr (delete_points (\<lambda>p. p_DeviceID p = i) tx)))) (\<lambda>(_, tx).
        and_then (insert_points env 5 i ps tx) (\<lambda>tx.
        and_then (bumpVersion env 2 i tx) (\<lambda>tx.
        with_err (wrapped ''commit replace points'') (exec env 4 (Inr ((), tx))))))))
       (\<lambda>_ _. Inr ())"

section \<open>Kafka settings\<close>

definition GetKafkaSettings :: "Env \<Rightarrow> nat \<Rightarrow> Db \<Rightarrow> store_error + KafkaSettings" where
  "GetKafkaSettings env n db =
     and_then (row_or env n ''get Kafka settings'' (Some (db_settings db))) (\<lambda>cfg.
     and_then (with_err (wrapped ''decode Kafka brokers'') (en_unmarshal env (db_brokers db))) (\<lambda>brokers.
     Inr (cfg\<lparr>k_Brokers := brokers\<rparr>)))"

definition UpdateKafkaSettings :: "Env \<Rightarrow> KafkaSettings \<Rightarrow> Db \<Rightarrow> (store_error + KafkaSettings) \<times> Db" where
  "UpdateKafkaSettings env cfg db =
     transaction db
       (with_err (\<lambda>e. mapError env ''update Kafka settings'' (SqlText e))
         (exec env 0 (Inr (1, db\<lparr>db_settings := cfg\<lparr>k_Brokers := [], k_UpdatedAt := en_now env\<rparr>,
           db_brokers := en_marshal env (k_Brokers cfg)\<rparr>))))
       (\<lambda>n db'. and_then (requireAffected env 1 ''update Kafka settings'' n) (\<lambda>_. GetKafkaSettings env 2 db'))"

definition GetDeviceKafkaConfig :: "Env \<Rightarrow> nat \<Rightarrow> int \<Rightarrow> Db \<Rightarrow> store_error + DeviceKafkaConfig" where
  "GetDeviceKafkaConfig env n i db = row_or env n ''get device Kafka config'' (config_row i db)"

definition ListDeviceKafkaConfigs :: "Env \<Rightarrow> nat \<Rightarrow> Db \<Rightarrow> store_error + DeviceKafkaConfig list" where
  "ListDeviceKafkaConfigs env n db =
     with_err (wrapped ''list device Kafka configs'') (exec env n (Inr (sort_key dk_DeviceID (db_configs db))))"

definition UpdateDeviceKafkaConfig :: "Env \<Rightarrow> DeviceKafkaConfig \<Rightarrow> Db \<Rightarrow>
    (store_error + DeviceKafkaConfig) \<times> Db" where
  "UpdateDeviceKafkaConfig env cfg db =
     transaction db
       (with_err (\<lambda>e. mapError env ''update device Kafka config'' (SqlText e))
         (exec env 0 (update_configs (en_now env) cfg db)))
       (\<lambda>n db'. and_then (requireAffected env 1 ''update device Kafka config'' n)
         (\<lambda>_. GetDeviceKafkaConfig env 2 (dk_DeviceID cfg) db'))"

section \<open>Opening\<close>

text \<open>
  The migrations that \<open>Open\<close> runs. A table that does not exist yet has no rows; the values of a
  column that does not exist yet are the defaults with which the migration adds it.
\<close>

definition applyMigration :: "Env \<Rightarrow> nat \<Rightarrow> nat \<Rightarrow> (Db \<Rightarrow> string + Db) \<Rightarrow> Db \<Rightarrow> store_error + Db" where
  "applyMigration env n version statements db =
     and_then (with_err (wrapped (''check migration '' @ FormatUint version))
       (exec env n (Inr (count_list (db_versions db) version)))) (\<lambda>applied.
     if applied \<noteq> 0 then Inr db
     else
       and_then (with_err (wrapped (''begin migration '' @ FormatUint version)) (exec env (n + 1) (Inr db))) (\<lambda>tx.
       and_then (with_err (wrapped (''apply migration '' @ FormatUint version))
         (exec env (n + 2) (statements tx))) (\<lambda>tx.
       with_err (wrapped (''commit migration '' @ FormatUint version))
         (exec env (n + 3) (Inr (tx\<lparr>db_versions := db_versions tx @ [version]\<rparr>))))))"

definition migratePointDescription :: "Env \<Rightarrow> nat \<Rightarrow> Db \<Rightarrow> store_error + Db" where
  "migratePointDescription env n db =
     and_then (with_err (wrapped ''check migration 2'')
       (exec env n (Inr (count_list (db_versions db) 2)))) (\<lambda>applied.
     if applied \<noteq> 0 then Inr db
     else
       and_then (with_err (wrapped ''begin migration 2'') (exec env (n + 1) (Inr db))) (\<lambda>tx.
       and_then (with_err (wrapped ''add point description'') (exec env (n + 2)
         (Inr (tx\<lparr>db_points := map (\<lambda>p. p\<lparr>p_Description := []\<rparr>) (db_points tx)\<rparr>)))) (\<lambda>tx.
       and_then (with_err (wrapped ''record migration 2'') (exec env (n + 3)
         (Inr (tx\<lparr>db_versions := db_versions tx @ [2]\<rparr>)))) (\<lambda>tx.
       with_err (wrapped ''commit migration 2'') (exec env (n + 4) (Inr tx))))))"

definition default_settings :: "instant \<Rightarrow> KafkaSettings" where
  "default_settings now = \<lparr>k_Enabled = False, k_Brokers = [], k_ClientID = ''modbus-scan'',
     k_KafkaVersion = ''3.0.0'', k_SecurityProtocol = [], k_SASLMechanism = [], k_SASLUsername = [],
     k_SASLPassword = [], k_SSLCAPath = [], k_SSLCertificatePath = [], k_SSLKeyPath = [],
     k_SSLEndpointIdentificationAlgorithm = [], k_QueueCapacity = 1000, k_UpdatedAt = now\<rparr>"

definition migrateKafkaSettings :: "instant \<Rightarrow> Db \<Rightarrow> string + Db" where
  "migrateKafkaSettings now db = Inr (db\<lparr>db_settings := default_settings now, db_brokers := ''[]''\<rparr>)"

definition migrateDeviceKafkaConfigs :: "instant \<Rightarrow> Db \<Rightarrow> string + Db" where
  "migrateDeviceKafkaConfigs now db =
     Inr (db\<lparr>db_configs := map (\<lambda>d. default_config now (d_ID d)) (db_devices db)\<rparr>)"

definition migrate :: "Env \<Rightarrow> Db \<Rightarrow> store_error + Db" where
  "migrate env db =
     and_then (with_err (wrapped ''migrate database'')
       (exec env 0 (Inr (db\<lparr>db_versions := (if 1 \<in> set (db_versions db) then db_versions db
         else db_versions db @ [1])\<rparr>)))) (\<lambda>db.
     and_then (migratePointDescription env 1 db) (\<lambda>db.
     and_then (applyMigration env 6 3 (migrateKafkaSettings (en_now env)) db) (\<lambda>db.
     applyMigration env 10 4 (migrateDeviceKafkaConfigs (en_now env)) db)))"

end
