(* ===== verification/StoreInv.thy ===== *)
theory StoreInv
  imports Store PointCsv
begin

text \<open>
  The store over whole histories of calls: the integrity of the tables, the atomicity of each
  call under arbitrary failures, and the configuration version as a faithful witness of change.
\<close>

section \<open>Reading off what a call did\<close>

lemma transaction_eq:
  "transaction db tx answer = (r, db') \<longleftrightarrow>
     (\<exists>e. tx = Inl e \<and> r = Inl e \<and> db' = db) \<or> (\<exists>x. tx = Inr (x, db') \<and> r = answer x db')"
  by (auto simp: transaction_def split: sum.splits)

lemma requireAffected_Inr: "requireAffected env k operation n = Inr u \<longleftrightarrow> en_fault env k = None \<and> n \<noteq> 0"
  by (auto simp: requireAffected_def and_then_Inr exec_Inr)

lemmas call_simps = transaction_eq and_then_Inr exec_Inr requireAffected_Inr

definition bump :: "Env \<Rightarrow> Device \<Rightarrow> Device" where
  "bump env r = r\<lparr>d_ConfigVersion := d_ConfigVersion r + 1, d_UpdatedAt := en_now env\<rparr>"

lemma bumpVersion_Inr:
  "bumpVersion env n i tx = Inr tx' \<longleftrightarrow>
     en_fault env n = None \<and> en_fault env (n + 1) = None \<and>
     (\<exists>k. update_devices (bump env) i tx = Inr (k, tx') \<and> k \<noteq> 0)"
  by (auto simp: bumpVersion_def call_simps bump_def [abs_def])

section \<open>Integrity\<close>

definition devices_wf :: "Device list \<Rightarrow> int \<Rightarrow> bool" where
  "devices_wf ds n \<longleftrightarrow> distinct (map d_ID ds) \<and> distinct (map d_Name ds) \<and> 0 \<le> n \<and>
     (\<forall>d\<in>set ds. 1 \<le> d_ID d \<and> d_ID d \<le> n \<and> 1 \<le> d_ConfigVersion d)"

definition points_wf :: "Point list \<Rightarrow> int \<Rightarrow> int set \<Rightarrow> bool" where
  "points_wf ps n ids \<longleftrightarrow> distinct (map p_ID ps) \<and> distinct (map (\<lambda>p. (p_DeviceID p, p_TagName p)) ps) \<and>
     0 \<le> n \<and> (\<forall>p\<in>set ps. 1 \<le> p_ID p \<and> p_ID p \<le> n \<and> p_DeviceID p \<in> ids)"

definition configs_wf :: "DeviceKafkaConfig list \<Rightarrow> int set \<Rightarrow> bool" where
  "configs_wf cs ids \<longleftrightarrow> distinct (map dk_DeviceID cs) \<and> dk_DeviceID ` set cs \<subseteq> ids"

definition tables_inv :: "Db \<Rightarrow> bool" where
  "tables_inv db \<longleftrightarrow> devices_wf (db_devices db) (db_device_seq db) \<and>
     points_wf (db_points db) (db_point_seq db) (d_ID ` set (db_devices db)) \<and>
     configs_wf (db_configs db) (d_ID ` set (db_devices db))"

definition store_inv :: "Db \<Rightarrow> bool" where
  "store_inv db \<longleftrightarrow> tables_inv db \<and> dk_DeviceID ` set (db_configs db) = d_ID ` set (db_devices db)"

lemma wf_insert:
  "points_wf ps n ids \<Longrightarrow> points_wf ps n (insert i ids)"
  "configs_wf cs ids \<Longrightarrow> configs_wf cs (insert i ids)"
  unfolding points_wf_def configs_wf_def by blast+

lemma devices_wf_snoc:
  "devices_wf ds n \<Longrightarrow> d_Name d \<notin> d_Name ` set ds \<Longrightarrow> d_ID d = n + 1 \<Longrightarrow> 1 \<le> d_ConfigVersion d \<Longrightarrow>
     devices_wf (ds @ [d]) (n + 1)"
  unfolding devices_wf_def by fastforce

lemma points_wf_snoc:
  "points_wf ps n ids \<Longrightarrow> (p_DeviceID p, p_TagName p) \<notin> (\<lambda>q. (p_DeviceID q, p_TagName q)) ` set ps \<Longrightarrow>
     p_ID p = n + 1 \<Longrightarrow> p_DeviceID p \<in> ids \<Longrightarrow> points_wf (ps @ [p]) (n + 1) ids"
  unfolding points_wf_def by fastforce

lemma points_wf_filter:
  "points_wf ps n ids \<Longrightarrow> (\<And>p. p \<in> set ps \<Longrightarrow> P p \<Longrightarrow> p_DeviceID p \<in> ids') \<Longrightarrow> points_wf (filter P ps) n ids'"
  unfolding points_wf_def by (auto simp: distinct_map_filter)

lemma points_wf_member: "points_wf ps n ids \<Longrightarrow> p \<in> set ps \<Longrightarrow> p_DeviceID p \<in> ids"
  unfolding points_wf_def by blast

lemma configs_wf_filter:
  "configs_wf cs ids \<Longrightarrow> (\<And>c. c \<in> set cs \<Longrightarrow> P c \<Longrightarrow> dk_DeviceID c \<in> ids') \<Longrightarrow> configs_wf (filter P cs) ids'"
  unfolding configs_wf_def by (auto simp: distinct_map_filter)

lemma devices_wf_filter: "devices_wf ds n \<Longrightarrow> devices_wf (filter P ds) n"
  unfolding devices_wf_def by (auto simp: distinct_map_filter)

lemma map_keep: "(\<And>x. k (f x) = k x) \<Longrightarrow> map k (map f xs) = map k xs"
  by simp

lemma image_keep: "(\<And>x. k (f x) = k x) \<Longrightarrow> k ` set (map f xs) = k ` set xs"
  by (simp add: image_image)

lemma insert_device_tables:
  assumes "tables_inv db" "insert_device now d db = Inr (i, db')"
  shows "tables_inv db'"
  using assms unfolding tables_inv_def insert_device_def
  by (auto simp: Let_def intro!: devices_wf_snoc wf_insert split: if_splits)

lemma insert_config_tables:
  assumes "tables_inv db" "insert_config now i db = Inr db'"
  shows "tables_inv db'"
  using assms
  by (auto simp: insert_config_def tables_inv_def default_config_def configs_wf_def subset_iff split: if_splits)

lemma insert_point_tables:
  assumes "tables_inv db" "insert_point now p db = Inr (k, db')"
  shows "tables_inv db'"
  using assms unfolding tables_inv_def insert_point_def
  by (auto simp: Let_def intro!: points_wf_snoc split: if_splits)

lemma update_devices_Inr:
  assumes "update_devices f i db = Inr (n, db')"
  obtains ds where "ds = map (\<lambda>d. if d_ID d = i then f d else d) (db_devices db)"
    "db' = db\<lparr>db_devices := ds\<rparr>" "distinct (map d_Name ds)"
    "n = length (filter (\<lambda>d. d_ID d = i) (db_devices db))"
  using assms by (auto simp: update_devices_def Let_def split: if_splits)

lemma update_devices_tables:
  assumes inv: "tables_inv db" and upd: "update_devices f i db = Inr (n, db')"
    and f: "\<And>d. d_ID (f d) = d_ID d" "\<And>d. d_ConfigVersion d \<le> d_ConfigVersion (f d)"
  shows "tables_inv db'"
  using upd
proof (rule update_devices_Inr)
  fix ds
  assume ds: "ds = map (\<lambda>d. if d_ID d = i then f d else d) (db_devices db)"
    and db': "db' = db\<lparr>db_devices := ds\<rparr>" and names: "distinct (map d_Name ds)"
  have ids: "map d_ID ds = map d_ID (db_devices db)" unfolding ds by (rule map_keep) (simp add: f)
  have set_ids: "d_ID ` set ds = d_ID ` set (db_devices db)" unfolding ds by (rule image_keep) (simp add: f)
  have v: "1 \<le> d_ConfigVersion d \<Longrightarrow> 1 \<le> d_ConfigVersion (f d)" for d using f(2) [of d] by simp
  have wf: "devices_wf (db_devices db) (db_device_seq db)" using inv by (simp add: tables_inv_def)
  have "\<forall>d\<in>set ds. 1 \<le> d_ID d \<and> d_ID d \<le> db_device_seq db \<and> 1 \<le> d_ConfigVersion d"
    using wf v unfolding devices_wf_def ds by (auto simp: f)
  with wf names have "devices_wf ds (db_device_seq db)" unfolding devices_wf_def ids by blast
  then show ?thesis using inv by (simp add: tables_inv_def db' set_ids)
qed

lemma delete_devices_tables:
  assumes "tables_inv db"
  shows "tables_inv (snd (delete_devices i db))"
proof -
  let ?ids = "d_ID ` set (filter (\<lambda>d. d_ID d \<noteq> i) (db_devices db))"
  have ids: "?ids = d_ID ` set (db_devices db) - {i}" by auto
  have "points_wf (filter (\<lambda>p. p_DeviceID p \<noteq> i) (db_points db)) (db_point_seq db) ?ids"
    unfolding ids by (rule points_wf_filter) (use assms in \<open>auto simp: tables_inv_def dest: points_wf_member\<close>)
  moreover have "configs_wf (filter (\<lambda>c. dk_DeviceID c \<noteq> i) (db_configs db)) ?ids"
    unfolding ids by (rule configs_wf_filter) (use assms in \<open>auto simp: tables_inv_def configs_wf_def\<close>)
  ultimately show ?thesis
    using assms devices_wf_filter by (auto simp: tables_inv_def delete_devices_def)
qed

lemma update_points_tables:
  assumes inv: "tables_inv db" and upd: "update_points now p db = Inr (n, db')"
  shows "tables_inv db'"
proof -
  define f where "f = (\<lambda>q. if p_ID q = p_ID p \<and> p_DeviceID q = p_DeviceID p
    then p\<lparr>p_CreatedAt := p_CreatedAt q, p_UpdatedAt := now\<rparr> else q)"
  define ps where "ps = map f (db_points db)"
  have db': "db' = db\<lparr>db_points := ps\<rparr>" "distinct (map (\<lambda>q. (p_DeviceID q, p_TagName q)) ps)"
    using upd by (auto simp: update_points_def Let_def ps_def f_def split: if_splits)
  have f: "p_ID (f q) = p_ID q" "p_DeviceID (f q) = p_DeviceID q" for q by (simp_all add: f_def)
  have ids: "map p_ID ps = map p_ID (db_points db)" unfolding ps_def by (rule map_keep) (rule f)
  have wf: "points_wf (db_points db) (db_point_seq db) (d_ID ` set (db_devices db))"
    using inv by (simp add: tables_inv_def)
  have "\<forall>q\<in>set ps. 1 \<le> p_ID q \<and> p_ID q \<le> db_point_seq db \<and> p_DeviceID q \<in> d_ID ` set (db_devices db)"
    using wf unfolding points_wf_def ps_def by (auto simp: f)
  with wf db'(2) have "points_wf ps (db_point_seq db) (d_ID ` set (db_devices db))"
    unfolding points_wf_def ids by blast
  then show ?thesis using inv by (simp add: tables_inv_def db')
qed

lemma delete_points_tables: "tables_inv db \<Longrightarrow> tables_inv (snd (delete_points sel db))"
  unfolding tables_inv_def delete_points_def
  by (auto intro: points_wf_filter points_wf_member)

lemma update_configs_tables:
  assumes inv: "tables_inv db" and upd: "update_configs now cfg db = Inr (n, db')"
  shows "tables_inv db'" "db_devices db' = db_devices db"
    "dk_DeviceID ` set (db_configs db') = dk_DeviceID ` set (db_configs db)"
proof -
  define f where "f = (\<lambda>c. if dk_DeviceID c = dk_DeviceID cfg
    then cfg\<lparr>dk_CreatedAt := dk_CreatedAt c, dk_UpdatedAt := now\<rparr> else c)"
  define cs where "cs = map f (db_configs db)"
  have db': "db' = db\<lparr>db_configs := cs\<rparr>"
    using upd by (auto simp: update_configs_def Let_def cs_def f_def split: if_splits)
  have f: "dk_DeviceID (f c) = dk_DeviceID c" for c by (simp add: f_def)
  have ids: "map dk_DeviceID cs = map dk_DeviceID (db_configs db)" unfolding cs_def by (rule map_keep) (rule f)
  have sets: "dk_DeviceID ` set cs = dk_DeviceID ` set (db_configs db)" unfolding cs_def by (rule image_keep) (rule f)
  show "tables_inv db'" using inv by (simp add: tables_inv_def configs_wf_def db' ids sets)
  show "db_devices db' = db_devices db" "dk_DeviceID ` set (db_configs db') = dk_DeviceID ` set (db_configs db)"
    by (simp_all add: db' sets)
qed

section \<open>The effects a call can have\<close>

text \<open>What a runner loads of a device row.\<close>

definition loaded :: "Device \<Rightarrow> string \<times> string \<times> int \<times> int \<times> string \<times> int \<times> int" where
  "loaded d = (d_Name d, d_Address d, d_Port d, d_SlaveID d, d_ByteOrder d, d_TimeoutSec d, d_ScanIntervalMs d)"

text \<open>A change of the points of one device inside a transaction.\<close>

definition point_change :: "int \<Rightarrow> Db \<Rightarrow> Db \<Rightarrow> bool" where
  "point_change i db tx \<longleftrightarrow>
     db_devices tx = db_devices db \<and> db_configs tx = db_configs db \<and> db_device_seq tx = db_device_seq db \<and>
     db_versions tx = db_versions db \<and> (tables_inv db \<longrightarrow> tables_inv tx) \<and> (\<forall>j. j \<noteq> i \<longrightarrow> points_of j tx = points_of j db)"

inductive effect :: "Db \<Rightarrow> Db \<Rightarrow> bool" where
  Nothing: "effect db db"
| NewDevice: "insert_device now d db = Inr (i, tx) \<Longrightarrow> insert_config now i tx = Inr db' \<Longrightarrow> effect db db'"
| EditDevice: "update_devices f i db = Inr (n, db') \<Longrightarrow> (\<And>d. d_ID (f d) = d_ID d) \<Longrightarrow>
    (\<And>d. d_ConfigVersion (f d) = d_ConfigVersion d \<and> loaded (f d) = loaded d \<or>
       d_ConfigVersion (f d) = d_ConfigVersion d + 1) \<Longrightarrow> effect db db'"
| DropDevice: "effect db (snd (delete_devices i db))"
| EditPoints: "point_change i db tx \<Longrightarrow> update_devices (bump env) i tx = Inr (n, db') \<Longrightarrow> effect db db'"
| EditConfig: "update_configs now cfg db = Inr (n, db') \<Longrightarrow> effect db db'"
| EditSettings: "effect db (db\<lparr>db_settings := cfg, db_brokers := text\<rparr>)"

lemma point_change_trans: "point_change i db tx \<Longrightarrow> point_change i tx tx' \<Longrightarrow> point_change i db tx'"
  unfolding point_change_def by simp

lemma insert_point_change:
  assumes "insert_point now p db = Inr (k, tx)"
  shows "point_change (p_DeviceID p) db tx"
  unfolding point_change_def using insert_point_tables [OF _ assms] assms
  by (auto simp: insert_point_def Let_def points_of_def split: if_splits)

lemma update_points_change:
  assumes "update_points now p db = Inr (n, tx)"
  shows "point_change (p_DeviceID p) db tx"
proof -
  have "filter (\<lambda>q. p_DeviceID q = j) (map (\<lambda>q. if p_ID q = p_ID p \<and> p_DeviceID q = p_DeviceID p
      then p\<lparr>p_CreatedAt := p_CreatedAt q, p_UpdatedAt := now\<rparr> else q) ps) =
    filter (\<lambda>q. p_DeviceID q = j) ps" if "j \<noteq> p_DeviceID p" for j ps
    using that by (induction ps) auto
  then show ?thesis
    unfolding point_change_def using update_points_tables [OF _ assms] assms
    by (auto simp: update_points_def Let_def points_of_def split: if_splits)
qed

lemma delete_points_change:
  assumes "\<And>p. sel p \<Longrightarrow> p_DeviceID p = i"
  shows "point_change i db (snd (delete_points sel db))"
proof -
  have "filter (\<lambda>p. p_DeviceID p = j) (filter (\<lambda>p. \<not> sel p) ps) = filter (\<lambda>p. p_DeviceID p = j) ps"
    if "j \<noteq> i" for j ps
    using that assms by (induction ps) auto
  then show ?thesis
    unfolding point_change_def using delete_points_tables [of db sel]
    by (auto simp: delete_points_def points_of_def)
qed

lemma insert_points_change: "insert_points env n i ps db = Inr tx \<Longrightarrow> point_change i db tx"
proof (induction env n i ps db rule: insert_points.induct)
  case (1 env n i tx)
  then show ?case by (simp add: point_change_def)
next
  case (2 env n i p ps db)
  from "2.prems" obtain k tx1 where step: "insert_point (en_now env) (p\<lparr>p_DeviceID := i\<rparr>) db = Inr (k, tx1)"
    and rest: "insert_points env (n + 1) i ps tx1 = Inr tx"
    by (auto simp: call_simps)
  from 2 step rest have "point_change i tx1 tx" by (auto simp: call_simps)
  with insert_point_change [OF step] show ?case by (auto intro: point_change_trans)
qed

inductive db_step :: "Db \<Rightarrow> Db \<Rightarrow> bool" where
  CreateDevice: "CreateDevice env d db = (r, db') \<Longrightarrow> db_step db db'"
| UpdateDevice: "UpdateDevice env d db = (r, db') \<Longrightarrow> db_step db db'"
| SetDeviceEnabled: "SetDeviceEnabled env i b db = (r, db') \<Longrightarrow> db_step db db'"
| DeleteDevice: "DeleteDevice env i db = (u, db') \<Longrightarrow> db_step db db'"
| CreatePoint: "CreatePoint env p db = (q, db') \<Longrightarrow> db_step db db'"
| UpdatePoint: "UpdatePoint env p db = (q, db') \<Longrightarrow> db_step db db'"
| DeletePoint: "DeletePoint env i k db = (u, db') \<Longrightarrow> db_step db db'"
| DeletePoints: "DeletePoints env i ks db = (n, db') \<Longrightarrow> db_step db db'"
| ReplacePoints: "ReplacePoints env i ps db = (u, db') \<Longrightarrow> db_step db db'"
| UpdateKafkaSettings: "UpdateKafkaSettings env cfg db = (ks, db') \<Longrightarrow> db_step db db'"
| UpdateDeviceKafkaConfig: "UpdateDeviceKafkaConfig env dcfg db = (dk, db') \<Longrightarrow> db_step db db'"

lemma CreateDevice_effect: "CreateDevice env d db = (r, db') \<Longrightarrow> effect db db'"
  by (auto simp: CreateDevice_def call_simps intro: effect.intros split: prod.splits)

lemma UpdateDevice_effect: "UpdateDevice env d db = (r, db') \<Longrightarrow> effect db db'"
  by (fastforce simp: UpdateDevice_def call_simps intro: effect.Nothing effect.EditDevice)

lemma SetDeviceEnabled_effect: "SetDeviceEnabled env i b db = (r, db') \<Longrightarrow> effect db db'"
  by (fastforce simp: SetDeviceEnabled_def call_simps loaded_def intro: effect.Nothing effect.EditDevice)

lemma DeleteDevice_effect:
  assumes "DeleteDevice env i db = (r, db')"
  shows "effect db db'"
proof -
  have "db' = db \<or> db' = snd (delete_devices i db)"
    using assms by (auto simp: DeleteDevice_def call_simps)
  then show ?thesis by (auto intro: effect.intros)
qed

lemma CreatePoint_effect: "CreatePoint env p db = (r, db') \<Longrightarrow> effect db db'"
  by (fastforce simp: CreatePoint_def call_simps bumpVersion_Inr 
      intro: effect.Nothing effect.EditPoints [OF insert_point_change] split: prod.splits)

lemma UpdatePoint_effect: "UpdatePoint env p db = (r, db') \<Longrightarrow> effect db db'"
  by (fastforce simp: UpdatePoint_def call_simps bumpVersion_Inr 
      intro: effect.Nothing effect.EditPoints [OF update_points_change] split: prod.splits)

lemma delete_points_tx:
  assumes "delete_points sel db = (n, tx)" "\<And>p. sel p \<Longrightarrow> p_DeviceID p = i"
  shows "point_change i db tx"
  using delete_points_change [of sel i db] assms by simp

lemma delete_bump_effect:
  assumes "db' = db \<or> (\<exists>m tx n. delete_points sel db = (m, tx) \<and> update_devices (bump env) i tx = Inr (n, db'))"
    and "\<And>p. sel p \<Longrightarrow> p_DeviceID p = i"
  shows "effect db db'"
  using assms(1)
proof (elim disjE exE conjE)
  fix m tx n
  assume "delete_points sel db = (m, tx)" "update_devices (bump env) i tx = Inr (n, db')"
  then show ?thesis using delete_points_tx [OF _ assms(2)] by (blast intro: effect.EditPoints)
qed (simp add: effect.Nothing)

lemma DeletePoint_effect:
  assumes "DeletePoint env i k db = (r, db')"
  shows "effect db db'"
  by (rule delete_bump_effect [where sel = "\<lambda>p. p_DeviceID p = i \<and> p_ID p = k" and i = i and env = env])
    (use assms in \<open>auto simp: DeletePoint_def call_simps bumpVersion_Inr split: prod.splits\<close>)

lemma DeletePoints_effect:
  assumes "DeletePoints env i ks db = (r, db')"
  shows "effect db db'"
  by (rule delete_bump_effect [where sel = "\<lambda>p. p_DeviceID p = i \<and> p_ID p \<in> set ks" and i = i and env = env])
    (use assms in \<open>auto simp: DeletePoints_def Let_def call_simps bumpVersion_Inr split: prod.splits if_splits\<close>)

lemma ReplacePoints_effect:
  assumes "ReplacePoints env i ps db = (r, db')"
  shows "effect db db'"
proof -
  have "db' = db \<or> (\<exists>m tx tx' n. delete_points (\<lambda>p. p_DeviceID p = i) db = (m, tx) \<and>
      insert_points env 5 i ps tx = Inr tx' \<and> update_devices (bump env) i tx' = Inr (n, db'))"
    using assms by (auto simp: ReplacePoints_def call_simps bumpVersion_Inr split: prod.splits)
  then show ?thesis
  proof (elim disjE exE conjE)
    fix m tx tx' n
    assume del: "delete_points (\<lambda>p. p_DeviceID p = i) db = (m, tx)"
      and ins: "insert_points env 5 i ps tx = Inr tx'" and b: "update_devices (bump env) i tx' = Inr (n, db')"
    have "point_change i db tx'"
      by (rule point_change_trans [OF delete_points_tx [OF del] insert_points_change [OF ins]])
    then show ?thesis using b by (rule effect.EditPoints)
  qed (auto intro: effect.Nothing)
qed

lemma db_step_effect: "db_step db db' \<Longrightarrow> effect db db'"
proof (induction rule: db_step.induct)
  case (UpdateKafkaSettings env cfg db ks db')
  then show ?case by (auto simp: UpdateKafkaSettings_def call_simps intro: effect.intros)
next
  case (UpdateDeviceKafkaConfig env dcfg db dk db')
  then show ?case by (auto simp: UpdateDeviceKafkaConfig_def call_simps intro: effect.intros)
qed (blast intro: CreateDevice_effect UpdateDevice_effect SetDeviceEnabled_effect DeleteDevice_effect
    CreatePoint_effect UpdatePoint_effect DeletePoint_effect DeletePoints_effect ReplacePoints_effect)+

section \<open>What every call keeps\<close>

lemma update_devices_ids:
  assumes "update_devices f i db = Inr (n, db')" "\<And>d. d_ID (f d) = d_ID d"
  shows "d_ID ` set (db_devices db') = d_ID ` set (db_devices db)" "db_configs db' = db_configs db"
    "db_points db' = db_points db" "db_device_seq db' = db_device_seq db"
proof -
  obtain ds where ds: "ds = map (\<lambda>d. if d_ID d = i then f d else d) (db_devices db)" "db' = db\<lparr>db_devices := ds\<rparr>"
    using assms(1) by (rule update_devices_Inr)
  have "d_ID ` set ds = d_ID ` set (db_devices db)" unfolding ds by (rule image_keep) (simp add: assms(2))
  with ds(2) show "d_ID ` set (db_devices db') = d_ID ` set (db_devices db)" "db_configs db' = db_configs db"
    "db_points db' = db_points db" "db_device_seq db' = db_device_seq db"
    by simp_all
qed

lemma insert_device_Inr:
  assumes "insert_device now d db = Inr (i, tx)"
  shows "i = db_device_seq db + 1"
    "tx = db\<lparr>db_devices := db_devices db @ [d\<lparr>d_ID := i, d_ConfigVersion := 1, d_CreatedAt := now, d_UpdatedAt := now\<rparr>],
      db_device_seq := i\<rparr>"
  using assms by (auto simp: insert_device_def Let_def split: if_splits)

lemma insert_config_Inr:
  assumes "insert_config now i db = Inr tx"
  shows "tx = db\<lparr>db_configs := db_configs db @ [default_config now i]\<rparr>"
  using assms by (simp add: insert_config_def split: if_splits)

lemma default_config_id [simp]: "dk_DeviceID (default_config now i) = i"
  by (simp add: default_config_def)

lemma bump_sel [simp]: "d_ID (bump env d) = d_ID d" "d_ConfigVersion (bump env d) = d_ConfigVersion d + 1"
  by (simp_all add: bump_def)

lemma effect_inv:
  assumes "effect db db'" "store_inv db"
  shows "store_inv db'"
  using assms(1)
proof cases
  case (NewDevice now d i tx)
  have "dk_DeviceID ` set (db_configs db') = insert i (dk_DeviceID ` set (db_configs db))"
    "d_ID ` set (db_devices db') = insert i (d_ID ` set (db_devices db))"
    using insert_device_Inr [OF NewDevice(1)] insert_config_Inr [OF NewDevice(2)] by simp_all
  moreover have "tables_inv tx"
    by (rule insert_device_tables [OF _ NewDevice(1)]) (use assms(2) in \<open>simp add: store_inv_def\<close>)
  then have "tables_inv db'" by (rule insert_config_tables [OF _ NewDevice(2)])
  ultimately show ?thesis using assms(2) by (simp add: store_inv_def)
next
  case (EditDevice f i n)
  have "d_ConfigVersion d \<le> d_ConfigVersion (f d)" for d using EditDevice(3) [of d] by auto
  moreover have "tables_inv db" using assms(2) by (simp add: store_inv_def)
  ultimately have "tables_inv db'" by (intro update_devices_tables [OF _ EditDevice(1,2)]) simp_all
  with update_devices_ids [OF EditDevice(1,2)] assms(2) show ?thesis by (simp add: store_inv_def)
next
  case (DropDevice i)
  have "dk_DeviceID ` set (db_configs db') = dk_DeviceID ` set (db_configs db) - {i}"
    "d_ID ` set (db_devices db') = d_ID ` set (db_devices db) - {i}"
    by (auto simp: DropDevice delete_devices_def)
  then show ?thesis using assms(2) delete_devices_tables by (simp add: store_inv_def DropDevice)
next
  case (EditPoints i tx env n)
  have tx: "tables_inv tx" "db_devices tx = db_devices db" "db_configs tx = db_configs db"
    using EditPoints(1) assms(2) by (simp_all add: point_change_def store_inv_def)
  have "tables_inv db'" by (rule update_devices_tables [OF tx(1) EditPoints(2)]) simp_all
  with update_devices_ids [OF EditPoints(2)] tx assms(2) show ?thesis by (simp add: store_inv_def)
next
  case (EditConfig now cfg n)
  with update_configs_tables [OF _ EditConfig] assms(2) show ?thesis by (simp add: store_inv_def)
qed (use assms(2) in \<open>simp_all add: store_inv_def tables_inv_def\<close>)

lemma find_map_same:
  "(\<And>d. P (f d) = P d) \<Longrightarrow> find P (map f ds) = map_option f (find P ds)"
  by (induction ds) auto

lemma find_cong_mem: "(\<And>d. d \<in> set ds \<Longrightarrow> P d = Q d) \<Longrightarrow> find P ds = find Q ds"
  by (induction ds) auto

lemma device_row_update:
  assumes "update_devices f i db = Inr (n, db')" "\<And>d. d_ID (f d) = d_ID d"
  shows "device_row j db' = (if j = i then map_option f (device_row j db) else device_row j db)"
proof -
  let ?g = "\<lambda>d. if d_ID d = i then f d else d"
  have "device_row j db' = map_option ?g (device_row j db)"
    using assms find_map_same [of "\<lambda>d. d_ID d = j" ?g "db_devices db"]
    by (auto simp: update_devices_def Let_def device_row_def split: if_splits)
  moreover have "d_ID d = j" if "device_row j db = Some d" for d
    using that by (auto simp: device_row_def find_Some_iff)
  ultimately show ?thesis by (cases "device_row j db") auto
qed

lemma device_row_mem: "device_row j db = Some d \<Longrightarrow> d \<in> set (db_devices db) \<and> d_ID d = j"
  by (auto simp: device_row_def find_Some_iff)

lemma device_row_None: "device_row j db = None \<longleftrightarrow> j \<notin> d_ID ` set (db_devices db)"
  by (auto simp: device_row_def find_None_iff)

lemma find_append: "find P (xs @ ys) = (case find P xs of None \<Rightarrow> find P ys | Some x \<Rightarrow> Some x)"
  by (induction xs) auto

text \<open>A configuration as it is compared: the version, the loaded columns and the points.\<close>

definition kept_or_newer :: "int \<Rightarrow> Db \<Rightarrow> Db \<Rightarrow> bool" where
  "kept_or_newer i db db' \<longleftrightarrow>
     db_device_seq db \<le> db_device_seq db' \<and>
     (i \<le> db_device_seq db \<longrightarrow> device_row i db = None \<longrightarrow> device_row i db' = None) \<and>
     (\<forall>d d'. device_row i db = Some d \<longrightarrow> device_row i db' = Some d' \<longrightarrow>
        d_ConfigVersion d < d_ConfigVersion d' \<or>
        d_ConfigVersion d = d_ConfigVersion d' \<and> loaded d = loaded d' \<and> points_of i db = points_of i db')"

lemma kept_same:
  "db_device_seq db' = db_device_seq db \<Longrightarrow> device_row i db' = device_row i db \<Longrightarrow>
     points_of i db' = points_of i db \<Longrightarrow> kept_or_newer i db db'"
  by (simp add: kept_or_newer_def)

lemma effect_kept:
  assumes "effect db db'"
  shows "kept_or_newer i db db'"
  using assms
proof cases
  case (NewDevice now d j tx)
  have d': "db_device_seq db' = db_device_seq db + 1" "db_points db' = db_points db"
    "device_row i db' = (case device_row i db of Some r \<Rightarrow> Some r | None \<Rightarrow>
       if i = db_device_seq db + 1 then Some (d\<lparr>d_ID := i, d_ConfigVersion := 1, d_CreatedAt := now, d_UpdatedAt := now\<rparr>)
       else None)"
    using insert_device_Inr [OF NewDevice(1)] insert_config_Inr [OF NewDevice(2)]
    by (simp_all add: device_row_def find_append split: option.split)
  then show ?thesis by (auto simp: kept_or_newer_def points_of_def split: option.splits)
next
  case (EditDevice f j n)
  note row = device_row_update [OF EditDevice(1,2), of i]
  note ids = update_devices_ids [OF EditDevice(1,2)]
  have "d_ConfigVersion d < d_ConfigVersion (f d) \<or>
      d_ConfigVersion d = d_ConfigVersion (f d) \<and> loaded d = loaded (f d)" for d
    using EditDevice(3) [of d] by auto
  then show ?thesis using ids by (auto simp: kept_or_newer_def row points_of_def)
next
  case (DropDevice j)
  have row: "device_row i db' = (if i = j then None else device_row i db)"
  proof (cases "i = j")
    case True
    then show ?thesis by (auto simp: device_row_None DropDevice delete_devices_def)
  next
    case False
    then have "find (\<lambda>d. d_ID d = i) (filter (\<lambda>d. d_ID d \<noteq> j) ds) = find (\<lambda>d. d_ID d = i) ds" for ds
      by (induction ds) auto
    with False show ?thesis by (simp add: device_row_def DropDevice delete_devices_def)
  qed
  have "filter (\<lambda>p. p_DeviceID p = i) (filter (\<lambda>p. p_DeviceID p \<noteq> j) ps) = filter (\<lambda>p. p_DeviceID p = i) ps"
    if "i \<noteq> j" for ps
    using that by (induction ps) auto
  then have pts: "i \<noteq> j \<Longrightarrow> points_of i db' = points_of i db"
    unfolding points_of_def DropDevice delete_devices_def snd_conv Db.select_convs Db.update_convs by simp
  have "db_device_seq db' = db_device_seq db" by (simp add: DropDevice delete_devices_def)
  with pts row show ?thesis by (auto simp: kept_or_newer_def)
next
  case (EditPoints j tx env n)
  note row = device_row_update [OF EditPoints(2), of i]
  note ids = update_devices_ids [OF EditPoints(2)]
  have tx: "device_row i tx = device_row i db" "db_device_seq tx = db_device_seq db"
    "i \<noteq> j \<Longrightarrow> points_of i tx = points_of i db"
    using EditPoints(1) by (simp_all add: point_change_def device_row_def)
  show ?thesis using ids tx by (auto simp: kept_or_newer_def row points_of_def)
next
  case (EditConfig now cfg n)
  then show ?thesis
    by (auto simp: update_configs_def Let_def device_row_def points_of_def intro!: kept_same split: if_splits)
qed (auto simp: device_row_def points_of_def intro!: kept_same)

lemma kept_trans:
  assumes "kept_or_newer i db db1" "kept_or_newer i db1 db2" and bound: "device_row i db \<noteq> None \<longrightarrow> i \<le> db_device_seq db"
  shows "kept_or_newer i db db2"
proof (cases "device_row i db1")
  case None
  then show ?thesis using assms unfolding kept_or_newer_def by (metis option.distinct(1) order_trans)
next
  case (Some d1)
  show ?thesis
    unfolding kept_or_newer_def
  proof (intro conjI allI impI)
    show "db_device_seq db \<le> db_device_seq db2"
      using assms unfolding kept_or_newer_def by linarith
    show "device_row i db2 = None" if "i \<le> db_device_seq db" "device_row i db = None"
      using that assms(1) Some unfolding kept_or_newer_def by simp
  next
    fix d d'
    assume d: "device_row i db = Some d" "device_row i db2 = Some d'"
    have "d_ConfigVersion d < d_ConfigVersion d1 \<or>
        d_ConfigVersion d = d_ConfigVersion d1 \<and> loaded d = loaded d1 \<and> points_of i db = points_of i db1"
      using assms(1) d(1) Some unfolding kept_or_newer_def by blast
    moreover have "d_ConfigVersion d1 < d_ConfigVersion d' \<or>
        d_ConfigVersion d1 = d_ConfigVersion d' \<and> loaded d1 = loaded d' \<and> points_of i db1 = points_of i db2"
      using assms(2) d(2) Some unfolding kept_or_newer_def by blast
    ultimately show "d_ConfigVersion d < d_ConfigVersion d' \<or>
        d_ConfigVersion d = d_ConfigVersion d' \<and> loaded d = loaded d' \<and> points_of i db = points_of i db2"
      by auto
  qed
qed

interpretation db_history: kept_by_steps db_step store_inv
  by unfold_locales (rule effect_inv [OF db_step_effect])

lemmas steps_inv = db_history.all_kept

lemma device_row_bound: "store_inv db \<Longrightarrow> device_row i db = Some d \<Longrightarrow> i \<le> db_device_seq db \<and> 1 \<le> d_ConfigVersion d"
  using device_row_mem [of i db d] by (auto simp: store_inv_def tables_inv_def devices_wf_def)

lemma steps_kept:
  assumes "db_step\<^sup>*\<^sup>* db db'" "store_inv db"
  shows "kept_or_newer i db db'"
  using assms(1)
proof (induction rule: rtranclp_induct)
  case base
  show ?case by (simp add: kept_or_newer_def)
next
  case (step db1 db2)
  show ?case
    by (rule kept_trans [OF step.IH effect_kept [OF db_step_effect [OF step.hyps(2)]]])
      (use device_row_bound [OF assms(2)] in auto)
qed

section \<open>Replacing a point table\<close>

lemma insert_point_Inr:
  assumes "insert_point now p db = Inr (k, tx)"
  shows "tx = db\<lparr>db_points := db_points db @ [p\<lparr>p_ID := k, p_CreatedAt := now, p_UpdatedAt := now\<rparr>],
    db_point_seq := k\<rparr>"
  using assms by (auto simp: insert_point_def Let_def split: if_splits)

lemma insert_points_content:
  "insert_points env n i ps db = Inr tx \<Longrightarrow>
     map portable (points_of i tx) = map portable (points_of i db) @ map portable ps"
proof (induction env n i ps db rule: insert_points.induct)
  case (2 env n i p ps db)
  from "2.prems" obtain k tx1 where step: "insert_point (en_now env) (p\<lparr>p_DeviceID := i\<rparr>) db = Inr (k, tx1)"
    and rest: "insert_points env (n + 1) i ps tx1 = Inr tx" and nf: "en_fault env n = None"
    by (auto simp: call_simps)
  have "with_err (\<lambda>e. mapError env ''replace points'' (SqlText e))
      (exec env n (insert_point (en_now env) (p\<lparr>p_DeviceID := i\<rparr>) db)) = Inr (k, tx1)"
    using step nf by (simp add: exec_def)
  from "2.IH" [OF this refl rest] insert_point_Inr [OF step] show ?case
    by (simp add: points_of_def portable_def)
qed simp

lemma insert_points_ok:
  assumes "\<And>k. en_fault env k = None" "i \<in> d_ID ` set (db_devices db)"
    "distinct (map p_TagName (points_of i db) @ map p_TagName ps)"
  shows "\<exists>tx. insert_points env n i ps db = Inr tx \<and> db_devices tx = db_devices db"
  using assms(2,3)
proof (induction ps arbitrary: db n)
  case (Cons p ps)
  have "p_TagName p \<notin> p_TagName ` set (points_of i db)" using Cons.prems(2) by auto
  then have "(i, p_TagName p) \<notin> (\<lambda>q. (p_DeviceID q, p_TagName q)) ` set (db_points db)"
    by (auto simp: points_of_def)
  with Cons.prems(1) obtain k tx1 where step: "insert_point (en_now env) (p\<lparr>p_DeviceID := i\<rparr>) db = Inr (k, tx1)"
    by (simp add: insert_point_def Let_def)
  have "map p_TagName (points_of i tx1) = map p_TagName (points_of i db) @ [p_TagName p]"
    "db_devices tx1 = db_devices db"
    using insert_point_Inr [OF step] by (simp_all add: points_of_def)
  with Cons.IH [of tx1 "n + 1"] Cons.prems step assms(1) show ?case by (simp add: exec_def)
qed simp

lemma ReplacePoints_Inr:
  "ReplacePoints env i ps db = (Inr u, db') \<longleftrightarrow>
     en_fault env 0 = None \<and> en_fault env 1 = None \<and> en_fault env 4 = None \<and>
     (\<exists>tx. insert_points env 5 i ps (snd (delete_points (\<lambda>p. p_DeviceID p = i) db)) = Inr tx \<and>
        bumpVersion env 2 i tx = Inr db')"
  by (auto simp: ReplacePoints_def call_simps delete_points_def)

lemma points_of_deleted: "points_of i (snd (delete_points (\<lambda>p. p_DeviceID p = i) db)) = []"
  by (simp add: points_of_def delete_points_def filter_empty_conv)

lemma points_of_tags:
  assumes "tables_inv db"
  shows "distinct (map p_TagName (points_of i db))"
proof -
  have "distinct (map (\<lambda>p. (p_DeviceID p, p_TagName p)) (db_points db))"
    using assms by (simp add: tables_inv_def points_wf_def)
  then show ?thesis by (auto simp: points_of_def distinct_map inj_on_def)
qed

lemma ReplacePoints_lemma:
  assumes inv: "store_inv db" and call: "ReplacePoints env i ps db = (r, db')"
  shows "(r = Inr () \<and> map portable (points_of i db') = map portable ps \<and>
       device_row i db' = map_option (bump env) (device_row i db) \<and>
       (\<forall>j. j \<noteq> i \<longrightarrow> points_of j db' = points_of j db \<and> device_row j db' = device_row j db) \<or>
     (\<exists>e. r = Inl e) \<and> db' = db) \<and>
    ((\<forall>n. en_fault env n = None) \<longrightarrow>
       (r = Inr () \<longleftrightarrow> device_row i db \<noteq> None \<and> distinct (map p_TagName ps)))"
proof -
  let ?del = "snd (delete_points (\<lambda>p. p_DeviceID p = i) db)"
  have dev: "db_devices ?del = db_devices db" by (simp add: delete_points_def)
  show ?thesis
  proof (cases r)
    case (Inl e)
    then have same: "db' = db" using call by (auto simp: ReplacePoints_def call_simps)
    have "\<not> (device_row i db \<noteq> None \<and> distinct (map p_TagName ps))" if nf: "\<forall>n. en_fault env n = None"
    proof
      assume ok: "device_row i db \<noteq> None \<and> distinct (map p_TagName ps)"
      then have mem: "i \<in> d_ID ` set (db_devices ?del)" by (auto simp: device_row_None dev)
      obtain tx where tx: "insert_points env 5 i ps ?del = Inr tx" "db_devices tx = db_devices ?del"
        using insert_points_ok [of env i ?del ps 5] mem nf ok points_of_deleted [of i db] by auto
      have "distinct (map d_Name (map (\<lambda>d. if d_ID d = i then bump env d else d) (db_devices tx)))"
        using inv by (simp add: tx dev store_inv_def tables_inv_def devices_wf_def bump_def comp_def if_distrib
            cong: if_cong)
      moreover have "filter (\<lambda>d. d_ID d = i) (db_devices tx) \<noteq> []"
        using mem by (auto simp: tx filter_empty_conv)
      ultimately obtain db2 where "bumpVersion env 2 i tx = Inr db2"
        using nf by (auto simp: bumpVersion_Inr update_devices_def Let_def)
      with tx(1) nf have "ReplacePoints env i ps db = (Inr (), db2)" by (simp add: ReplacePoints_Inr)
      with call Inl show False by simp
    qed
    with Inl same show ?thesis by auto
  next
    case (Inr u)
    then obtain tx where tx: "insert_points env 5 i ps ?del = Inr tx" and "bumpVersion env 2 i tx = Inr db'"
      using call by (auto simp: ReplacePoints_Inr)
    then obtain k where b: "update_devices (bump env) i tx = Inr (k, db')" "k \<noteq> 0"
      by (auto simp: bumpVersion_Inr)
    have "point_change i db ?del" by (rule delete_points_change) simp
    then have ch: "point_change i db tx" using insert_points_change [OF tx] by (rule point_change_trans)
    have pts: "db_points db' = db_points tx" using update_devices_ids(3) [OF b(1)] by simp
    have c: "map portable (points_of i db') = map portable ps"
      using insert_points_content [OF tx] pts by (simp add: points_of_deleted) (simp add: points_of_def)
    have row: "device_row j db' = (if j = i then map_option (bump env) (device_row j db) else device_row j db)" for j
      using device_row_update [OF b(1), of j] ch by (simp add: point_change_def device_row_def)
    have others: "points_of j db' = points_of j db" if "j \<noteq> i" for j
      using that ch pts by (simp add: point_change_def points_of_def)
    have "store_inv db'"
      by (rule effect_inv [OF ReplacePoints_effect [OF call] inv])
    then have "distinct (map p_TagName (map portable (points_of i db')))"
      using points_of_tags by (simp add: store_inv_def comp_def)
    then have "distinct (map p_TagName ps)" unfolding c by (simp add: comp_def)
    moreover have "device_row i db \<noteq> None"
    proof -
      have "k = length (filter (\<lambda>d. d_ID d = i) (db_devices tx))"
        using b(1) by (rule update_devices_Inr)
      then have "filter (\<lambda>d. d_ID d = i) (db_devices db) \<noteq> []" using b(2) ch by (auto simp: point_change_def)
      then show ?thesis by (auto simp: device_row_None filter_empty_conv)
    qed
    ultimately show ?thesis using Inr c row others by simp
  qed
qed

text \<open>
  C29: replacing the points of a device is all or nothing. When it reports success the device has
  exactly the given points, every other device is untouched and the configuration version went
  up by one; when it reports an error, whichever statement failed, nothing changed at all. Unless
  the database fails, it succeeds exactly for an existing device and distinct tags.
\<close>

theorem ReplacePoints_all_or_nothing:
  assumes inv: "store_inv db" and call: "ReplacePoints env i ps db = (r, db')"
  shows "(r = Inr () \<and> map portable (points_of i db') = map portable ps \<and>
       device_row i db' = map_option (bump env) (device_row i db) \<and>
       (\<forall>j. j \<noteq> i \<longrightarrow> points_of j db' = points_of j db \<and> device_row j db' = device_row j db) \<or>
     (\<exists>e. r = Inl e) \<and> db' = db) \<and>
    ((\<forall>n. en_fault env n = None) \<longrightarrow>
       (r = Inr () \<longleftrightarrow> device_row i db \<noteq> None \<and> distinct (map p_TagName ps)))"
  by (rule ReplacePoints_lemma [OF assms])

section \<open>Opening, and the history after it\<close>

lemma applyMigration_Inr:
  assumes "applyMigration env n v f db = Inr db'"
  shows "v \<in> set (db_versions db) \<and> db' = db \<or>
    v \<notin> set (db_versions db) \<and> (\<exists>tx. f db = Inr tx \<and> db' = tx\<lparr>db_versions := db_versions tx @ [v]\<rparr>)"
  using assms by (auto simp: applyMigration_def call_simps count_list_0_iff split: if_splits)

lemma migratePointDescription_Inr:
  assumes "migratePointDescription env n db = Inr db'"
  shows "2 \<in> set (db_versions db) \<and> db' = db \<or>
    2 \<notin> set (db_versions db) \<and> db' = db\<lparr>db_points := map (\<lambda>p. p\<lparr>p_Description := []\<rparr>) (db_points db),
      db_versions := db_versions db @ [2]\<rparr>"
  using assms by (cases "2 \<in> set (db_versions db)")
    (auto simp: migratePointDescription_def call_simps count_list_0_iff split: if_splits)

lemma migrate_Inr:
  assumes "migrate env db = Inr db'"
  shows "{1, 2, 3, 4} \<subseteq> set (db_versions db')" "db_devices db' = db_devices db"
    "db_device_seq db' = db_device_seq db" "db_point_seq db' = db_point_seq db"
    "db_points db' = db_points db \<or> db_points db' = map (\<lambda>p. p\<lparr>p_Description := []\<rparr>) (db_points db)"
    "4 \<notin> set (db_versions db) \<Longrightarrow> db_configs db' = map (\<lambda>d. default_config (en_now env) (d_ID d)) (db_devices db)"
proof -
  define v where "v = (if 1 \<in> set (db_versions db) then db_versions db else db_versions db @ [1])"
  have v: "1 \<in> set v" "set v \<subseteq> insert 1 (set (db_versions db))" by (auto simp: v_def)
  obtain db1 db2 where
      m2: "migratePointDescription env 1 (db\<lparr>db_versions := v\<rparr>) = Inr db1"
    and m3: "applyMigration env 6 3 (migrateKafkaSettings (en_now env)) db1 = Inr db2"
    and m4: "applyMigration env 10 4 (migrateDeviceKafkaConfigs (en_now env)) db2 = Inr db'"
    using assms unfolding migrate_def call_simps with_err_Inr v_def [symmetric] by blast
  have 1: "{1, 2} \<subseteq> set (db_versions db1)" "db_devices db1 = db_devices db" "db_device_seq db1 = db_device_seq db"
    "db_point_seq db1 = db_point_seq db" "set (db_versions db1) \<subseteq> insert 1 (insert 2 (set (db_versions db)))"
    "db_points db1 = db_points db \<or> db_points db1 = map (\<lambda>p. p\<lparr>p_Description := []\<rparr>) (db_points db)"
    using migratePointDescription_Inr [OF m2] v by auto
  have 2: "insert 3 (set (db_versions db1)) = set (db_versions db2)" "db_devices db2 = db_devices db1"
    "db_device_seq db2 = db_device_seq db1" "db_point_seq db2 = db_point_seq db1" "db_points db2 = db_points db1"
    using applyMigration_Inr [OF m3] by (auto simp: migrateKafkaSettings_def)
  have 3: "insert 4 (set (db_versions db2)) = set (db_versions db')" "db_devices db' = db_devices db2"
    "db_device_seq db' = db_device_seq db2" "db_point_seq db' = db_point_seq db2" "db_points db' = db_points db2"
    "4 \<notin> set (db_versions db2) \<Longrightarrow> db_configs db' = map (\<lambda>d. default_config (en_now env) (d_ID d)) (db_devices db2)"
    using applyMigration_Inr [OF m4] by (auto simp: migrateDeviceKafkaConfigs_def)
  show "{1, 2, 3, 4} \<subseteq> set (db_versions db')" using 1(1) 2(1) 3(1) by auto
  show "db_devices db' = db_devices db" "db_device_seq db' = db_device_seq db" "db_point_seq db' = db_point_seq db"
    "db_points db' = db_points db \<or> db_points db' = map (\<lambda>p. p\<lparr>p_Description := []\<rparr>) (db_points db)"
    using 1 2 3 by simp_all
  show "db_configs db' = map (\<lambda>d. default_config (en_now env) (d_ID d)) (db_devices db)"
    if "4 \<notin> set (db_versions db)"
  proof -
    have "4 \<notin> insert 3 (set (db_versions db1))" using that 1(5) by auto
    then have "4 \<notin> set (db_versions db2)" by (simp only: 2(1) not_False_eq_True)
    with 3(6) 1(2) 2(2) show ?thesis by simp
  qed
qed

lemma migrate_again:
  "{1, 2, 3, 4} \<subseteq> set (db_versions db) \<Longrightarrow> migrate env db = Inr db' \<Longrightarrow> db' = db"
  by (auto simp: migrate_def migratePointDescription_def applyMigration_def call_simps count_list_0_iff split: if_splits)

lemma migrate_store_inv:
  assumes inv: "tables_inv db" and new: "4 \<notin> set (db_versions db)" and m: "migrate env db = Inr db'"
  shows "store_inv db'"
proof -
  note r = migrate_Inr [OF m]
  have cfg: "db_configs db' = map (\<lambda>d. default_config (en_now env) (d_ID d)) (db_devices db)" by (rule r(6) [OF new])
  have "points_wf (db_points db') (db_point_seq db') (d_ID ` set (db_devices db'))"
    using r(5) inv unfolding r(2,4) tables_inv_def points_wf_def by (auto simp: comp_def)
  moreover have "map dk_DeviceID (db_configs db') = map d_ID (db_devices db)" by (simp add: cfg)
  then have "configs_wf (db_configs db') (d_ID ` set (db_devices db'))"
    "dk_DeviceID ` set (db_configs db') = d_ID ` set (db_devices db')"
    using inv by (simp_all add: configs_wf_def tables_inv_def devices_wf_def r(2) flip: set_map)
  ultimately show ?thesis using inv by (simp add: store_inv_def tables_inv_def r(2,3))
qed

lemma effect_versions: "effect db db' \<Longrightarrow> db_versions db' = db_versions db"
proof (induction rule: effect.induct)
  case (NewDevice now d db i tx db')
  show ?case using insert_device_Inr [OF NewDevice(1)] insert_config_Inr [OF NewDevice(2)] by simp
next
  case (EditPoints i db tx env n db')
  then show ?case by (auto simp: point_change_def update_devices_def Let_def split: if_splits)
qed (auto simp: update_devices_def update_configs_def delete_devices_def Let_def split: if_splits)

lemma steps_versions: "db_step\<^sup>*\<^sup>* db db' \<Longrightarrow> db_versions db' = db_versions db"
  by (induction rule: rtranclp_induct) (simp_all add: effect_versions [OF db_step_effect])

text \<open>
  C4: from the first opening of a database on, whether new or left by an older release, and after
  any history of calls in which any statement may fail: device names and the tags of a device are
  distinct, every point belongs to an existing device, every device has exactly one publishing
  policy and no policy is left over; and opening the database again changes nothing.
\<close>

theorem store_integrity:
  assumes "tables_inv db0" "4 \<notin> set (db_versions db0)" "migrate env db0 = Inr db1"
    and "db_step\<^sup>*\<^sup>* db1 db"
  shows "distinct (map d_Name (db_devices db)) \<and> distinct (map d_ID (db_devices db)) \<and>
    distinct (map (\<lambda>p. (p_DeviceID p, p_TagName p)) (db_points db)) \<and>
    (\<forall>p\<in>set (db_points db). device_row (p_DeviceID p) db \<noteq> None) \<and>
    (\<forall>i. device_row i db \<noteq> None \<longleftrightarrow> config_row i db \<noteq> None) \<and> distinct (map dk_DeviceID (db_configs db)) \<and>
    (\<forall>env' db'. migrate env' db = Inr db' \<longrightarrow> db' = db)"
proof -
  have inv: "store_inv db" by (rule steps_inv [OF assms(4) migrate_store_inv [OF assms(1-3)]])
  have v: "{1, 2, 3, 4} \<subseteq> set (db_versions db)"
    unfolding steps_versions [OF assms(4)] by (rule migrate_Inr(1) [OF assms(3)])
  have "config_row i db \<noteq> None \<longleftrightarrow> i \<in> dk_DeviceID ` set (db_configs db)" for i
    by (auto simp: config_row_def find_None_iff)
  with inv migrate_again [OF v] show ?thesis
    by (auto simp: store_inv_def tables_inv_def devices_wf_def points_wf_def configs_wf_def device_row_None)
qed

section \<open>Paging\<close>

lemma concat_pages: "concat (map (\<lambda>k. take l (drop (k * l) xs)) [0..<n]) = take (n * l) xs"
proof (induction n)
  case (Suc n)
  then show ?case by (simp add: take_add [symmetric] add.commute)
qed simp

text \<open>
  C31: the pages of a listing, read one after the other with the same filter and a positive limit,
  give every matching point of the device exactly once, in strictly increasing order of register
  type, address and tag, and each page reports the number of all of them.
\<close>

theorem ListPoints_pages:
  assumes inv: "store_inv db" and ok: "\<And>n. en_fault env n = None" and l: "0 < l"
    and f: "\<And>k. filt k = \<lparr>pf_Search = s, pf_RegType = t, pf_Limit = int l, pf_Offset = int (k * l)\<rparr>"
    and n: "length (filter (pointWhere env i (filt 0)) (db_points db)) \<le> n * l"
  shows "\<exists>pages. map (\<lambda>k. ListPoints env 0 i (filt k) db) [0..<n] = map Inr pages \<and>
    (let all = concat (map pg_Items pages) in
       mset all = mset (filter (pointWhere env i (filt 0)) (db_points db)) \<and>
       sorted_wrt (\<lambda>p q. point_key p < point_key q) all \<and>
       (\<forall>page\<in>set pages. pg_Total page = int (length all)))"
proof -
  let ?rows = "filter (pointWhere env i (filt 0)) (db_points db)"
  define xs where "xs = sort_key point_key ?rows"
  let ?page = "\<lambda>k. \<lparr>pg_Items = take l (drop (k * l) xs), pg_Total = int (length xs)\<rparr>"
  have same: "pointWhere env i (filt k) = pointWhere env i (filt 0)" for k
    by (rule ext) (simp add: pointWhere_def f)
  have off: "nat (int k * int l) = k * l" for k by (simp add: nat_mult_distrib)
  have page: "ListPoints env 0 i (filt k) db = Inr (?page k)" for k
    unfolding ListPoints_def same [of k] using l by (simp add: exec_def ok xs_def) (simp add: f off)
  have all: "concat (map pg_Items (map ?page [0..<n])) = xs"
    using n concat_pages [of l xs n] by (simp add: comp_def xs_def)
  have "distinct (map p_TagName (points_of i db))"
    using inv points_of_tags by (simp add: store_inv_def)
  then have "inj_on p_TagName (set (points_of i db))" "distinct (points_of i db)" by (simp_all add: distinct_map)
  moreover have "set ?rows \<subseteq> set (points_of i db)" by (auto simp: points_of_def pointWhere_def)
  moreover have "?rows = filter (pointWhere env i (filt 0)) (points_of i db)"
    by (auto simp: points_of_def pointWhere_def intro: filter_cong)
  ultimately have rows: "inj_on point_key (set ?rows)" "distinct ?rows"
    by (auto simp: inj_on_def point_key_def)
  then have "distinct (map point_key xs)" by (simp add: xs_def distinct_map)
  then have "sorted_wrt (\<lambda>p q. point_key p < point_key q) xs"
    using strict_sorted_iff [of "map point_key xs"] sorted_sort_key [of point_key ?rows]
    by (simp add: xs_def sorted_wrt_map)
  moreover have "mset xs = mset ?rows" by (simp add: xs_def)
  moreover have "map (\<lambda>k. ListPoints env 0 i (filt k) db) [0..<n] = map Inr (map ?page [0..<n])"
    by (simp add: page)
  ultimately show ?thesis
    by (intro exI [of _ "map ?page [0..<n]"]) (simp add: all Let_def del: map_map)
qed

section \<open>Witnesses\<close>

definition quiet :: Env where
  "quiet = \<lparr>en_fault = (\<lambda>_. None), en_now = 9, en_like = (\<lambda>_ _. True), en_marshal = (\<lambda>_. ''[]''),
     en_unmarshal = (\<lambda>_. Inr []), en_lower = (\<lambda>s. s)\<rparr>"

definition empty_db :: Db where
  "empty_db = \<lparr>db_devices = [], db_points = [], db_configs = [], db_settings = default_settings 0,
     db_brokers = ''[]'', db_device_seq = 0, db_point_seq = 0, db_versions = []\<rparr>"

definition opened_db :: Db where
  "opened_db = empty_db\<lparr>db_settings := default_settings 9, db_versions := [1, 2, 3, 4]\<rparr>"

lemma migrate_empty: "migrate quiet empty_db = Inr opened_db"
  by (simp add: migrate_def applyMigration_def exec_def quiet_def empty_db_def opened_db_def
      migratePointDescription_def migrateKafkaSettings_def migrateDeviceKafkaConfigs_def)

definition plc :: Device where
  "plc = \<lparr>d_ID = 0, d_Name = ''plc'', d_Enabled = False, d_Address = ''10.0.0.7'', d_Port = 502,
     d_SlaveID = 1, d_ByteOrder = ''ABCD'', d_TimeoutSec = 3, d_ScanIntervalMs = 1000,
     d_ConfigVersion = 0, d_CreatedAt = 0, d_UpdatedAt = 0\<rparr>"

definition plc_db :: Db where
  "plc_db = snd (CreateDevice quiet plc opened_db)"

lemma plc_db_eq: "plc_db = opened_db\<lparr>db_devices := [plc\<lparr>d_ID := 1, d_ConfigVersion := 1, d_CreatedAt := 9, d_UpdatedAt := 9\<rparr>],
    db_configs := [default_config 9 1], db_device_seq := 1\<rparr>"
  by (simp add: plc_db_def CreateDevice_def transaction_def exec_def quiet_def insert_device_def insert_config_def
      opened_db_def empty_db_def Let_def)

lemma plc_db_reached: "db_step\<^sup>*\<^sup>* opened_db plc_db"
  unfolding plc_db_def by (rule r_into_rtranclp) (rule db_step.CreateDevice, rule prod.collapse [symmetric])

lemma empty_db_tables: "tables_inv empty_db" "4 \<notin> set (db_versions empty_db)"
  by (simp_all add: empty_db_def tables_inv_def devices_wf_def points_wf_def configs_wf_def)

lemma plc_db_inv: "store_inv plc_db"
  by (rule steps_inv [OF plc_db_reached migrate_store_inv [OF empty_db_tables migrate_empty]])

theorem store_integrity_witness: "config_row 1 plc_db \<noteq> None"
proof -
  have "device_row 1 plc_db \<noteq> None" by (simp add: plc_db_eq device_row_def plc_def)
  with store_integrity [OF empty_db_tables migrate_empty plc_db_reached] show ?thesis by blast
qed

definition temperature :: Point where
  "temperature = \<lparr>p_ID = 0, p_DeviceID = 0, p_TagName = ''t'', p_Description = [], p_RegType = ''HoldingReg'',
     p_Address = 9, p_DataType = ''Float32'', p_BitOffset = 0, p_BitLen = 0, p_Writeable = 0,
     p_CreatedAt = 0, p_UpdatedAt = 0\<rparr>"

lemma plc_row: "device_row 1 plc_db \<noteq> None"
  by (simp add: plc_db_eq device_row_def plc_def)

theorem ReplacePoints_all_or_nothing_witness:
  "fst (ReplacePoints quiet 1 [temperature] plc_db) = Inr ()"
  using ReplacePoints_all_or_nothing [OF plc_db_inv prod.collapse [symmetric], of quiet 1 "[temperature]"] plc_row
  by (simp add: quiet_def)

text \<open>A device with two points, listed in pages of one.\<close>

definition two_points_db :: Db where
  "two_points_db = snd (ReplacePoints quiet 1 [temperature\<lparr>p_TagName := ''u'', p_Address := 12\<rparr>, temperature] plc_db)"

lemma two_points_inv: "store_inv two_points_db"
proof -
  have "db_step plc_db two_points_db"
    unfolding two_points_db_def by (rule db_step.ReplacePoints, rule prod.collapse [symmetric])
  then show ?thesis by (metis plc_db_inv r_into_rtranclp steps_inv)
qed

lemma two_points_rows:
  "map p_TagName (db_points two_points_db) = [''u'', ''t'']" "map p_DeviceID (db_points two_points_db) = [1, 1]"
  by (simp_all add: two_points_db_def ReplacePoints_def transaction_def exec_def quiet_def temperature_def plc_db_eq
      opened_db_def empty_db_def delete_points_def insert_point_def bumpVersion_def update_devices_def plc_def Let_def
      bump_def requireAffected_def)

theorem ListPoints_pages_witness:
  "\<exists>first second. map (\<lambda>k. ListPoints quiet 0 1 \<lparr>pf_Search = [], pf_RegType = [], pf_Limit = int 1, pf_Offset = int (k * 1)\<rparr>
      two_points_db) [0..<2] = [Inr first, Inr second] \<and> pg_Total first = 2 \<and> pg_Total second = 2 \<and>
     mset (map p_TagName (pg_Items first @ pg_Items second)) = {#''t'', ''u''#} \<and>
     sorted_wrt (\<lambda>p q. point_key p < point_key q) (pg_Items first @ pg_Items second)"
proof -
  let ?filt = "\<lambda>k. \<lparr>pf_Search = [], pf_RegType = [], pf_Limit = int 1, pf_Offset = int (k * 1)\<rparr>"
  let ?rows = "filter (pointWhere quiet 1 (?filt 0)) (db_points two_points_db)"
  have "\<forall>p\<in>set (db_points two_points_db). p_DeviceID p = 1" using two_points_rows(2) by auto
  then have all: "?rows = db_points two_points_db" by (intro filter_True) (simp add: pointWhere_def)
  have len: "length (db_points two_points_db) = 2" using arg_cong [OF two_points_rows(1), of length] by simp
  obtain pages where pages: "map (\<lambda>k. ListPoints quiet 0 1 (?filt k) two_points_db) [0..<2] = map Inr pages"
    "mset (concat (map pg_Items pages)) = mset ?rows"
    "sorted_wrt (\<lambda>p q. point_key p < point_key q) (concat (map pg_Items pages))"
    "\<forall>page\<in>set pages. pg_Total page = int (length (concat (map pg_Items pages)))"
    using ListPoints_pages [OF two_points_inv, of quiet 1 ?filt "[]" "[]" 1 2] len all
    unfolding Let_def by (auto simp: quiet_def)
  have "length pages = 2" using arg_cong [OF pages(1), of length] by simp
  then obtain first second where two: "pages = [first, second]"
    by (auto simp: numeral_2_eq_2 length_Suc_conv)
  have tags: "mset (map p_TagName (concat (map pg_Items pages))) = mset (map p_TagName (db_points two_points_db))"
    using pages(2) unfolding all by (simp only: mset_map)
  have "length (concat (map pg_Items pages)) = 2" using mset_eq_length [OF pages(2)] len all by simp
  with pages tags two_points_rows(1) show ?thesis unfolding two by (auto simp: add_mset_commute)
qed

end
