(* ===== verification/Services.thy ===== *)
theory Services
  imports StoreInv KafkaConfig
begin

text \<open>
  \<open>internal/service\<close>: what the HTTP handlers call. The services check their input, then call the
  store and, for Kafka, the publisher. The device runtime and the publisher are arguments: the
  error that \<open>Stop\<close> returned, the status that \<open>ApplySettings\<close> returned. Each function is the
  whole method; its store calls run one after the other on the same database.
\<close>

section \<open>Devices\<close>

datatype service_error =
    Invalid "FieldError list"
  | InvalidKafka kafka_error
  | InvalidPolicy policy_error
  | FromStore store_error
  | DeviceBusy
  | Failed string

definition trimmed_device :: "(string \<Rightarrow> string) \<Rightarrow> Device \<Rightarrow> Device" where
  "trimmed_device uni d =
     d\<lparr>d_Name := TrimSpace (d_Name d), d_Address := TrimSpace (d_Address d),
       d_ByteOrder := (if ToUpper uni (TrimSpace (d_ByteOrder d)) = [] then ''ABCD''
         else ToUpper uni (TrimSpace (d_ByteOrder d))),
       d_TimeoutSec := (if d_TimeoutSec d = 0 then 5 else d_TimeoutSec d),
       d_ScanIntervalMs := (if d_ScanIntervalMs d = 0 then 2000 else d_ScanIntervalMs d)\<rparr>"

definition device_errors :: "Device \<Rightarrow> FieldError list" where
  "device_errors d =
     when_err (d_Name d = [] \<or> 128 < length (d_Name d)) ''name'' ''must contain 1 to 128 characters'' @
     when_err (d_Address d = [] \<or> 255 < length (d_Address d)) ''address'' ''must contain 1 to 255 characters'' @
     when_err (d_Port d < 1 \<or> 65535 < d_Port d) ''port'' ''must be between 1 and 65535'' @
     when_err (d_SlaveID d < 1 \<or> 247 < d_SlaveID d) ''slave_id'' ''must be between 1 and 247'' @
     when_err (d_ByteOrder d \<noteq> ''ABCD'' \<and> d_ByteOrder d \<noteq> ''DCBA'' \<and> d_ByteOrder d \<noteq> ''CDAB'' \<and>
       d_ByteOrder d \<noteq> ''BADC'') ''byte_order'' ''must be ABCD, DCBA, CDAB, or BADC'' @
     when_err (d_TimeoutSec d < 1 \<or> 300 < d_TimeoutSec d) ''timeout_sec'' ''must be between 1 and 300'' @
     when_err (d_ScanIntervalMs d < 100 \<or> 3600000 < d_ScanIntervalMs d)
       ''scan_interval_ms'' ''must be between 100 and 3600000''"

definition normalizeDevice :: "(string \<Rightarrow> string) \<Rightarrow> Device \<Rightarrow> service_error + Device" where
  "normalizeDevice uni device =
     (let d = trimmed_device uni device in
      if device_errors d \<noteq> [] then Inl (Invalid (device_errors d)) else Inr d)"

text \<open>A store call inside a service method.\<close>

definition stored :: "(store_error + 'a) \<times> Db \<Rightarrow> (service_error + 'a) \<times> Db" where
  "stored r = (with_err FromStore (fst r), snd r)"

definition device_Create :: "Env \<Rightarrow> (string \<Rightarrow> string) \<Rightarrow> Device \<Rightarrow> Db \<Rightarrow> (service_error + Device) \<times> Db" where
  "device_Create env uni input db =
     (case normalizeDevice uni input of
        Inl e \<Rightarrow> (Inl e, db)
      | Inr d \<Rightarrow> stored (CreateDevice env (d\<lparr>d_Enabled := False\<rparr>) db))"

definition device_Update :: "Env \<Rightarrow> (string \<Rightarrow> string) \<Rightarrow> int \<Rightarrow> Device \<Rightarrow> Db \<Rightarrow>
    (service_error + Device) \<times> Db" where
  "device_Update env uni i input db =
     (case normalizeDevice uni input of
        Inl e \<Rightarrow> (Inl e, db)
      | Inr d \<Rightarrow> stored (UpdateDevice env (d\<lparr>d_ID := i\<rparr>) db))"

text \<open>
  What the runtime's \<open>Start\<close>, \<open>Stop\<close> and \<open>Restart\<close> do to the store: nothing when the device is
  busy, and otherwise they save whether it is enabled. The rest of their work answers \<open>runErr\<close>.
\<close>

definition runtime_call :: "Env \<Rightarrow> bool \<Rightarrow> string option \<Rightarrow> bool \<Rightarrow> int \<Rightarrow> Db \<Rightarrow> (service_error + unit) \<times> Db" where
  "runtime_call env busy runErr enabled i db =
     (if busy then (Inl DeviceBusy, db)
      else
        case SetDeviceEnabled env i enabled db of
          (Inl e, db') \<Rightarrow> (Inl (FromStore e), db')
        | (Inr _, db') \<Rightarrow> (case runErr of Some err \<Rightarrow> Inl (Failed err) | None \<Rightarrow> Inr (), db'))"

fun wrap_stop :: "service_error \<Rightarrow> service_error" where
  "wrap_stop (Failed err) = Failed (''stop device before delete: '' @ err)"
| "wrap_stop e = e"

text \<open>\<open>Delete\<close>; the three environments are those of its store calls.\<close>

definition device_Delete :: "Env \<Rightarrow> Env \<Rightarrow> Env \<Rightarrow> bool \<Rightarrow> string option \<Rightarrow> int \<Rightarrow> Db \<Rightarrow> (service_error + unit) \<times> Db" where
  "device_Delete env1 env2 env3 busy stopErr i db =
     (case GetDevice env1 0 i db of
        Inl e \<Rightarrow> (Inl (FromStore e), db)
      | Inr _ \<Rightarrow>
          (case runtime_call env2 busy stopErr False i db of
             (Inl err, db1) \<Rightarrow> (Inl (wrap_stop err), db1)
           | (Inr _, db1) \<Rightarrow> stored (DeleteDevice env3 i db1)))"

text \<open>\<open>Get\<close> and \<open>List\<close>; \<open>snapshot\<close> is the runtime's answer.\<close>

record 's DeviceView =
  dv_Device :: Device
  dv_PointCount :: int
  dv_Runtime :: 's

definition device_Get :: "Env \<Rightarrow> (int \<Rightarrow> service_error + 's) \<Rightarrow> int \<Rightarrow> Db \<Rightarrow> service_error + 's DeviceView" where
  "device_Get env snapshot i db =
     and_then (with_err FromStore (GetDevice env 0 i db)) (\<lambda>d.
     and_then (with_err FromStore (ListPoints env 1 i
       \<lparr>pf_Search = [], pf_RegType = [], pf_Limit = 1, pf_Offset = 0\<rparr> db)) (\<lambda>page.
     and_then (snapshot i) (\<lambda>s.
     Inr \<lparr>dv_Device = d, dv_PointCount = pg_Total page, dv_Runtime = s\<rparr>)))"

fun get_each :: "(int \<Rightarrow> service_error + 'v) \<Rightarrow> Device list \<Rightarrow> service_error + 'v list" where
  "get_each get [] = Inr []"
| "get_each get (d # ds) = and_then (get (d_ID d)) (\<lambda>v. and_then (get_each get ds) (\<lambda>vs. Inr (v # vs)))"

definition device_List :: "Env \<Rightarrow> Env \<Rightarrow> (int \<Rightarrow> service_error + 's) \<Rightarrow> Db \<Rightarrow> service_error + 's DeviceView list" where
  "device_List env1 env snapshot db =
     and_then (with_err FromStore (ListDevices env1 0 db)) (get_each (\<lambda>i. device_Get env snapshot i db))"

section \<open>Points\<close>

definition checked_point :: "Point \<Rightarrow> service_error + Point" where
  "checked_point p =
     (let p = p\<lparr>p_Description := TrimSpace (p_Description p)\<rparr> in
      if ValidatePoint p \<noteq> [] then Inl (Invalid (ValidatePoint p)) else Inr p)"

definition point_Create :: "Env \<Rightarrow> Env \<Rightarrow> int \<Rightarrow> Point \<Rightarrow> Db \<Rightarrow> (service_error + Point) \<times> Db" where
  "point_Create env1 env2 i p db =
     (case GetDevice env1 0 i db of
        Inl e \<Rightarrow> (Inl (FromStore e), db)
      | Inr _ \<Rightarrow>
          (case checked_point (p\<lparr>p_ID := 0, p_DeviceID := i\<rparr>) of
             Inl e \<Rightarrow> (Inl e, db)
           | Inr q \<Rightarrow> stored (CreatePoint env2 q db)))"

definition point_Update :: "Env \<Rightarrow> int \<Rightarrow> int \<Rightarrow> Point \<Rightarrow> Db \<Rightarrow> (service_error + Point) \<times> Db" where
  "point_Update env i k p db =
     (case checked_point (p\<lparr>p_ID := k, p_DeviceID := i\<rparr>) of
        Inl e \<Rightarrow> (Inl e, db)
      | Inr q \<Rightarrow> stored (UpdatePoint env q db))"

definition point_Delete :: "Env \<Rightarrow> int \<Rightarrow> int \<Rightarrow> Db \<Rightarrow> (service_error + unit) \<times> Db" where
  "point_Delete env i k db = stored (DeletePoint env i k db)"

fun check_ids :: "int list \<Rightarrow> int set \<Rightarrow> service_error option" where
  "check_ids [] seen = None"
| "check_ids (k # ks) seen =
     (if k < 1 then Some (Invalid [field_error ''ids'' ''IDs must be positive''])
      else if k \<in> seen then Some (Invalid [field_error ''ids'' ''IDs must be unique''])
      else check_ids ks (insert k seen))"

definition point_DeleteBatch :: "Env \<Rightarrow> Env \<Rightarrow> int \<Rightarrow> int list \<Rightarrow> Db \<Rightarrow> (service_error + nat) \<times> Db" where
  "point_DeleteBatch env1 env2 i ks db =
     (case GetDevice env1 0 i db of
        Inl e \<Rightarrow> (Inl (FromStore e), db)
      | Inr _ \<Rightarrow>
          if length ks < 1 \<or> 500 < length ks
          then (Inl (Invalid [field_error ''ids'' ''must contain 1 to 500 IDs'']), db)
          else
            (case check_ids ks {} of
               Some e \<Rightarrow> (Inl e, db)
             | None \<Rightarrow> stored (DeletePoints env2 i ks db)))"

definition point_List :: "Env \<Rightarrow> Env \<Rightarrow> int \<Rightarrow> PointFilter \<Rightarrow> Db \<Rightarrow> service_error + PointPage" where
  "point_List env1 env2 i f db =
     and_then (with_err FromStore (GetDevice env1 0 i db)) (\<lambda>_. with_err FromStore (ListPoints env2 0 i f db))"

datatype import_result =
    Imported nat
  | RowErrors "RowError list"
  | CsvFailed csv_error
  | ImportFailed service_error

definition point_Import :: "Env \<Rightarrow> Env \<Rightarrow> int \<Rightarrow> csv_item list \<Rightarrow> Db \<Rightarrow> import_result \<times> Db" where
  "point_Import env1 env2 i items db =
     (case GetDevice env1 0 i db of
        Inl e \<Rightarrow> (ImportFailed (FromStore e), db)
      | Inr _ \<Rightarrow>
          (case Parse items of
             Inl err \<Rightarrow> (CsvFailed err, db)
           | Inr (points, rowErrors) \<Rightarrow>
               if rowErrors \<noteq> [] then (RowErrors rowErrors, db)
               else
                 (case ReplacePoints env2 i points db of
                    (Inl e, db') \<Rightarrow> (ImportFailed (FromStore e), db')
                  | (Inr _, db') \<Rightarrow> (Imported (length points), db'))))"

definition point_Export :: "((Point \<Rightarrow> Point \<Rightarrow> bool) \<Rightarrow> Point list \<Rightarrow> Point list) \<Rightarrow> Env \<Rightarrow> Env \<Rightarrow> int \<Rightarrow>
    Db \<Rightarrow> service_error + string" where
  "point_Export srt env1 env2 i db =
     and_then (with_err FromStore (GetDevice env1 0 i db)) (\<lambda>_.
     and_then (with_err FromStore (ListAllPoints env2 0 i db)) (\<lambda>points. Inr (csv_text srt points)))"

section \<open>Kafka\<close>

record KafkaSettingsView =
  kv_Settings :: KafkaSettings
  kv_Status :: KafkaStatus

definition kafka_GetSettings :: "Env \<Rightarrow> KafkaStatus \<Rightarrow> Db \<Rightarrow> service_error + KafkaSettingsView" where
  "kafka_GetSettings env status db =
     and_then (with_err FromStore (GetKafkaSettings env 0 db)) (\<lambda>cfg.
     Inr \<lparr>kv_Settings = cfg\<lparr>k_SASLPassword := []\<rparr>, kv_Status = status\<rparr>)"

definition kafka_GetDeviceConfig :: "Env \<Rightarrow> int \<Rightarrow> Db \<Rightarrow> service_error + DeviceKafkaConfig" where
  "kafka_GetDeviceConfig env i db = with_err FromStore (GetDeviceKafkaConfig env 0 i db)"

text \<open>\<open>UpdateSettings\<close>; \<open>apply\<close> is \<open>ApplySettings\<close>. The last component is what it was called with.\<close>

definition merged_password :: "KafkaSettings \<Rightarrow> bool \<Rightarrow> KafkaSettings \<Rightarrow> KafkaSettings" where
  "merged_password current clear input =
     (if clear then input\<lparr>k_SASLPassword := []\<rparr>
      else if k_SASLPassword input = [] then input\<lparr>k_SASLPassword := k_SASLPassword current\<rparr> else input)"

definition kafka_UpdateSettings :: "Env \<Rightarrow> Env \<Rightarrow> (string \<Rightarrow> string) \<Rightarrow> path_ops \<Rightarrow> (string \<Rightarrow> bool) \<Rightarrow> string \<Rightarrow>
    (KafkaSettings \<Rightarrow> string + KafkaStatus) \<Rightarrow> KafkaSettings \<Rightarrow> bool \<Rightarrow> Db \<Rightarrow>
    (service_error + KafkaSettingsView) \<times> Db \<times> KafkaSettings option" where
  "kafka_UpdateSettings env1 env2 uni fp versionOk baseDir apply_settings input clear db =
     (case GetKafkaSettings env1 0 db of
        Inl e \<Rightarrow> (Inl (FromStore e), db, None)
      | Inr current \<Rightarrow>
          (case NormalizeSettings uni fp versionOk (merged_password current clear input) baseDir of
             Inl err \<Rightarrow> (Inl (InvalidKafka err), db, None)
           | Inr normalized \<Rightarrow>
               (case apply_settings normalized of
                  Inl err \<Rightarrow> (Inl (Failed (''apply Kafka settings: '' @ err)), db, Some normalized)
                | Inr status \<Rightarrow>
                    (case UpdateKafkaSettings env2 normalized db of
                       (Inl e, db') \<Rightarrow> (Inl (FromStore e), db', Some normalized)
                     | (Inr saved, db') \<Rightarrow>
                         (Inr \<lparr>kv_Settings = saved\<lparr>k_SASLPassword := []\<rparr>, kv_Status = status\<rparr>,
                          db', Some normalized)))))"

text \<open>\<open>UpdateDeviceConfig\<close>; the last component is what the publisher's \<open>ApplyDeviceConfig\<close> got.\<close>

definition kafka_UpdateDeviceConfig :: "Env \<Rightarrow> int \<Rightarrow> DeviceKafkaConfig \<Rightarrow> Db \<Rightarrow>
    (service_error + DeviceKafkaConfig) \<times> Db \<times> DeviceKafkaConfig option" where
  "kafka_UpdateDeviceConfig env i cfg db =
     (case ValidateDeviceConfig (cfg\<lparr>dk_DeviceID := i\<rparr>) of
        Some err \<Rightarrow> (Inl (InvalidPolicy err), db, None)
      | None \<Rightarrow>
          (case UpdateDeviceKafkaConfig env (cfg\<lparr>dk_DeviceID := i\<rparr>) db of
             (Inl e, db') \<Rightarrow> (Inl (FromStore e), db', None)
           | (Inr saved, db') \<Rightarrow> (Inr saved, db', Some saved)))"

section \<open>What the services let into the store\<close>

definition good_point :: "Point \<Rightarrow> bool" where
  "good_point p \<longleftrightarrow> ValidatePoint p = [] \<and> TrimSpace (p_Description p) = p_Description p"

definition valid_db :: "Db \<Rightarrow> bool" where
  "valid_db db \<longleftrightarrow> (\<forall>p\<in>set (db_points db). good_point p) \<and> (\<forall>d\<in>set (db_devices db). device_errors d = [])"

text \<open>
  The calls by which the services, and the runtime that keeps the enabled flag, change the store.
  \<open>Delete\<close> of a device is its two changes one after the other, so that other calls may come
  between them.
\<close>

inductive svc_step :: "Db \<Rightarrow> Db \<Rightarrow> bool" where
  Create: "device_Create env uni d db = (r, db') \<Longrightarrow> svc_step db db'"
| Update: "device_Update env uni i d db = (r, db') \<Longrightarrow> svc_step db db'"
| Enable: "SetDeviceEnabled env i b db = (r', db') \<Longrightarrow> svc_step db db'"
| Delete: "DeleteDevice env i db = (u, db') \<Longrightarrow> svc_step db db'"
| CreatePoint: "point_Create env env' i p db = (q, db') \<Longrightarrow> svc_step db db'"
| UpdatePoint: "point_Update env i k p db = (q, db') \<Longrightarrow> svc_step db db'"
| DeletePoint: "point_Delete env i k db = (u', db') \<Longrightarrow> svc_step db db'"
| DeleteBatch: "point_DeleteBatch env env' i ks db = (n, db') \<Longrightarrow> svc_step db db'"
| Import: "point_Import env env' i items db = (m, db') \<Longrightarrow> svc_step db db'"
| Settings: "kafka_UpdateSettings env env' uni fp versionOk baseDir apply_settings input clear db =
    (v, db', applied) \<Longrightarrow> svc_step db db'"
| Policy: "kafka_UpdateDeviceConfig env i cfg db = (c, db', applied') \<Longrightarrow> svc_step db db'"

lemma stored_eq: "stored r = (x, db') \<longleftrightarrow> x = with_err FromStore (fst r) \<and> snd r = db'"
  by (auto simp: stored_def)

lemma runtime_call_steps:
  assumes "runtime_call env busy runErr b i db = (r, db')"
  shows "svc_step\<^sup>*\<^sup>* db db'"
proof -
  have "svc_step db (snd (SetDeviceEnabled env i b db))" by (rule svc_step.Enable [OF prod.collapse [symmetric]])
  moreover have "db' = db \<or> db' = snd (SetDeviceEnabled env i b db)"
    using assms by (auto simp: runtime_call_def split: if_splits sum.splits prod.splits)
  ultimately show ?thesis by auto
qed

lemma device_Delete_steps:
  assumes "device_Delete env1 env2 env3 busy stopErr i db = (r, db')"
  shows "svc_step\<^sup>*\<^sup>* db db'"
proof -
  obtain x db1 where x: "runtime_call env2 busy stopErr False i db = (x, db1)" by fastforce
  have 1: "svc_step\<^sup>*\<^sup>* db db1" by (rule runtime_call_steps [OF x])
  have 2: "svc_step db1 (snd (DeleteDevice env3 i db1))" by (rule svc_step.Delete [OF prod.collapse [symmetric]])
  have "db' = db \<or> db' = db1 \<or> db' = snd (DeleteDevice env3 i db1)"
    using assms by (auto simp: device_Delete_def x stored_eq split: sum.splits)
  with 1 2 show ?thesis by (auto intro: rtranclp.rtrancl_into_rtrancl)
qed

lemma svc_step_db_step: "svc_step db db' \<Longrightarrow> db' = db \<or> db_step db db'"
proof (induction rule: svc_step.induct)
  case (Import env env' i items db m db')
  then show ?case
    by (auto simp: point_Import_def split: sum.splits prod.splits if_splits intro: db_step.ReplacePoints)
next
  case (Settings env env' uni fp versionOk baseDir apply_settings input clear db v db' applied)
  then show ?case
    by (auto simp: kafka_UpdateSettings_def split: sum.splits prod.splits intro: db_step.UpdateKafkaSettings)
next
  case (Policy env i cfg db c db' applied')
  then show ?case
    by (auto simp: kafka_UpdateDeviceConfig_def split: sum.splits option.splits prod.splits
        intro: db_step.UpdateDeviceKafkaConfig)
qed (auto simp: device_Create_def device_Update_def point_Create_def point_Update_def point_Delete_def
    point_DeleteBatch_def stored_eq split: sum.splits option.splits if_splits
    intro: db_step.intros [OF prod.collapse [symmetric]] db_step.intros)

section \<open>Only validated rows\<close>

lemma device_errors_loaded: "loaded d = loaded d' \<Longrightarrow> device_errors d = device_errors d'"
  by (simp add: loaded_def device_errors_def)

lemma good_point_portable: "portable p = portable q \<Longrightarrow> good_point p = good_point q"
  unfolding good_point_def by (metis ValidatePoint_portable portable_sel(2))

lemma device_errors_fields [simp]:
  "device_errors (d\<lparr>d_ID := i\<rparr>) = device_errors d" "device_errors (d\<lparr>d_Enabled := b\<rparr>) = device_errors d"
  "device_errors (d\<lparr>d_ConfigVersion := v\<rparr>) = device_errors d"
  "device_errors (d\<lparr>d_CreatedAt := t\<rparr>) = device_errors d" "device_errors (d\<lparr>d_UpdatedAt := t\<rparr>) = device_errors d"
  "device_errors (bump env d) = device_errors d"
  by (simp_all add: device_errors_def bump_def)

lemma update_devices_rows:
  assumes "update_devices f i db = Inr (n, db')" "d' \<in> set (db_devices db')"
  shows "\<exists>d\<in>set (db_devices db). d' = d \<or> d' = f d"
  using assms(1)
proof (rule update_devices_Inr)
  fix ds
  assume "ds = map (\<lambda>d. if d_ID d = i then f d else d) (db_devices db)" "db' = db\<lparr>db_devices := ds\<rparr>"
  with assms(2) show ?thesis by (auto split: if_splits)
qed

lemma valid_update_devices:
  assumes "update_devices f i db = Inr (n, db')" "valid_db db"
    and "\<And>d. device_errors d = [] \<Longrightarrow> device_errors (f d) = []"
  shows "valid_db db'"
proof -
  have "db_points db' = db_points db" using assms(1) by (auto simp: update_devices_def Let_def split: if_splits)
  with assms update_devices_rows [OF assms(1)] show ?thesis by (fastforce simp: valid_db_def)
qed

lemma bumpVersion_valid: "bumpVersion env n i tx = Inr tx' \<Longrightarrow> valid_db tx \<Longrightarrow> valid_db tx'"
  by (auto simp: bumpVersion_Inr elim!: valid_update_devices)

lemma insert_point_valid:
  assumes "insert_point now p db = Inr (k, tx)" "valid_db db" "good_point p"
  shows "valid_db tx"
proof -
  have "portable (p\<lparr>p_ID := k, p_CreatedAt := now, p_UpdatedAt := now\<rparr>) = portable p" by (simp add: portable_def)
  from good_point_portable [OF this] assms show ?thesis
    using insert_point_Inr [OF assms(1)] by (simp add: valid_db_def)
qed

lemma insert_points_valid:
  "insert_points env n i ps db = Inr tx \<Longrightarrow> valid_db db \<Longrightarrow> \<forall>p\<in>set ps. good_point p \<Longrightarrow> valid_db tx"
proof (induction ps arbitrary: n db)
  case (Cons p ps)
  then obtain k tx1 where step: "insert_point (en_now env) (p\<lparr>p_DeviceID := i\<rparr>) db = Inr (k, tx1)"
    and rest: "insert_points env (n + 1) i ps tx1 = Inr tx"
    by (auto simp: call_simps)
  have "portable (p\<lparr>p_DeviceID := i\<rparr>) = portable p" by (simp add: portable_def)
  from good_point_portable [OF this] Cons.prems(3) have "good_point (p\<lparr>p_DeviceID := i\<rparr>)" by simp
  with insert_point_valid [OF step Cons.prems(2)] have "valid_db tx1" by blast
  with Cons.IH [OF rest] Cons.prems show ?case by simp
qed simp

lemma update_points_valid:
  assumes "update_points now p db = Inr (n, tx)" "valid_db db" "good_point p"
  shows "valid_db tx"
proof -
  have same: "portable (p\<lparr>p_CreatedAt := t, p_UpdatedAt := now\<rparr>) = portable p" for t by (simp add: portable_def)
  have "db_devices tx = db_devices db"
    "q \<in> set (db_points tx) \<Longrightarrow> q \<in> set (db_points db) \<or> (\<exists>t. q = p\<lparr>p_CreatedAt := t, p_UpdatedAt := now\<rparr>)" for q
    using assms(1) by (auto simp: update_points_def Let_def split: if_splits)
  with assms(2,3) good_point_portable [OF same] show ?thesis by (fastforce simp: valid_db_def)
qed

lemma delete_points_valid: "delete_points sel db = (n, tx) \<Longrightarrow> valid_db db \<Longrightarrow> valid_db tx"
  by (auto simp: delete_points_def valid_db_def)

lemma CreatePoint_valid: "CreatePoint env p db = (r, db') \<Longrightarrow> valid_db db \<Longrightarrow> good_point p \<Longrightarrow> valid_db db'"
  by (auto simp: CreatePoint_def call_simps split: prod.splits dest!: bumpVersion_valid dest: insert_point_valid)

lemma UpdatePoint_valid: "UpdatePoint env p db = (r, db') \<Longrightarrow> valid_db db \<Longrightarrow> good_point p \<Longrightarrow> valid_db db'"
  by (auto simp: UpdatePoint_def call_simps split: prod.splits dest!: bumpVersion_valid dest: update_points_valid)

lemma DeletePoint_valid: "DeletePoint env i k db = (r, db') \<Longrightarrow> valid_db db \<Longrightarrow> valid_db db'"
  by (auto simp: DeletePoint_def call_simps split: prod.splits dest!: bumpVersion_valid dest: delete_points_valid)

lemma DeletePoints_valid: "DeletePoints env i ks db = (r, db') \<Longrightarrow> valid_db db \<Longrightarrow> valid_db db'"
  by (auto simp: DeletePoints_def Let_def call_simps split: prod.splits if_splits
      dest!: bumpVersion_valid dest: delete_points_valid)

lemma ReplacePoints_valid:
  assumes "ReplacePoints env i ps db = (r, db')" "valid_db db" "\<forall>p\<in>set ps. good_point p"
  shows "valid_db db'"
proof (cases r)
  case (Inl e)
  then show ?thesis using assms by (auto simp: ReplacePoints_def call_simps)
next
  case (Inr u)
  then obtain tx where tx: "insert_points env 5 i ps (snd (delete_points (\<lambda>p. p_DeviceID p = i) db)) = Inr tx"
    and b: "bumpVersion env 2 i tx = Inr db'"
    using assms(1) by (auto simp: ReplacePoints_Inr)
  have "valid_db (snd (delete_points (\<lambda>p. p_DeviceID p = i) db))"
    by (rule delete_points_valid [OF prod.collapse [symmetric] assms(2)])
  then have "valid_db tx" using insert_points_valid [OF tx] assms(3) by blast
  with b show ?thesis by (rule bumpVersion_valid)
qed

lemma checked_point_good: "checked_point p = Inr q \<Longrightarrow> good_point q"
  by (auto simp: checked_point_def good_point_def Let_def split: if_splits)

lemma imported_points_good:
  assumes "Parse items = Inr (points, [])"
  shows "\<forall>p\<in>set points. good_point p"
proof -
  obtain header rows where "points = map row_point rows" and v: "\<forall>p\<in>set points. ValidatePoint p = []"
    using Parse_sound_lemma [OF assms] by blast
  moreover have "TrimSpace (p_Description (row_point r)) = p_Description (row_point r)" for r
    by (simp add: row_point_def parseRecord_def Let_def)
  ultimately show ?thesis unfolding good_point_def by auto
qed

lemma normalizeDevice_good: "normalizeDevice uni d = Inr d' \<Longrightarrow> device_errors d' = []"
  by (auto simp: normalizeDevice_def Let_def split: if_splits)

lemma CreateDevice_valid:
  assumes "CreateDevice env d db = (r, db')" "valid_db db" "device_errors d = []"
  shows "valid_db db'"
proof -
  have "db' = db \<or> (\<exists>i tx. insert_device (en_now env) d db = Inr (i, tx) \<and> insert_config (en_now env) i tx = Inr db')"
    using assms(1) by (auto simp: CreateDevice_def call_simps split: prod.splits)
  then show ?thesis
    using assms(2,3) by (auto simp: valid_db_def dest!: insert_device_Inr(2) insert_config_Inr)
qed

lemma UpdateDevice_valid:
  assumes "UpdateDevice env d db = (r, db')" "valid_db db" "device_errors d = []"
  shows "valid_db db'"
proof -
  let ?f = "\<lambda>r. r\<lparr>d_Name := d_Name d, d_Address := d_Address d, d_Port := d_Port d, d_SlaveID := d_SlaveID d,
    d_ByteOrder := d_ByteOrder d, d_TimeoutSec := d_TimeoutSec d, d_ScanIntervalMs := d_ScanIntervalMs d,
    d_ConfigVersion := d_ConfigVersion r + 1, d_UpdatedAt := en_now env\<rparr>"
  have "device_errors (?f r) = device_errors d" for r by (rule device_errors_loaded) (simp add: loaded_def)
  then have "update_devices ?f (d_ID d) db = Inr (n, db') \<Longrightarrow> valid_db db'" for n
    using valid_update_devices [of ?f "d_ID d" db n db'] assms(2,3) by simp
  then show ?thesis using assms(1,2) by (auto simp: UpdateDevice_def call_simps)
qed

lemma SetDeviceEnabled_valid:
  assumes "SetDeviceEnabled env i b db = (r, db')" "valid_db db"
  shows "valid_db db'"
proof -
  have "update_devices (\<lambda>r. r\<lparr>d_Enabled := b, d_UpdatedAt := en_now env\<rparr>) i db = Inr (n, db') \<Longrightarrow> valid_db db'" for n
    using valid_update_devices [OF _ assms(2)] by fastforce
  then show ?thesis using assms by (auto simp: SetDeviceEnabled_def call_simps)
qed

lemma DeleteDevice_valid: "DeleteDevice env i db = (r, db') \<Longrightarrow> valid_db db \<Longrightarrow> valid_db db'"
  by (auto simp: DeleteDevice_def call_simps delete_devices_def valid_db_def)

lemma svc_step_valid:
  assumes "svc_step db db'" "valid_db db"
  shows "valid_db db'"
  using assms(1)
proof cases
  case (Create env uni d r)
  then show ?thesis using assms(2) normalizeDevice_good CreateDevice_valid [OF prod.collapse [symmetric]]
    by (auto simp: device_Create_def stored_eq split: sum.splits)
next
  case (Update env uni i d r)
  then show ?thesis using assms(2) normalizeDevice_good UpdateDevice_valid [OF prod.collapse [symmetric]]
    by (auto simp: device_Update_def stored_eq split: sum.splits)
next
  case (Enable env i b r)
  then show ?thesis using assms(2) SetDeviceEnabled_valid by blast
next
  case (Delete env i u)
  then show ?thesis using assms(2) DeleteDevice_valid by blast
next
  case (CreatePoint env env' i p q)
  then show ?thesis using assms(2) checked_point_good CreatePoint_valid [OF prod.collapse [symmetric]]
    by (auto simp: point_Create_def stored_eq split: sum.splits)
next
  case (UpdatePoint env i k p q)
  then show ?thesis using assms(2) checked_point_good UpdatePoint_valid [OF prod.collapse [symmetric]]
    by (auto simp: point_Update_def stored_eq split: sum.splits)
next
  case (DeletePoint env i k u)
  then show ?thesis using assms(2) DeletePoint_valid [OF prod.collapse [symmetric]]
    by (auto simp: point_Delete_def stored_eq)
next
  case (DeleteBatch env env' i ks n)
  then show ?thesis using assms(2) DeletePoints_valid [OF prod.collapse [symmetric]]
    by (auto simp: point_DeleteBatch_def stored_eq split: sum.splits option.splits if_splits)
next
  case (Import env env' i items m)
  then show ?thesis using assms(2) imported_points_good [of items] ReplacePoints_valid
    by (auto simp: point_Import_def split: sum.splits prod.splits if_splits)
next
  case (Settings env env' uni fp versionOk baseDir apply_settings input clear v applied)
  have "db' = db \<or> (\<exists>s t. db' = db\<lparr>db_settings := s, db_brokers := t\<rparr>)"
    using Settings
    by (auto simp: kafka_UpdateSettings_def UpdateKafkaSettings_def call_simps split: sum.splits prod.splits)
  then show ?thesis using assms(2) by (auto simp: valid_db_def)
next
  case (Policy env i cfg c applied)
  then have "db' = db \<or> (\<exists>cs. db' = db\<lparr>db_configs := cs\<rparr>)"
    by (auto simp: kafka_UpdateDeviceConfig_def UpdateDeviceKafkaConfig_def call_simps update_configs_def Let_def
        split: sum.splits prod.splits option.splits if_splits)
  then show ?thesis using assms(2) by (auto simp: valid_db_def)
qed

lemma svc_steps_db:
  assumes "svc_step\<^sup>*\<^sup>* db db'"
  shows "db_step\<^sup>*\<^sup>* db db'"
  using assms
proof (induction rule: rtranclp_induct)
  case (step y z)
  then show ?case using svc_step_db_step [OF step.hyps(2)] by (auto intro: rtranclp.rtrancl_into_rtrancl)
qed simp

interpretation svc_history: kept_by_steps svc_step valid_db
  by unfold_locales (rule svc_step_valid)

lemmas svc_steps_valid = svc_history.all_kept

text \<open>The histories of a database that was new when it was first opened.\<close>

definition fresh :: "Db \<Rightarrow> bool" where
  "fresh db \<longleftrightarrow> db_devices db = [] \<and> db_points db = [] \<and> db_configs db = [] \<and> db_device_seq db = 0 \<and>
     db_point_seq db = 0 \<and> db_versions db = []"

definition history :: "Db \<Rightarrow> bool" where
  "history db \<longleftrightarrow> (\<exists>db0 env db1. fresh db0 \<and> migrate env db0 = Inr db1 \<and> svc_step\<^sup>*\<^sup>* db1 db)"

lemma history_inv:
  assumes "history db"
  shows "store_inv db" "valid_db db"
proof -
  obtain db0 env db1 where h: "fresh db0" "migrate env db0 = Inr db1" "svc_step\<^sup>*\<^sup>* db1 db"
    using assms by (auto simp: history_def)
  have "tables_inv db0" "4 \<notin> set (db_versions db0)"
    using h(1) by (simp_all add: fresh_def tables_inv_def devices_wf_def points_wf_def configs_wf_def)
  from migrate_store_inv [OF this h(2)] show "store_inv db" by (rule steps_inv [OF svc_steps_db [OF h(3)]])
  have "valid_db db1" using migrate_Inr(2,5) [OF h(2)] h(1) by (auto simp: valid_db_def fresh_def)
  then show "valid_db db" by (rule svc_steps_valid [OF h(3)])
qed

lemma mem_points_of: "p \<in> set (points_of i db) \<Longrightarrow> p \<in> set (db_points db)"
  by (simp add: points_of_def)

lemma services_valid_points:
  "history db \<Longrightarrow> p \<in> set (db_points db) \<Longrightarrow> ValidatePoint p = [] \<and> TrimSpace (p_Description p) = p_Description p"
  using history_inv(2) by (simp add: valid_db_def good_point_def)

section \<open>Properties\<close>

text \<open>
  C11: whatever the services are asked to do, in whatever order and with whatever database
  failures, every point in the store is one that validation accepts, and every device has a name,
  an address, a port, a slave address that fits the wire, a byte order, a timeout and a scan
  interval within their limits.
\<close>

theorem services_admit_only_valid:
  assumes "history db"
  shows "(\<forall>p\<in>set (db_points db). ValidatePoint p = [] \<and> TrimSpace (p_Description p) = p_Description p) \<and>
    (\<forall>d\<in>set (db_devices db). d_Name d \<noteq> [] \<and> length (d_Name d) \<le> 128 \<and> d_Address d \<noteq> [] \<and>
       d_Port d \<in> {1 .. 65535} \<and> uint (word_of_int (d_SlaveID d) :: u8) = d_SlaveID d \<and>
       d_ByteOrder d \<in> {''ABCD'', ''DCBA'', ''CDAB'', ''BADC''} \<and> d_TimeoutSec d \<in> {1 .. 300} \<and>
       d_ScanIntervalMs d \<in> {100 .. 3600000})"
proof -
  have "d_Name d \<noteq> [] \<and> length (d_Name d) \<le> 128 \<and> d_Address d \<noteq> [] \<and>
       d_Port d \<in> {1 .. 65535} \<and> uint (word_of_int (d_SlaveID d) :: u8) = d_SlaveID d \<and>
       d_ByteOrder d \<in> {''ABCD'', ''DCBA'', ''CDAB'', ''BADC''} \<and> d_TimeoutSec d \<in> {1 .. 300} \<and>
       d_ScanIntervalMs d \<in> {100 .. 3600000}" if "device_errors d = []" for d
  proof -
    have e: "1 \<le> d_SlaveID d" "d_SlaveID d \<le> 247" using that by (simp_all add: device_errors_def)
    have "uint (word_of_int (d_SlaveID d) :: u8) = d_SlaveID d" using e by (simp add: uint_word_of_int)
    moreover have "d_ByteOrder d \<in> {''ABCD'', ''DCBA'', ''CDAB'', ''BADC''}"
      using that unfolding device_errors_def append_is_Nil_conv when_err_Nil by blast
    ultimately show ?thesis
      using that unfolding device_errors_def append_is_Nil_conv when_err_Nil by auto
  qed
  with history_inv(2) [OF assms] show ?thesis unfolding valid_db_def good_point_def by blast
qed

lemma ListAllPoints_Inr:
  assumes "ListAllPoints env n i db = Inr ps" "length (db_points db) < 2 ^ 63"
  shows "mset ps = mset (points_of i db)"
proof -
  have sel: "pointWhere env i \<lparr>pf_Search = [], pf_RegType = [], pf_Limit = l, pf_Offset = 0\<rparr> = (\<lambda>p. p_DeviceID p = i)"
    for l by (simp add: pointWhere_def fun_eq_iff)
  have "length (filter (\<lambda>p. p_DeviceID p = i) (db_points db)) < 2 ^ 63"
    using length_filter_le [of "\<lambda>p. p_DeviceID p = i" "db_points db"] assms(2) by (rule order_le_less_trans)
  then have "length (filter (\<lambda>p. p_DeviceID p = i) (db_points db)) \<le> nat (2 ^ 63 - 1)" by simp
  then show ?thesis
    using assms(1) by (auto simp: ListAllPoints_def ListPoints_def call_simps sel points_of_def)
qed

text \<open>
  C30: when no statement of the database fails, exporting the points of one device, at least one, and
  importing the exported bytes into another device, or the same, gives the second device exactly the
  points of the first and changes no other device, whatever sorting routine exports them, provided
  that in no description a carriage return stands before a line feed; that one is lost.
\<close>

theorem export_import_copies:
  assumes "history db" "length (db_points db) < 2 ^ 63" "slice_sort srt" "points_of i db \<noteq> []"
    and "point_Export srt env1 env2 i db = Inr text"
    and "\<forall>p\<in>set (points_of i db). crlf_lf (p_Description p) = p_Description p"
    and "device_row j db \<noteq> None" "\<And>n. en_fault env3 n = None" "\<And>n. en_fault env4 n = None"
    and "point_Import env3 env4 j (csv_items None text) db = (res, db')"
  shows "res = Imported (length (points_of i db)) \<and>
    mset (map portable (points_of j db')) = mset (map portable (points_of i db)) \<and>
    (\<forall>k. k \<noteq> j \<longrightarrow> points_of k db' = points_of k db)"
proof -
  obtain ps where ps: "ListAllPoints env2 0 i db = Inr ps" and bytes: "text = csv_text srt ps"
    using assms(5) by (auto simp: point_Export_def and_then_Inr)
  have m: "mset ps = mset (points_of i db)" by (rule ListAllPoints_Inr [OF ps assms(2)])
  then have s: "set ps = set (points_of i db)" by (metis set_mset_mset)
  have good: "\<forall>p\<in>set ps. ValidatePoint p = [] \<and> TrimSpace (p_Description p) = p_Description p \<and>
      crlf_lf (p_Description p) = p_Description p"
    using services_valid_points [OF assms(1)] assms(6) s mem_points_of by metis
  have tags: "distinct (map p_TagName ps)"
    using points_of_tags history_inv(1) [OF assms(1)] m
    by (metis mset_eq_imp_distinct_iff mset_map store_inv_def)
  have ne: "ps \<noteq> []" using m assms(4) by auto
  let ?out = "map portable (srt export_less ps)"
  have parse: "Parse (csv_items None text) = Inr (?out, [])" and ms: "mset (srt export_less ps) = mset ps"
    using export_import_text [OF assms(3) ne good tags] bytes by blast+
  have "mset (map p_TagName ?out) = mset (map p_TagName ps)"
    using arg_cong [OF ms, of "image_mset p_TagName"] by (simp add: comp_def flip: mset_map)
  then have dist: "distinct (map p_TagName ?out)" using tags by (metis mset_eq_imp_distinct_iff)
  have dev: "GetDevice env3 0 j db = Inr d" if "device_row j db = Some d" for d
    using that assms(8) by (simp add: GetDevice_def row_or_def)
  obtain r db2 where rep: "ReplacePoints env4 j ?out db = (r, db2)" by fastforce
  from ReplacePoints_lemma [OF history_inv(1) [OF assms(1)] rep] assms(7,9) dist
  have r: "r = Inr ()" "map portable (points_of j db2) = map portable ?out"
    "\<forall>k. k \<noteq> j \<longrightarrow> points_of k db2 = points_of k db" by auto
  have "res = Imported (length ?out)" "db' = db2"
    using assms(7,10) parse rep r(1) dev by (auto simp: point_Import_def)
  moreover have "length ?out = length (points_of i db)"
    using arg_cong [OF ms, of size] arg_cong [OF m, of size] by simp
  moreover have "portable (portable p) = portable p" for p by (simp add: portable_def)
  then have "mset (map portable ?out) = mset (map portable (points_of i db))"
    using ms m by (simp add: comp_def)
  ultimately show ?thesis using r by simp
qed

text \<open>
  Updating the Kafka settings keeps the saved password when none is given, clears it only when
  asked to, never shows it, and on success the publisher runs with the very settings that are
  saved.
\<close>

lemma kafka_password_kept:
  assumes "kafka_UpdateSettings env1 env2 uni fp versionOk baseDir apply_settings input clear db =
      (Inr view, db', applied)"
    and "\<And>bs. en_unmarshal env2 (en_marshal env2 bs) = Inr bs"
  shows "k_SASLPassword (kv_Settings view) = [] \<and>
    k_SASLPassword (db_settings db') =
      (if clear then [] else if k_SASLPassword input = [] then k_SASLPassword (db_settings db)
       else k_SASLPassword input) \<and>
    (\<exists>s. applied = Some s \<and> apply_settings s = Inr (kv_Status view) \<and> settings_ok versionOk s \<and>
       GetKafkaSettings env2 2 db' = Inr (s\<lparr>k_UpdatedAt := en_now env2\<rparr>))"
proof -
  from assms(1) obtain current norm saved where
      cur: "GetKafkaSettings env1 0 db = Inr current"
    and n: "NormalizeSettings uni fp versionOk (merged_password current clear input) baseDir = Inr norm"
    and ap: "apply_settings norm = Inr (kv_Status view)" "applied = Some norm"
    and up: "UpdateKafkaSettings env2 norm db = (Inr saved, db')"
    and v: "kv_Settings view = saved\<lparr>k_SASLPassword := []\<rparr>"
    by (auto simp: kafka_UpdateSettings_def split: sum.splits prod.splits)
  have pw: "k_SASLPassword norm = k_SASLPassword (merged_password current clear input)"
    and ok: "settings_ok versionOk norm"
    using NormalizeSettings_lemma [OF n] by simp_all
  have c: "k_SASLPassword current = k_SASLPassword (db_settings db)"
    using cur by (auto simp: GetKafkaSettings_def and_then_Inr row_or_def split: option.splits)
  have db': "db_settings db' = norm\<lparr>k_Brokers := [], k_UpdatedAt := en_now env2\<rparr>"
    "db_brokers db' = en_marshal env2 (k_Brokers norm)" "GetKafkaSettings env2 2 db' = Inr saved"
    using up by (auto simp: UpdateKafkaSettings_def call_simps requireAffected_def exec_def
        dest!: sym [of "Inr saved"] split: option.splits)
  have "saved = norm\<lparr>k_UpdatedAt := en_now env2\<rparr>"
    using db' assms(2) by (auto simp: GetKafkaSettings_def and_then_Inr row_or_def split: option.splits)
  with ap ok db' v pw c show ?thesis by (simp add: merged_password_def)
qed

section \<open>Witnesses\<close>

lemma opened_history: "svc_step\<^sup>*\<^sup>* opened_db db \<Longrightarrow> history db"
  unfolding history_def
  by (rule exI [of _ empty_db], rule exI [of _ quiet], rule exI [of _ opened_db])
    (simp add: migrate_empty, simp add: empty_db_def fresh_def)

lemma plc_strings:
  "TrimSpace ''plc'' = ''plc''" "TrimSpace ''10.0.0.7'' = ''10.0.0.7''" "TrimSpace ''ABCD'' = ''ABCD''"
  by (rule TrimSpace_id; simp add: ascii_word_char_def)+

lemma plc_upper: "ToUpper (\<lambda>s. s) ''ABCD'' = ''ABCD''"
  by code_simp

lemma plc_normal: "normalizeDevice (\<lambda>s. s) plc = Inr plc"
  by (simp add: normalizeDevice_def trimmed_device_def plc_def plc_strings plc_upper device_errors_def when_err_def)

lemma plc_db_step: "svc_step opened_db plc_db"
proof (rule svc_step.Create)
  have "plc\<lparr>d_Enabled := False\<rparr> = plc" by (simp add: plc_def)
  then show "device_Create quiet (\<lambda>s. s) plc opened_db = (with_err FromStore (fst (CreateDevice quiet plc opened_db)), plc_db)"
    by (simp add: device_Create_def plc_normal stored_def plc_db_def)
qed

definition temperature_db :: Db where
  "temperature_db = snd (point_Import quiet quiet 1 (csv_items None (csv_text insertion_sort [temperature])) plc_db)"

lemma temperature_history: "history temperature_db"
  by (rule opened_history)
    (use plc_db_step svc_step.Import [OF prod.collapse [symmetric]] in
      \<open>auto simp: temperature_db_def intro: rtranclp.rtrancl_into_rtrancl\<close>)

theorem services_admit_only_valid_witness: "filter (\<lambda>p. ValidatePoint p \<noteq> []) (db_points temperature_db) = []"
  using services_admit_only_valid [OF temperature_history] by (simp add: filter_empty_conv)

lemma temperature_ok: "ValidatePoint temperature = []" "TrimSpace [] = []"
proof -
  show t: "TrimSpace [] = []" using length_TrimSpace [of "[]"] by simp
  show "ValidatePoint temperature = []"
    unfolding ValidatePoint_iff_admissible point_admissible_def
    using le_trans [OF RuneCount_le_length length_TrimSpace, of "[]"]
    by (simp add: temperature_def IsRegTypeBit_def isValidTagName_def tag_first_char_def validDataTypes_def
        point_bits_def field_length_def TypeBitWidth_def whole_value_type_def point_registers_def)
qed

lemma temperature_sort: "insertion_sort lt [x] = [x]"
  by (simp add: insertion_sort_def)

lemma temperature_replace: "snd (ReplacePoints quiet 1 [temperature] plc_db) = temperature_db"
  "points_of 1 temperature_db \<noteq> []" "length (db_points temperature_db) = 1"
  "map portable (points_of 1 temperature_db) = [temperature]"
proof -
  have p: "portable temperature = temperature" by (simp add: portable_def temperature_def)
  have parse: "Parse (csv_items None (csv_text insertion_sort [temperature])) = Inr ([temperature], [])"
    using export_import_text [OF go_sort.slice_sort_axioms, of "[temperature]"] temperature_ok
    by (simp add: temperature_sort p) (simp add: temperature_def)
  obtain d where d: "device_row 1 plc_db = Some d" using plc_row by blast
  have get: "GetDevice quiet 0 1 plc_db = Inr d" using d by (simp add: GetDevice_def row_or_def quiet_def)
  obtain r db2 where rep: "ReplacePoints quiet 1 [temperature] plc_db = (r, db2)" by fastforce
  from ReplacePoints_lemma [OF plc_db_inv rep] d
  have r: "r = Inr ()" "map portable (points_of 1 db2) = [temperature]"
    "\<forall>j. j \<noteq> 1 \<longrightarrow> points_of j db2 = points_of j plc_db" by (auto simp: quiet_def p)
  have db2: "temperature_db = db2"
    by (simp add: temperature_db_def point_Import_def get parse rep r(1))
  show "snd (ReplacePoints quiet 1 [temperature] plc_db) = temperature_db" by (simp add: db2 rep)
  show ne: "points_of 1 temperature_db \<noteq> []" using r(2) by (auto simp: db2)
  show "map portable (points_of 1 temperature_db) = [temperature]" using r(2) by (simp add: db2)
  have "\<forall>p\<in>set (db_points db2). p_DeviceID p = 1"
  proof
    fix p assume p: "p \<in> set (db_points db2)"
    have "points_of j db2 = []" if "j \<noteq> 1" for j
      using r(3) that by (simp add: points_of_def plc_db_eq opened_db_def empty_db_def)
    with p show "p_DeviceID p = 1" by (auto simp: points_of_def filter_empty_conv)
  qed
  then have "points_of 1 db2 = db_points db2" by (simp add: points_of_def)
  with arg_cong [OF r(2), of length] show "length (db_points temperature_db) = 1" by (simp add: db2)
qed

lemma temperature_portable: "p \<in> set (points_of 1 temperature_db) \<Longrightarrow> p_RegType p = ''HoldingReg''"
  using arg_cong [OF temperature_replace(4), of "\<lambda>ps. p_RegType ` set ps"]
  by (auto simp: image_image temperature_def)

lemma temperature_text:
  "\<forall>p\<in>set (points_of 1 temperature_db). crlf_lf (p_Description p) = p_Description p"
proof
  fix p assume "p \<in> set (points_of 1 temperature_db)"
  then have "portable p \<in> set [temperature]" using temperature_replace(4) by (metis image_eqI set_map)
  then have "p_Description (portable p) = p_Description temperature" by simp
  then show "crlf_lf (p_Description p) = p_Description p" by (simp add: temperature_def)
qed

lemma temperature_device: "device_row 1 temperature_db \<noteq> None"
proof -
  have "store_inv temperature_db" by (rule history_inv(1) [OF temperature_history])
  moreover obtain p where "p \<in> set (points_of 1 temperature_db)" using temperature_replace(2) by fastforce
  ultimately show ?thesis
    by (auto simp: store_inv_def tables_inv_def points_wf_def points_of_def device_row_None)
qed

theorem export_import_copies_witness:
  "\<exists>rows res db'. point_Export insertion_sort quiet quiet 1 temperature_db = Inr rows \<and>
     point_Import quiet quiet 1 (csv_items None rows) temperature_db = (res, db') \<and>
     mset (map portable (points_of 1 db')) = mset (map portable (points_of 1 temperature_db))"
proof -
  obtain d where "device_row 1 temperature_db = Some d" using temperature_device by blast
  then have "\<exists>rows. point_Export insertion_sort quiet quiet 1 temperature_db = Inr rows"
    by (simp add: point_Export_def GetDevice_def row_or_def ListAllPoints_def ListPoints_def exec_def quiet_def)
  then obtain rows where rows: "point_Export insertion_sort quiet quiet 1 temperature_db = Inr rows" by blast
  obtain res db' where imp: "point_Import quiet quiet 1 (csv_items None rows) temperature_db = (res, db')" by fastforce
  have "length (db_points temperature_db) < 2 ^ 63" by (simp add: temperature_replace(3))
  from export_import_copies [OF temperature_history this go_sort.slice_sort_axioms temperature_replace(2) rows
      temperature_text temperature_device _ _ imp] rows imp show ?thesis by (auto simp: quiet_def)
qed

text \<open>A text of a list of strings that can be read back, as the JSON text can.\<close>

fun write_list :: "string list \<Rightarrow> string" where
  "write_list [] = []"
| "write_list (s # ss) = concat (map (\<lambda>c. [CHR ''c'', c]) s) @ CHR ''.'' # write_list ss"

fun read_list :: "string \<Rightarrow> string \<Rightarrow> string list" where
  "read_list acc [] = []"
| "read_list acc [x] = (if x = CHR ''.'' then [acc] else [])"
| "read_list acc (x # c # rest) =
     (if x = CHR ''.'' then acc # read_list [] (c # rest) else read_list (acc @ [c]) rest)"

lemma read_list_chars:
  "read_list acc (concat (map (\<lambda>c. [CHR ''c'', c]) s) @ CHR ''.'' # rest) = (acc @ s) # read_list [] rest"
  by (induction s arbitrary: acc) (cases rest; simp)+

lemma read_write_list: "read_list [] (write_list ss) = ss"
  by (induction ss) (simp_all add: read_list_chars)

definition lettered :: Env where
  "lettered = quiet\<lparr>en_marshal := write_list, en_unmarshal := (\<lambda>t. Inr (read_list [] t))\<rparr>"

theorem kafka_password_kept_witness:
  "\<exists>view db' applied. kafka_UpdateSettings lettered lettered id unix_paths (\<lambda>_. True) ''/b''
      (\<lambda>_. Inr \<lparr>ks_State = ''online'', ks_LastError = [], ks_DroppedMessages = 0\<rparr>)
      sample_settings False opened_db = (Inr view, db', applied) \<and> k_SASLPassword (db_settings db') = ''pw''"
proof -
  let ?call = "kafka_UpdateSettings lettered lettered id unix_paths (\<lambda>_. True) ''/b''
      (\<lambda>_. Inr \<lparr>ks_State = ''online'', ks_LastError = [], ks_DroppedMessages = 0\<rparr>) sample_settings False opened_db"
  have pw: "k_SASLPassword sample_settings = ''pw''" by (simp add: sample_settings_def)
  have cur: "\<exists>c. GetKafkaSettings lettered 0 opened_db = Inr c"
    by (simp add: GetKafkaSettings_def row_or_def lettered_def quiet_def)
  have up: "\<exists>saved db'. UpdateKafkaSettings lettered s opened_db = (Inr saved, db')" for s
    by (simp add: UpdateKafkaSettings_def transaction_def exec_def requireAffected_def GetKafkaSettings_def
        row_or_def lettered_def quiet_def)
  obtain saved db1 where "UpdateKafkaSettings lettered (sample_settings\<lparr>k_SSLCAPath := ''.'',
      k_SSLCertificatePath := ''.'', k_SSLKeyPath := ''.''\<rparr>) opened_db = (Inr saved, db1)"
    using up by blast
  then have "\<exists>view db' applied. ?call = (Inr view, db', applied)"
    using cur by (auto simp: kafka_UpdateSettings_def merged_password_def pw sample_normalized)
  then obtain view db' applied where call: "?call = (Inr view, db', applied)" by blast
  have codec: "en_unmarshal lettered (en_marshal lettered bs) = Inr bs" for bs
    by (simp add: lettered_def read_write_list)
  from kafka_password_kept [OF call codec] call show ?thesis by (auto simp: pw)
qed

end
