(* ===== verification/StoreErrors.thy ===== *)
theory StoreErrors
  imports StoreInv
begin

text \<open>
  The errors of the store when the database itself works: a call that is refused, because a row is
  missing or a constraint is violated, changes nothing.
\<close>

definition calm :: "Env \<Rightarrow> bool" where
  "calm env \<longleftrightarrow> (\<forall>n. en_fault env n = None)"

lemma calm_simps [simp]:
  assumes "calm env"
  shows "exec env n r = r"
    and "requireAffected env n operation k = (if k = 0 then Inl (ErrNotFound operation) else Inr ())"
    and "row_or env n operation x = (case x of None \<Rightarrow> Inl (ErrNotFound operation) | Some y \<Rightarrow> Inr y)"
  using assms by (simp_all add: calm_def exec_def requireAffected_def row_or_def mapError_def cong: option.case_cong)

lemma with_err_Inl: "with_err f r = Inl e \<longleftrightarrow> (\<exists>e'. r = Inl e' \<and> e = f e')"
  by (cases r) auto

text \<open>A transaction whose answer cannot fail after the commit.\<close>

lemma transaction_refused:
  assumes "transaction db tx ans = (Inl e, db')" "\<And>x db1. tx = Inr (x, db1) \<Longrightarrow> ans x db1 = Inl e \<Longrightarrow> db1 = db"
  shows "db' = db"
  using assms by (auto simp: transaction_eq)

lemma map_if_none: "filter P xs = [] \<Longrightarrow> map (\<lambda>x. if P x then f x else x) xs = xs"
  by (induction xs) (auto split: if_splits)

lemma find_filter: "find P xs = None \<longleftrightarrow> filter P xs = []"
  by (induction xs) auto

lemma CreateDevice_refused:
  assumes "calm env" "CreateDevice env d db = (Inl e, db')"
  shows "db' = db"
  using assms(2) unfolding CreateDevice_def
proof (rule transaction_refused)
  fix i tx
  assume t: "and_then (with_err (wrapped ''begin create device'') (exec env 0 (Inr db))) (\<lambda>tx.
        and_then (with_err (\<lambda>e. mapError env ''create device'' (SqlText e))
          (exec env 1 (insert_device (en_now env) d tx))) (\<lambda>(i, tx).
        and_then (with_err (wrapped ''create device ID'') (exec env 2 (Inr i))) (\<lambda>i.
        and_then (with_err (\<lambda>e. mapError env ''create device Kafka config'' (SqlText e))
          (exec env 3 (insert_config (en_now env) i tx))) (\<lambda>tx.
        with_err (wrapped ''commit create device'') (exec env 4 (Inr (i, tx))))))) = Inr (i, tx)"
    and g: "GetDevice env 5 i tx = Inl e"
  from t assms(1) have "i \<in> d_ID ` set (db_devices tx)"
    by (auto simp: and_then_Inr insert_device_def insert_config_def Let_def split: if_splits)
  then have "device_row i tx \<noteq> None" by (simp add: device_row_None)
  with g assms(1) show "tx = db" by (auto simp: GetDevice_def)
qed

lemma update_devices_row:
  assumes "update_devices f i db = Inr (n, db')" "\<And>d. d_ID (f d) = d_ID d"
  shows "n = 0 \<Longrightarrow> db' = db" "n \<noteq> 0 \<Longrightarrow> device_row i db' \<noteq> None"
proof -
  obtain ds where ds: "ds = map (\<lambda>d. if d_ID d = i then f d else d) (db_devices db)" "db' = db\<lparr>db_devices := ds\<rparr>"
    "n = length (filter (\<lambda>d. d_ID d = i) (db_devices db))"
    using assms(1) by (rule update_devices_Inr)
  have "d_ID ` set ds = d_ID ` set (db_devices db)" unfolding ds(1) by (rule image_keep) (simp add: assms(2))
  then show "n \<noteq> 0 \<Longrightarrow> device_row i db' \<noteq> None"
    using ds(3) by (auto simp: device_row_None ds(2) filter_empty_conv)
  show "n = 0 \<Longrightarrow> db' = db" using ds map_if_none [of "\<lambda>d. d_ID d = i" "db_devices db" f] by simp
qed

lemma UpdateDevice_refused:
  assumes "calm env" "UpdateDevice env d db = (Inl e, db')"
  shows "db' = db"
  using assms(2) unfolding UpdateDevice_def
  by (rule transaction_refused)
    (use assms(1) in \<open>auto simp: GetDevice_def dest: update_devices_row split: if_splits option.splits\<close>)

lemma SetDeviceEnabled_refused:
  assumes "calm env" "SetDeviceEnabled env i b db = (Inl e, db')"
  shows "db' = db"
  using assms(2) unfolding SetDeviceEnabled_def
  by (rule transaction_refused)
    (use assms(1) in \<open>auto simp: GetDevice_def dest: update_devices_row split: if_splits option.splits\<close>)

lemma filter_other: "(\<And>x. x \<in> set xs \<Longrightarrow> \<not> P x) \<Longrightarrow> filter (\<lambda>x. \<not> P x) xs = xs"
  by (simp add: filter_id_conv)

lemma DeleteDevice_refused:
  assumes "calm env" "store_inv db" "DeleteDevice env i db = (Inl e, db')"
  shows "db' = db"
  using assms(3) unfolding DeleteDevice_def
proof (rule transaction_refused)
  fix n db1
  assume d: "with_err (\<lambda>e. mapError env ''delete device'' (SqlText e)) (exec env 0 (Inr (delete_devices i db))) = Inr (n, db1)"
    and r: "requireAffected env 1 ''delete device'' n = Inl e"
  have n: "n = 0" "delete_devices i db = (n, db1)" using d r assms(1) by (auto split: if_splits)
  then have none: "i \<notin> d_ID ` set (db_devices db)" by (auto simp: delete_devices_def filter_empty_conv)
  have "p_DeviceID p \<noteq> i" if "p \<in> set (db_points db)" for p
    using that assms(2) none by (auto simp: store_inv_def tables_inv_def dest: points_wf_member)
  moreover have "dk_DeviceID c \<noteq> i" if "c \<in> set (db_configs db)" for c
    using that assms(2) none by (auto simp: store_inv_def)
  moreover have "d_ID d \<noteq> i" if "d \<in> set (db_devices db)" for d using that none by auto
  ultimately show "db1 = db" using n(2) by (auto simp: delete_devices_def filter_other)
qed

lemma bumpVersion_points: "bumpVersion env n i tx = Inr tx' \<Longrightarrow> db_points tx' = db_points tx"
  by (auto simp: bumpVersion_Inr elim!: update_devices_Inr)

lemma CreatePoint_refused:
  assumes "calm env" "CreatePoint env p db = (Inl e, db')"
  shows "db' = db"
proof -
  have "GetPoint env 6 (p_DeviceID p) k tx' \<noteq> Inl e"
    if "insert_point (en_now env) p db = Inr (k, tx)" "bumpVersion env 3 (p_DeviceID p) tx = Inr tx'" for k tx tx'
  proof -
    have "point_row (p_DeviceID p) k tx' \<noteq> None"
      using that(1) bumpVersion_points [OF that(2)]
      by (auto simp: insert_point_def point_row_def find_filter filter_empty_conv Let_def split: if_splits)
    then show ?thesis using assms(1) by (auto simp: GetPoint_def)
  qed
  note found = this
  show ?thesis
    using assms by (auto simp: CreatePoint_def transaction_eq and_then_Inr dest: found)
qed

lemma UpdatePoint_refused:
  assumes "calm env" "UpdatePoint env p db = (Inl e, db')"
  shows "db' = db"
proof -
  have "GetPoint env 6 (p_DeviceID p) (p_ID p) tx' \<noteq> Inl e"
    if u: "update_points (en_now env) p db = Inr (n, tx)" "n \<noteq> 0" and b: "bumpVersion env 3 (p_DeviceID p) tx = Inr tx'" for n tx tx'
  proof -
    obtain q where q: "q \<in> set (db_points db)" "p_ID q = p_ID p" "p_DeviceID q = p_DeviceID p"
      using u by (auto simp: update_points_def Let_def filter_empty_conv split: if_splits)
    have "p\<lparr>p_CreatedAt := p_CreatedAt q, p_UpdatedAt := en_now env\<rparr> \<in> set (db_points tx)"
      using u(1) q by (force simp: update_points_def Let_def split: if_splits)
    then have "point_row (p_DeviceID p) (p_ID p) tx' \<noteq> None"
      unfolding point_row_def find_filter filter_empty_conv bumpVersion_points [OF b] by fastforce
    then show ?thesis using assms(1) by (auto simp: GetPoint_def)
  qed
  note found = this
  show ?thesis
    using assms by (auto simp: UpdatePoint_def transaction_eq and_then_Inr dest: found split: if_splits)
qed

lemma DeletePoint_refused: "DeletePoint env i k db = (Inl e, db') \<Longrightarrow> db' = db"
  by (auto simp: DeletePoint_def transaction_eq)

lemma DeletePoints_refused: "DeletePoints env i ks db = (Inl e, db') \<Longrightarrow> db' = db"
  by (auto simp: DeletePoints_def transaction_eq Let_def split: if_splits)

lemma ReplacePoints_refused: "ReplacePoints env i ps db = (Inl e, db') \<Longrightarrow> db' = db"
  by (auto simp: ReplacePoints_def transaction_eq)

lemma UpdateKafkaSettings_refused:
  assumes "calm env" "\<And>bs. en_unmarshal env (en_marshal env bs) = Inr bs" "UpdateKafkaSettings env cfg db = (Inl e, db')"
  shows "db' = db"
  using assms by (auto simp: UpdateKafkaSettings_def transaction_eq GetKafkaSettings_def)

lemma UpdateDeviceKafkaConfig_refused:
  assumes "calm env" "UpdateDeviceKafkaConfig env cfg db = (Inl e, db')"
  shows "db' = db"
  using assms(2) unfolding UpdateDeviceKafkaConfig_def
proof (rule transaction_refused)
  fix n tx
  assume u: "with_err (\<lambda>e. mapError env ''update device Kafka config'' (SqlText e))
      (exec env 0 (update_configs (en_now env) cfg db)) = Inr (n, tx)"
    and g: "and_then (requireAffected env 1 ''update device Kafka config'' n)
      (\<lambda>_. GetDeviceKafkaConfig env 2 (dk_DeviceID cfg) tx) = Inl e"
  let ?mine = "\<lambda>c. dk_DeviceID c = dk_DeviceID cfg"
  let ?f = "\<lambda>c. cfg\<lparr>dk_CreatedAt := dk_CreatedAt c, dk_UpdatedAt := en_now env\<rparr>"
  have tx: "n = length (filter ?mine (db_configs db))"
    "tx = db\<lparr>db_configs := map (\<lambda>c. if ?mine c then ?f c else c) (db_configs db)\<rparr>"
    using u assms(1) by (auto simp: update_configs_def Let_def split: if_splits)
  show "tx = db"
  proof (cases "n = 0")
    case True
    then show ?thesis using tx map_if_none [of ?mine "db_configs db" ?f] by simp
  next
    case False
    then obtain c where "c \<in> set (db_configs db)" "?mine c" using tx(1) by (auto simp: filter_empty_conv)
    then have "config_row (dk_DeviceID cfg) tx \<noteq> None"
      unfolding tx(2) config_row_def find_filter filter_empty_conv by (auto intro!: bexI [of _ "?f c"] image_eqI [of _ ?f c])
    with g False assms(1) show ?thesis by (auto simp: GetDeviceKafkaConfig_def)
  qed
qed

end
