(* ===== verification/HttpApi.thy ===== *)
theory HttpApi
  imports Services RuntimeManager StoreErrors
begin

text \<open>
  \<open>internal/httpapi\<close> without the WebSocket: the handlers of the JSON interface, from the path
  parameters, the query and the body to the response and the store after it. The router of Gin
  picks the handler, so a request is a constructor with the texts that the handler reads. What lies
  outside is in the record \<open>World\<close>: the database of each store call, the JSON decoder, the answers
  of the runtime and of the publisher.
\<close>

section \<open>Responses\<close>

datatype payload =
    PDevice Device
  | PView "Snapshot DeviceView"
  | PViews "Snapshot DeviceView list"
  | PSnapshot Snapshot
  | PValues valmap
  | POk
  | PDeleted
  | PPoint Point
  | PPage PointPage
  | PDeletedCount nat
  | PImported nat
  | PCsv string string
  | PSettings KafkaSettingsView
  | PPolicy DeviceKafkaConfig

datatype details = NoDetails | FieldDetails "FieldError list" | RowDetails "RowError list" | KafkaDetails

datatype response = Success int payload | Failure int string details

fun handleError :: "service_error \<Rightarrow> response" where
  "handleError (Invalid fs) = Failure 400 ''validation_failed'' (FieldDetails fs)"
| "handleError (InvalidKafka err) = Failure 400 ''validation_failed'' KafkaDetails"
| "handleError (InvalidPolicy err) = Failure 400 ''validation_failed'' KafkaDetails"
| "handleError DeviceBusy = Failure 409 ''device_busy'' NoDetails"
| "handleError (FromStore (ErrNotFound operation)) = Failure 404 ''not_found'' NoDetails"
| "handleError (FromStore (ErrConflict operation)) = Failure 409 ''conflict'' NoDetails"
| "handleError (FromStore (StoreError err)) = Failure 500 ''internal_error'' NoDetails"
| "handleError (Failed err) = Failure 500 ''internal_error'' NoDetails"

definition answer :: "int \<Rightarrow> ('a \<Rightarrow> payload) \<Rightarrow> service_error + 'a \<Rightarrow> response" where
  "answer status f r = (case r of Inl e \<Rightarrow> handleError e | Inr x \<Rightarrow> Success status (f x))"

definition respond :: "int \<Rightarrow> ('a \<Rightarrow> payload) \<Rightarrow> (service_error + 'a) \<times> Db \<Rightarrow> response \<times> Db" where
  "respond status f r = (answer status f (fst r), snd r)"

section \<open>Reading requests\<close>

definition invalid_id :: response where
  "invalid_id = Failure 400 ''invalid_id'' NoDetails"

definition parseID :: "string \<Rightarrow> int option" where
  "parseID text = (case Atoi text of None \<Rightarrow> None | Some i \<Rightarrow> if i < 1 then None else Some i)"

definition with_id :: "string \<Rightarrow> Db \<Rightarrow> (int \<Rightarrow> response \<times> Db) \<Rightarrow> response \<times> Db" where
  "with_id text db f = (case parseID text of None \<Rightarrow> (invalid_id, db) | Some i \<Rightarrow> f i)"

text \<open>
  The body, at most a megabyte, must be one JSON value and nothing after it. \<open>decode\<close> is
  \<open>json.Decoder\<close> with unknown fields refused: the value and the rest of the text.
\<close>

definition json_space :: "char \<Rightarrow> bool" where
  "json_space c \<longleftrightarrow> c \<in> {CHR '' '', CHR 0x09, CHR 0x0A, CHR 0x0D}"

definition decodeJSON :: "(string \<Rightarrow> ('a \<times> string) option) \<Rightarrow> string \<Rightarrow> 'a option" where
  "decodeJSON decode body =
     (if 2 ^ 20 < length body then None
      else case decode body of
             None \<Rightarrow> None
           | Some (v, rest) \<Rightarrow> if list_all json_space rest then Some v else None)"

definition with_json :: "(string \<Rightarrow> ('a \<times> string) option) \<Rightarrow> string \<Rightarrow> Db \<Rightarrow> ('a \<Rightarrow> response \<times> Db) \<Rightarrow> response \<times> Db" where
  "with_json decode body db f =
     (case decodeJSON decode body of None \<Rightarrow> (Failure 400 ''invalid_json'' NoDetails, db) | Some v \<Rightarrow> f v)"

text \<open>The page of a listing: an empty text is the default.\<close>

definition page_number :: "string \<Rightarrow> int \<Rightarrow> int option" where
  "page_number text default_value = (if text \<noteq> [] then Atoi text else Some default_value)"

definition pagination :: "string \<Rightarrow> string \<Rightarrow> (int \<times> int) option" where
  "pagination limit_text offset_text =
     (case page_number limit_text 50 of
        None \<Rightarrow> None
      | Some limit \<Rightarrow>
          if limit < 1 \<or> 500 < limit then None
          else
            case page_number offset_text 0 of
              None \<Rightarrow> None
            | Some offset \<Rightarrow> if offset < 0 then None else Some (limit, offset))"

text \<open>The file name of an export: runs of unsafe characters become dashes, which are cut at the ends.\<close>

definition safe_char :: "char \<Rightarrow> bool" where
  "safe_char c \<longleftrightarrow> CHR ''A'' \<le> c \<and> c \<le> CHR ''Z'' \<or> CHR ''a'' \<le> c \<and> c \<le> CHR ''z'' \<or>
     CHR ''0'' \<le> c \<and> c \<le> CHR ''9'' \<or> c = CHR ''_'' \<or> c = CHR ''-''"

function replace_unsafe :: "string \<Rightarrow> string" where
  "replace_unsafe [] = []"
| "replace_unsafe (c # s) =
     (if safe_char c then c # replace_unsafe s
      else CHR ''-'' # replace_unsafe (dropWhile (\<lambda>c. \<not> safe_char c) s))"
  by pat_completeness auto
termination
  by (relation "measure length") (auto simp: le_imp_less_Suc length_dropWhile_le)

definition trim_dashes :: "string \<Rightarrow> string" where
  "trim_dashes s = rev (dropWhile (\<lambda>c. c = CHR ''-'') (rev (dropWhile (\<lambda>c. c = CHR ''-'') s)))"

definition export_filename :: "string \<Rightarrow> int \<Rightarrow> string" where
  "export_filename device_name i =
     (let name = trim_dashes (replace_unsafe device_name)
      in (if name = [] then ''device-'' @ Itoa i else name) @ ''-points.csv'')"

section \<open>Handlers\<close>

record World =
  wd_env :: "nat \<Rightarrow> Env"
  wd_busy :: bool
  wd_runErr :: "string option"
  wd_runtime :: Manager
  wd_live :: "nat \<Rightarrow> valmap"
  wd_upper :: "string \<Rightarrow> string"
  wd_sort :: "(Point \<Rightarrow> Point \<Rightarrow> bool) \<Rightarrow> Point list \<Rightarrow> Point list"
  wd_device :: "string \<Rightarrow> (Device \<times> string) option"
  wd_point :: "string \<Rightarrow> (Point \<times> string) option"
  wd_ids :: "string \<Rightarrow> (int list \<times> string) option"
  wd_settings :: "string \<Rightarrow> ((KafkaSettings \<times> string \<times> bool) \<times> string) option"
  wd_policy :: "string \<Rightarrow> (DeviceKafkaConfig \<times> string) option"
  wd_status :: KafkaStatus
  wd_apply :: "KafkaSettings \<Rightarrow> string + KafkaStatus"
  wd_paths :: path_ops
  wd_versionOk :: "string \<Rightarrow> bool"
  wd_baseDir :: string

definition runtime_Snapshot :: "World \<Rightarrow> Db \<Rightarrow> int \<Rightarrow> service_error + Snapshot" where
  "runtime_Snapshot w db i =
     and_then (with_err FromStore (GetDevice (wd_env w 2) 0 i db)) (\<lambda>d.
     with_err Failed (rm_Snapshot i (Inr d) (wd_live w) (wd_runtime w)))"

datatype request =
    ListDevicesReq
  | CreateDeviceReq string
  | GetDeviceReq string
  | UpdateDeviceReq string string
  | DeleteDeviceReq string
  | StartDeviceReq string
  | StopDeviceReq string
  | RestartDeviceReq string
  | DeviceStatusReq string
  | DeviceValuesReq string
  | ListPointsReq string string string string string
  | DeletePointsReq string string
  | CreatePointReq string string
  | GetPointReq string string
  | UpdatePointReq string string string
  | DeletePointReq string string
  | ImportPointsReq string "string option"
  | ExportPointsReq string
  | GetKafkaReq
  | UpdateKafkaReq string
  | GetPolicyReq string
  | UpdatePolicyReq string string

text \<open>One handler each; the routes are those of \<open>registerDevices\<close>, \<open>registerPoints\<close> and \<open>registerKafka\<close>.\<close>

definition lifecycle :: "World \<Rightarrow> bool \<Rightarrow> string \<Rightarrow> Db \<Rightarrow> response \<times> Db" where
  "lifecycle w enabled ident db =
     with_id ident db (\<lambda>i. respond 200 (\<lambda>_. POk) (runtime_call (wd_env w 0) (wd_busy w) (wd_runErr w) enabled i db))"

definition updateDevice :: "World \<Rightarrow> string \<Rightarrow> string \<Rightarrow> Db \<Rightarrow> response \<times> Db" where
  "updateDevice w ident body db =
     with_id ident db (\<lambda>i. with_json (wd_device w) body db (\<lambda>d.
       respond 200 PDevice (device_Update (wd_env w 0) (wd_upper w) i d db)))"

definition deviceStatus :: "World \<Rightarrow> string \<Rightarrow> Db \<Rightarrow> response \<times> Db" where
  "deviceStatus w ident db =
     with_id ident db (\<lambda>i. (answer 200 (\<lambda>v. PSnapshot (v\<lparr>sn_Values := Map.empty\<rparr>)) (runtime_Snapshot w db i), db))"

definition deviceValues :: "World \<Rightarrow> string \<Rightarrow> Db \<Rightarrow> response \<times> Db" where
  "deviceValues w ident db = with_id ident db (\<lambda>i. (answer 200 (\<lambda>v. PValues (sn_Values v)) (runtime_Snapshot w db i), db))"

definition listPoints :: "World \<Rightarrow> string \<Rightarrow> string \<Rightarrow> string \<Rightarrow> string \<Rightarrow> string \<Rightarrow> Db \<Rightarrow> response \<times> Db" where
  "listPoints w ident limit_text offset_text search reg_type db =
     with_id ident db (\<lambda>i.
       case pagination limit_text offset_text of
         None \<Rightarrow> (Failure 400 ''invalid_pagination'' NoDetails, db)
       | Some (limit, offset) \<Rightarrow>
           (answer 200 PPage (point_List (wd_env w 0) (wd_env w 1) i
             \<lparr>pf_Search = search, pf_RegType = reg_type, pf_Limit = limit, pf_Offset = offset\<rparr> db), db))"

definition importPoints :: "World \<Rightarrow> string \<Rightarrow> string option \<Rightarrow> Db \<Rightarrow> response \<times> Db" where
  "importPoints w ident file db =
     with_id ident db (\<lambda>i.
       case file of
         None \<Rightarrow> (Failure 400 ''invalid_file'' NoDetails, db)
       | Some content \<Rightarrow>
           (case point_Import (wd_env w 0) (wd_env w 1) i (csv_items None content) db of
              (ImportFailed e, db') \<Rightarrow> (handleError e, db')
            | (CsvFailed e, db') \<Rightarrow> (Failure 500 ''internal_error'' NoDetails, db')
            | (RowErrors rows, db') \<Rightarrow> (Failure 400 ''validation_failed'' (RowDetails rows), db')
            | (Imported n, db') \<Rightarrow> (Success 200 (PImported n), db')))"

definition exportPoints :: "World \<Rightarrow> string \<Rightarrow> Db \<Rightarrow> response \<times> Db" where
  "exportPoints w ident db =
     with_id ident db (\<lambda>i.
       case device_Get (wd_env w 0) (runtime_Snapshot w db) i db of
         Inl e \<Rightarrow> (handleError e, db)
       | Inr view \<Rightarrow>
           (answer 200 (PCsv (export_filename (d_Name (dv_Device view)) i))
             (point_Export (wd_sort w) (wd_env w 3) (wd_env w 4) i db), db))"

definition updateKafkaSettings :: "World \<Rightarrow> string \<Rightarrow> Db \<Rightarrow> response \<times> Db" where
  "updateKafkaSettings w body db =
     with_json (wd_settings w) body db (\<lambda>(settings, password, clear).
       let (r, db', applied) = kafka_UpdateSettings (wd_env w 0) (wd_env w 1) (wd_upper w) (wd_paths w)
             (wd_versionOk w) (wd_baseDir w) (wd_apply w) (settings\<lparr>k_SASLPassword := password\<rparr>) clear db
       in respond 200 PSettings (r, db'))"

definition updateDeviceKafkaConfig :: "World \<Rightarrow> string \<Rightarrow> string \<Rightarrow> Db \<Rightarrow> response \<times> Db" where
  "updateDeviceKafkaConfig w ident body db =
     with_id ident db (\<lambda>i. with_json (wd_policy w) body db (\<lambda>cfg.
       let (r, db', applied) = kafka_UpdateDeviceConfig (wd_env w 0) i cfg db in respond 200 PPolicy (r, db')))"

text \<open>The short handlers unfold by themselves.\<close>

definition listDevices :: "World \<Rightarrow> Db \<Rightarrow> response \<times> Db" where [simp]:
  "listDevices w db = (answer 200 PViews (device_List (wd_env w 0) (wd_env w 1) (runtime_Snapshot w db) db), db)"

definition createDevice :: "World \<Rightarrow> string \<Rightarrow> Db \<Rightarrow> response \<times> Db" where [simp]:
  "createDevice w body db =
     with_json (wd_device w) body db (\<lambda>d. respond 201 PDevice (device_Create (wd_env w 0) (wd_upper w) d db))"

definition getDevice :: "World \<Rightarrow> string \<Rightarrow> Db \<Rightarrow> response \<times> Db" where [simp]:
  "getDevice w ident db =
     with_id ident db (\<lambda>i. (answer 200 PView (device_Get (wd_env w 0) (runtime_Snapshot w db) i db), db))"

definition deleteDevice :: "World \<Rightarrow> string \<Rightarrow> Db \<Rightarrow> response \<times> Db" where [simp]:
  "deleteDevice w ident db =
     with_id ident db (\<lambda>i. respond 200 (\<lambda>_. PDeleted)
       (device_Delete (wd_env w 0) (wd_env w 1) (wd_env w 2) (wd_busy w) (wd_runErr w) i db))"

definition deletePoints :: "World \<Rightarrow> string \<Rightarrow> string \<Rightarrow> Db \<Rightarrow> response \<times> Db" where [simp]:
  "deletePoints w ident body db =
     with_id ident db (\<lambda>i. with_json (wd_ids w) body db (\<lambda>ks.
       respond 200 PDeletedCount (point_DeleteBatch (wd_env w 0) (wd_env w 1) i ks db)))"

definition pointIDs :: "string \<Rightarrow> string \<Rightarrow> Db \<Rightarrow> (int \<Rightarrow> int \<Rightarrow> response \<times> Db) \<Rightarrow> response \<times> Db" where [simp]:
  "pointIDs ident pid db f = with_id ident db (\<lambda>i. with_id pid db (f i))"

definition createPoint :: "World \<Rightarrow> string \<Rightarrow> string \<Rightarrow> Db \<Rightarrow> response \<times> Db" where [simp]:
  "createPoint w ident body db =
     with_id ident db (\<lambda>i. with_json (wd_point w) body db (\<lambda>p.
       respond 201 PPoint (point_Create (wd_env w 0) (wd_env w 1) i p db)))"

definition getPoint :: "World \<Rightarrow> string \<Rightarrow> string \<Rightarrow> Db \<Rightarrow> response \<times> Db" where [simp]:
  "getPoint w ident pid db =
     pointIDs ident pid db (\<lambda>i k. (answer 200 PPoint (with_err FromStore (GetPoint (wd_env w 0) 0 i k db)), db))"

definition updatePoint :: "World \<Rightarrow> string \<Rightarrow> string \<Rightarrow> string \<Rightarrow> Db \<Rightarrow> response \<times> Db" where [simp]:
  "updatePoint w ident pid body db =
     pointIDs ident pid db (\<lambda>i k. with_json (wd_point w) body db (\<lambda>p.
       respond 200 PPoint (point_Update (wd_env w 0) i k p db)))"

definition deletePoint :: "World \<Rightarrow> string \<Rightarrow> string \<Rightarrow> Db \<Rightarrow> response \<times> Db" where [simp]:
  "deletePoint w ident pid db =
     pointIDs ident pid db (\<lambda>i k. respond 200 (\<lambda>_. PDeleted) (point_Delete (wd_env w 0) i k db))"

definition getKafkaSettings :: "World \<Rightarrow> Db \<Rightarrow> response \<times> Db" where [simp]:
  "getKafkaSettings w db = (answer 200 PSettings (kafka_GetSettings (wd_env w 0) (wd_status w) db), db)"

definition getDeviceKafkaConfig :: "World \<Rightarrow> string \<Rightarrow> Db \<Rightarrow> response \<times> Db" where [simp]:
  "getDeviceKafkaConfig w ident db =
     with_id ident db (\<lambda>i. (answer 200 PPolicy (kafka_GetDeviceConfig (wd_env w 0) i db), db))"

fun handle :: "World \<Rightarrow> request \<Rightarrow> Db \<Rightarrow> response \<times> Db" where
  "handle w ListDevicesReq db = listDevices w db"
| "handle w (CreateDeviceReq body) db = createDevice w body db"
| "handle w (GetDeviceReq ident) db = getDevice w ident db"
| "handle w (UpdateDeviceReq ident body) db = updateDevice w ident body db"
| "handle w (DeleteDeviceReq ident) db = deleteDevice w ident db"
| "handle w (StartDeviceReq ident) db = lifecycle w True ident db"
| "handle w (StopDeviceReq ident) db = lifecycle w False ident db"
| "handle w (RestartDeviceReq ident) db = lifecycle w True ident db"
| "handle w (DeviceStatusReq ident) db = deviceStatus w ident db"
| "handle w (DeviceValuesReq ident) db = deviceValues w ident db"
| "handle w (ListPointsReq ident l o' s r) db = listPoints w ident l o' s r db"
| "handle w (DeletePointsReq ident body) db = deletePoints w ident body db"
| "handle w (CreatePointReq ident body) db = createPoint w ident body db"
| "handle w (GetPointReq ident pid) db = getPoint w ident pid db"
| "handle w (UpdatePointReq ident pid body) db = updatePoint w ident pid body db"
| "handle w (DeletePointReq ident pid) db = deletePoint w ident pid db"
| "handle w (ImportPointsReq ident file) db = importPoints w ident file db"
| "handle w (ExportPointsReq ident) db = exportPoints w ident db"
| "handle w GetKafkaReq db = getKafkaSettings w db"
| "handle w (UpdateKafkaReq body) db = updateKafkaSettings w body db"
| "handle w (GetPolicyReq ident) db = getDeviceKafkaConfig w ident db"
| "handle w (UpdatePolicyReq ident body) db = updateDeviceKafkaConfig w ident body db"

section \<open>Refused requests\<close>




lemma handleError_status: "handleError e = Failure code t why \<Longrightarrow> code \<in> {400, 404, 409, 500}"
  by (cases e rule: handleError.cases) auto








text \<open>Which requests only read.\<close>

fun reads :: "request \<Rightarrow> bool" where
  "reads ListDevicesReq = True"
| "reads (GetDeviceReq i) = True"
| "reads (DeviceStatusReq i) = True"
| "reads (DeviceValuesReq i) = True"
| "reads (ListPointsReq i l f s r) = True"
| "reads (GetPointReq i k) = True"
| "reads (ExportPointsReq i) = True"
| "reads GetKafkaReq = True"
| "reads (GetPolicyReq i) = True"
| "reads req = False"

lemma reads_change_nothing: "reads req \<Longrightarrow> snd (handle w req db) = db"
  by (cases req)
    (auto simp: with_id_def deviceStatus_def deviceValues_def listPoints_def exportPoints_def
      split: option.split sum.split prod.split)

lemma answer_status: "answer status f r = Failure code t why \<Longrightarrow> code \<in> {400, 404, 409, 500}"
  using handleError_status by (auto simp: answer_def split: sum.splits)

lemma respond_status: "respond status f r = (Failure code t why, db') \<Longrightarrow> code \<in> {400, 404, 409, 500}"
  using answer_status [of status f "fst r"] by (simp add: respond_def)








section \<open>Requests and the history of the store\<close>

lemma triple: "x = (fst x, fst (snd x), snd (snd x))"
  by simp

lemma step_snd:
  "svc_step\<^sup>*\<^sup>* db (snd (device_Create env uni d db))" "svc_step\<^sup>*\<^sup>* db (snd (device_Update env uni i d db))"
  "svc_step\<^sup>*\<^sup>* db (snd (point_Create env env' i p db))" "svc_step\<^sup>*\<^sup>* db (snd (point_Update env i k p db))"
  "svc_step\<^sup>*\<^sup>* db (snd (point_Delete env i k db))" "svc_step\<^sup>*\<^sup>* db (snd (point_DeleteBatch env env' i ks db))"
  "svc_step\<^sup>*\<^sup>* db (snd (point_Import env env' i items db))"
  "svc_step\<^sup>*\<^sup>* db (fst (snd (kafka_UpdateSettings env env' uni fp versionOk baseDir ap input clear db)))"
  "svc_step\<^sup>*\<^sup>* db (fst (snd (kafka_UpdateDeviceConfig env i cfg db)))"
  "svc_step\<^sup>*\<^sup>* db (snd (runtime_call env busy runErr b i db))"
  "svc_step\<^sup>*\<^sup>* db (snd (device_Delete env env' env'' busy runErr i db))"
  by (rule r_into_rtranclp [of svc_step, OF svc_step.Create [OF prod.collapse [symmetric]]]
      r_into_rtranclp [of svc_step, OF svc_step.Update [OF prod.collapse [symmetric]]]
      r_into_rtranclp [of svc_step, OF svc_step.CreatePoint [OF prod.collapse [symmetric]]]
      r_into_rtranclp [of svc_step, OF svc_step.UpdatePoint [OF prod.collapse [symmetric]]]
      r_into_rtranclp [of svc_step, OF svc_step.DeletePoint [OF prod.collapse [symmetric]]]
      r_into_rtranclp [of svc_step, OF svc_step.DeleteBatch [OF prod.collapse [symmetric]]]
      r_into_rtranclp [of svc_step, OF svc_step.Import [OF prod.collapse [symmetric]]]
      r_into_rtranclp [of svc_step, OF svc_step.Settings [OF triple]]
      r_into_rtranclp [of svc_step, OF svc_step.Policy [OF triple]]
      runtime_call_steps [OF prod.collapse [symmetric]] device_Delete_steps [OF prod.collapse [symmetric]])+

lemma import_snd:
  "snd (importPoints w ident upload db) = db \<or>
   (\<exists>i items. snd (importPoints w ident upload db) = snd (point_Import (wd_env w 0) (wd_env w 1) i items db))"
  by (auto simp: importPoints_def with_id_def split: option.split prod.split import_result.split) (metis snd_conv)+

lemma handle_steps: "svc_step\<^sup>*\<^sup>* db (snd (handle w req db))"
proof (cases "reads req")
  case True
  then show ?thesis by (simp add: reads_change_nothing)
next
  case False
  then show ?thesis
  proof (cases req)
    case (ImportPointsReq i upload)
    then show ?thesis using import_snd [of w i upload db] step_snd(7) by (auto split: option.splits)
  next
    case (UpdateKafkaReq body)
    then show ?thesis
      using step_snd(8) by (auto simp: updateKafkaSettings_def with_json_def respond_def split: option.split prod.split)
        (metis fst_conv snd_conv)
  next
    case (UpdatePolicyReq i body)
    then show ?thesis
      using step_snd(9)
      by (auto simp: updateDeviceKafkaConfig_def with_json_def with_id_def respond_def split: option.split prod.split)
        (metis fst_conv snd_conv)
  qed (auto simp: updateDevice_def lifecycle_def with_json_def with_id_def respond_def intro: step_snd split: option.split)
qed

definition serve :: "(World \<times> request) list \<Rightarrow> Db \<Rightarrow> Db" where
  "serve reqs db = foldl (\<lambda>db (w, req). snd (handle w req db)) db reqs"

lemma serve_steps: "svc_step\<^sup>*\<^sup>* db (serve reqs db)"
proof (induction reqs rule: rev_induct)
  case (snoc r reqs)
  then show ?case
    using handle_steps [of "serve reqs db" "fst r" "snd r"] by (simp add: serve_def split_beta)
qed (simp add: serve_def)

lemma serve_history: "history db \<Longrightarrow> history (serve reqs db)"
  unfolding history_def using serve_steps by (meson rtranclp_trans)

section \<open>Properties\<close>


lemma replace_unsafe_safe: "list_all safe_char (replace_unsafe s)"
  by (induction s rule: replace_unsafe.induct) (auto simp: safe_char_def)

lemma replace_unsafe_id: "list_all safe_char s \<Longrightarrow> replace_unsafe s = s"
  by (induction s) auto

lemma list_all_dropWhile: "list_all P s \<Longrightarrow> list_all P (dropWhile Q s)"
  by (induction s) auto

lemma trim_dashes_safe: "list_all safe_char s \<Longrightarrow> list_all safe_char (trim_dashes s)"
  by (simp add: trim_dashes_def list_all_dropWhile)

lemma hd_trim_dashes:
  assumes "trim_dashes s \<noteq> []"
  shows "hd (trim_dashes s) \<noteq> CHR ''-''"
proof -
  define P where "P = (\<lambda>c. c = CHR ''-'')"
  define d where "d = dropWhile P s"
  have t: "trim_dashes s = rev (dropWhile P (rev d))" by (simp add: trim_dashes_def P_def d_def)
  have "rev (rev d) = rev (takeWhile P (rev d) @ dropWhile P (rev d))" by (simp only: takeWhile_dropWhile_id)
  then have d: "d = trim_dashes s @ rev (takeWhile P (rev d))" unfolding t rev_append rev_rev_ident .
  with assms have "d \<noteq> []" by (metis append_is_Nil_conv)
  then have "\<not> P (hd d)" unfolding d_def by (rule hd_dropWhile)
  moreover have "hd d = hd (trim_dashes s)" using assms by (subst d) simp
  ultimately show ?thesis by (simp add: P_def)
qed

lemma digit_safe: "is_digit c \<Longrightarrow> safe_char c"
  by (simp add: is_digit_def safe_char_def less_eq_char_def)

text \<open>
  The file name of an export cannot break out of its header. Whatever the device is called, the
  name consists of letters, digits, underscores and dashes, ends in \<open>-points.csv\<close> and does not start
  with a dash; a device name that is already of this form is kept.
\<close>

lemma export_filename_safe:
  assumes "1 \<le> i"
  shows "\<exists>base. export_filename name i = base @ ''-points.csv'' \<and> list_all safe_char base \<and> base \<noteq> [] \<and>
    hd base \<noteq> CHR ''-'' \<and>
    (list_all safe_char name \<and> name \<noteq> [] \<and> hd name \<noteq> CHR ''-'' \<and> last name \<noteq> CHR ''-'' \<longrightarrow> base = name)"
proof -
  define cleaned where "cleaned = trim_dashes (replace_unsafe name)"
  have safe: "list_all safe_char cleaned"
    unfolding cleaned_def by (rule trim_dashes_safe [OF replace_unsafe_safe])
  have hd: "hd cleaned \<noteq> CHR ''-''" if "cleaned \<noteq> []"
    using that unfolding cleaned_def by (rule hd_trim_dashes)
  have keep: "cleaned = name" if "list_all safe_char name" "name \<noteq> []" "hd name \<noteq> CHR ''-''" "last name \<noteq> CHR ''-''"
  proof -
    have 1: "dropWhile (\<lambda>c. c = CHR ''-'') name = name" using that(2,3) by (cases name) auto
    have 2: "dropWhile (\<lambda>c. c = CHR ''-'') (rev name) = rev name"
      using that(2,4) by (cases "rev name") (auto simp: last_rev [symmetric])
    show ?thesis by (simp add: cleaned_def trim_dashes_def replace_unsafe_id that(1) 1 2)
  qed
  show ?thesis
  proof (cases "cleaned = []")
    case True
    have "list_all safe_char (Itoa i)"
      using assms FormatUint_set digit_safe by (auto simp: Itoa_def list_all_iff)
    moreover have "list_all safe_char ''device-''" by (simp add: safe_char_def less_eq_char_def)
    ultimately show ?thesis using True keep
      by (auto simp: export_filename_def Let_def cleaned_def [symmetric])
  next
    case False
    with safe hd keep show ?thesis
      by (auto simp: export_filename_def Let_def cleaned_def [symmetric])
  qed
qed

lemma CreateDevice_stored:
  assumes "calm env" "store_inv db" "CreateDevice env d db = (Inr r, db')"
  shows "device_row (d_ID r) db' = Some r" "d_ID r = db_device_seq db + 1" "d_Enabled r = d_Enabled d"
    "d_ConfigVersion r = 1" "loaded r = loaded d" "db_points db' = db_points db"
proof -
  from assms(1,3) obtain i tx where t: "insert_device (en_now env) d db = Inr (i, tx)"
    "insert_config (en_now env) i tx = Inr db'" and g: "GetDevice env 5 i db' = Inr r"
    by (auto simp: CreateDevice_def transaction_eq and_then_Inr)
  note tx = insert_device_Inr [OF t(1)] and db' = insert_config_Inr [OF t(2)]
  let ?row = "d\<lparr>d_ID := i, d_ConfigVersion := 1, d_CreatedAt := en_now env, d_UpdatedAt := en_now env\<rparr>"
  have row: "device_row i db' = Some r"
    using g assms(1) by (auto simp: GetDevice_def split: option.splits)
  have "d_ID x \<noteq> i" if "x \<in> set (db_devices db)" for x
    using that assms(2) tx(1) by (force simp: store_inv_def tables_inv_def devices_wf_def)
  then have "find (\<lambda>x. d_ID x = i) (db_devices db) = None" by (simp add: find_None_iff)
  then have r: "r = ?row" using row by (simp add: device_row_def db' tx(2) find_append)
  show "device_row (d_ID r) db' = Some r" using row r by simp
  show "d_ID r = db_device_seq db + 1" "d_Enabled r = d_Enabled d" "d_ConfigVersion r = 1" "loaded r = loaded d"
    using r tx(1) by (simp_all add: loaded_def)
  show "db_points db' = db_points db" by (simp add: db' tx(2))
qed

text \<open>
  C37: what is created can be fetched. After a device was created, the address made of its number
  answers with that very device, trimmed and completed from what was sent, disabled, in its first
  version and without points.
\<close>

theorem created_device_is_served:
  assumes "\<And>k n. en_fault (wd_env w k) n = None" "store_inv db" "db_device_seq db < 2 ^ 63 - 1"
    and "handle w (CreateDeviceReq body) db = (Success code body_out, db')"
  shows "\<exists>sent d view. decodeJSON (wd_device w) body = Some sent \<and> code = 201 \<and> body_out = PDevice d \<and>
    handle w (GetDeviceReq (Itoa (d_ID d))) db' = (Success 200 (PView view), db') \<and>
    dv_Device view = d \<and> dv_PointCount view = 0 \<and> \<not> d_Enabled d \<and> d_ConfigVersion d = 1 \<and>
    d_Name d = TrimSpace (d_Name sent) \<and> d_Address d = TrimSpace (d_Address sent)"
proof -
  have calm: "calm (wd_env w k)" for k using assms(1) by (simp add: calm_def)
  from assms(4) obtain sent d where sent: "decodeJSON (wd_device w) body = Some sent"
    and r: "code = 201" "body_out = PDevice d"
    and c: "device_Create (wd_env w 0) (wd_upper w) sent db = (Inr d, db')"
    by (cases "device_Create (wd_env w 0) (wd_upper w) (the (decodeJSON (wd_device w) body)) db")
      (auto simp: with_json_def respond_def answer_def split: option.splits sum.splits elim: handleError.elims)
  from c obtain n where n: "normalizeDevice (wd_upper w) sent = Inr n"
    and cr: "CreateDevice (wd_env w 0) (n\<lparr>d_Enabled := False\<rparr>) db = (Inr d, db')"
    by (auto simp: device_Create_def stored_eq dest!: sym [of "Inr d"] split: sum.splits) (metis prod.collapse)
  note st = CreateDevice_stored [OF calm assms(2) cr]
  have seq: "0 \<le> db_device_seq db" using assms(2) by (simp add: store_inv_def tables_inv_def devices_wf_def)
  have ident: "parseID (Itoa (d_ID d)) = Some (d_ID d)"
    using seq assms(3) Atoi_Itoa [of "d_ID d"] by (simp add: parseID_def st(2))
  have "p_DeviceID p \<noteq> d_ID d" if "p \<in> set (db_points db)" for p
  proof -
    have "p_DeviceID p \<in> d_ID ` set (db_devices db)"
      using that assms(2) by (auto simp: store_inv_def tables_inv_def dest: points_wf_member)
    then have "p_DeviceID p \<le> db_device_seq db"
      using assms(2) by (auto simp: store_inv_def tables_inv_def devices_wf_def)
    then show ?thesis by (simp add: st(2))
  qed
  then have none: "filter (pointWhere env (d_ID d) f) (db_points db') = []" for env f
    by (auto simp: filter_empty_conv pointWhere_def st(6))
  have get: "GetDevice (wd_env w k) j (d_ID d) db' = Inr d" for k j
    using st(1) calm by (simp add: GetDevice_def)
  have "\<exists>view. device_Get (wd_env w 0) (runtime_Snapshot w db') (d_ID d) db' = Inr view \<and> dv_Device view = d \<and>
      dv_PointCount view = 0"
    using calm by (simp add: device_Get_def get ListPoints_def none runtime_Snapshot_def rm_Snapshot_def Let_def)
  moreover have "d_Name n = TrimSpace (d_Name sent)" "d_Address n = TrimSpace (d_Address sent)"
    using n by (auto simp: normalizeDevice_def trimmed_device_def Let_def split: if_splits)
  moreover have "d_Name d = d_Name n" "d_Address d = d_Address n" using st(5) by (simp_all add: loaded_def)
  ultimately show ?thesis using sent r st(3,4) by (auto simp: with_id_def ident answer_def)
qed

section \<open>Witnesses\<close>

definition sample_world :: World where
  "sample_world = \<lparr>wd_env = (\<lambda>_. lettered), wd_busy = False, wd_runErr = None, wd_runtime = NewManager,
     wd_live = (\<lambda>_. Map.empty), wd_upper = (\<lambda>s. s), wd_sort = insertion_sort, wd_device = (\<lambda>t. Some (plc, [])),
     wd_point = (\<lambda>_. None), wd_ids = (\<lambda>_. None), wd_settings = (\<lambda>_. None), wd_policy = (\<lambda>_. None),
     wd_status = \<lparr>ks_State = ''disabled'', ks_LastError = [], ks_DroppedMessages = 0\<rparr>, wd_apply = (\<lambda>_. Inl []),
     wd_paths = unix_paths, wd_versionOk = (\<lambda>_. True), wd_baseDir = ''/b''\<rparr>"

lemma sample_world_calm: "en_fault (wd_env sample_world k) n = None" "calm lettered"
  "en_unmarshal (wd_env sample_world k) (en_marshal (wd_env sample_world k) bs) = Inr bs"
  by (simp_all add: sample_world_def lettered_def quiet_def read_write_list calm_def)


theorem export_filename_safe_witness:
  "\<exists>base. export_filename ''Line 1/A'' 5 = base @ ''-points.csv'' \<and> list_all safe_char base"
  using export_filename_safe [of 5 "''Line 1/A''"] by auto

theorem created_device_is_served_witness:
  "\<exists>d db' view. handle sample_world (CreateDeviceReq ''{}'') opened_db = (Success 201 (PDevice d), db') \<and>
     handle sample_world (GetDeviceReq (Itoa (d_ID d))) db' = (Success 200 (PView view), db')"
proof -
  have inv: "store_inv opened_db" by (rule migrate_store_inv [OF empty_db_tables migrate_empty])
  have dec: "decodeJSON (wd_device sample_world) ''{}'' = Some plc" by (simp add: decodeJSON_def sample_world_def)
  have "\<exists>d db'. CreateDevice lettered plc opened_db = (Inr d, db')"
    using sample_world_calm(2) by (simp add: CreateDevice_def transaction_def insert_device_def insert_config_def
        opened_db_def empty_db_def Let_def GetDevice_def device_row_def)
  then obtain d db' where "CreateDevice lettered plc opened_db = (Inr d, db')" by blast
  moreover have "plc\<lparr>d_Enabled := False\<rparr> = plc" by (simp add: plc_def)
  ultimately have "handle sample_world (CreateDeviceReq ''{}'') opened_db = (Success 201 (PDevice d), db')"
    using dec by (simp add: with_json_def device_Create_def stored_def respond_def answer_def)
      (simp add: sample_world_def plc_normal stored_def)
  from created_device_is_served [OF sample_world_calm(1) inv _ this] this show ?thesis
    by (fastforce simp: opened_db_def empty_db_def)
qed

end
