(* ===== verification/Hub.thy ===== *)
theory Hub
  imports Udm
begin

text \<open>
  \<open>internal/realtime/hub.go\<close>: the index from device points to live subscriptions. Pointers to
  subscriptions are numbers into a heap; a Go set is a list without repetitions in the order
  Go happens to range over it. \<open>Set\<close>, \<open>Remove\<close> and \<open>Close\<close> hold the hub's lock and are single
  steps. \<open>Publish\<close> collects its targets under the lock and delivers to each after releasing it:
  \<open>Publish\<close> here is the run that nothing interrupts, while a history may also hold single deliveries
  (\<open>OpDeliver\<close>) to any subscription at any time, which covers every interleaving. The argument
  \<open>pick\<close> resolves Go's random choice between a closed \<open>done\<close> channel and a free place in the buffer.
\<close>

record ValueEvent =
  ev_DeviceID :: int
  ev_TagName :: string
  ev_Value :: anyval
  ev_UpdatedAt :: instant

type_synonym key = "int \<times> string"

record Subscription =
  sub_events :: "ValueEvent list"
  sub_buffer :: nat
  sub_done :: bool
  sub_keys :: "key list"

record Hub =
  hub_max :: int
  hub_subscriptions :: "key \<rightharpoonup> nat list"
  hub_heap :: "nat \<rightharpoonup> Subscription"
  hub_next :: nat

datatype hub_error = DeviceIDNotPositive | EmptyTag | SubscriptionLimit

definition NewHub :: "int \<Rightarrow> Hub" where
  "NewHub m = \<lparr>hub_max = m, hub_subscriptions = Map.empty, hub_heap = Map.empty, hub_next = 0\<rparr>"

definition Subscribe :: "int \<Rightarrow> Hub \<Rightarrow> nat \<times> Hub" where
  "Subscribe buffer h =
     (let buffer = (if buffer < 1 then 1 else buffer) in
      (hub_next h, h\<lparr>hub_heap := (hub_heap h)(hub_next h \<mapsto> \<lparr>sub_events = [],
          sub_buffer = nat buffer, sub_done = False, sub_keys = []\<rparr>),
        hub_next := hub_next h + 1\<rparr>))"

text \<open>The first loop of \<open>Set\<close>: trimmed tags without repetitions, or the empty-tag error.\<close>

fun clean_tags :: "string list \<Rightarrow> string list \<Rightarrow> string list option" where
  "clean_tags clean [] = Some clean"
| "clean_tags clean (tag # tags) =
     (let tag = TrimSpace tag in
      if tag = [] then None
      else if tag \<in> set clean then clean_tags clean tags
      else clean_tags (clean @ [tag]) tags)"

definition index_add :: "key \<Rightarrow> nat \<Rightarrow> (key \<rightharpoonup> nat list) \<Rightarrow> (key \<rightharpoonup> nat list)" where
  "index_add k s subs =
     subs(k \<mapsto> List.insert s (case subs k of None \<Rightarrow> [] | Some ids \<Rightarrow> ids))"

definition index_remove :: "key \<Rightarrow> nat \<Rightarrow> (key \<rightharpoonup> nat list) \<Rightarrow> (key \<rightharpoonup> nat list)" where
  "index_remove k s subs =
     (case subs k of
        None \<Rightarrow> subs
      | Some ids \<Rightarrow> if removeAll s ids = [] then subs(k := None) else subs(k \<mapsto> removeAll s ids))"

text \<open>One turn of the second loop of \<open>Set\<close> and of the loop of \<open>Remove\<close>.\<close>

definition add_key :: "nat \<Rightarrow> key \<Rightarrow> Hub \<Rightarrow> Hub" where
  "add_key s k h =
     (case hub_heap h s of
        None \<Rightarrow> h
      | Some sub \<Rightarrow>
          h\<lparr>hub_heap := (hub_heap h)(s \<mapsto> sub\<lparr>sub_keys := List.insert k (sub_keys sub)\<rparr>),
            hub_subscriptions := index_add k s (hub_subscriptions h)\<rparr>)"

definition remove_key :: "nat \<Rightarrow> key \<Rightarrow> Hub \<Rightarrow> Hub" where
  "remove_key s k h =
     (case hub_heap h s of
        None \<Rightarrow> h
      | Some sub \<Rightarrow>
          h\<lparr>hub_heap := (hub_heap h)(s \<mapsto> sub\<lparr>sub_keys := removeAll k (sub_keys sub)\<rparr>),
            hub_subscriptions := index_remove k s (hub_subscriptions h)\<rparr>)"

definition hub_Set :: "nat \<Rightarrow> int \<Rightarrow> string list \<Rightarrow> Hub \<Rightarrow> hub_error option \<times> Hub" where
  "hub_Set s deviceID tags h =
     (if deviceID < 1 then (Some DeviceIDNotPositive, h)
      else
        case clean_tags [] tags of
          None \<Rightarrow> (Some EmptyTag, h)
        | Some clean \<Rightarrow>
            (case hub_heap h s of
               None \<Rightarrow> (None, h)
             | Some sub \<Rightarrow>
                 let newKeys = length (filter (\<lambda>tag. (deviceID, tag) \<notin> set (sub_keys sub)) clean) in
                 if int (length (sub_keys sub)) + int newKeys > hub_max h
                 then (Some SubscriptionLimit, h)
                 else
                   (None, foldl (\<lambda>h tag. add_key s (deviceID, tag) h) h clean)))"

definition hub_Remove :: "nat \<Rightarrow> int \<Rightarrow> string list \<Rightarrow> Hub \<Rightarrow> Hub" where
  "hub_Remove s deviceID tags h =
     foldl (\<lambda>h tag. remove_key s (deviceID, TrimSpace tag) h) h tags"

text \<open>\<open>Close\<close>; its \<open>sync.Once\<close> has fired exactly when \<open>done\<close> is closed.\<close>

definition hub_Close :: "nat \<Rightarrow> Hub \<Rightarrow> Hub" where
  "hub_Close s h =
     (case hub_heap h s of
        None \<Rightarrow> h
      | Some sub \<Rightarrow>
          if sub_done sub then h
          else h\<lparr>hub_subscriptions :=
                   foldl (\<lambda>subs k. index_remove k s subs) (hub_subscriptions h) (sub_keys sub),
                 hub_heap := (hub_heap h)(s \<mapsto> sub\<lparr>sub_keys := [], sub_done := True\<rparr>)\<rparr>)"

text \<open>One turn of the delivery loop.\<close>

definition deliver :: "(nat \<Rightarrow> bool) \<Rightarrow> ValueEvent \<Rightarrow> nat \<Rightarrow> Hub \<Rightarrow> Hub" where
  "deliver pick event s h =
     (case hub_heap h s of
        None \<Rightarrow> h
      | Some sub \<Rightarrow>
          let room = (length (sub_events sub) < sub_buffer sub) in
          if sub_done sub \<and> (\<not> room \<or> pick s) then h
          else if room then h\<lparr>hub_heap := (hub_heap h)(s \<mapsto> sub\<lparr>sub_events := sub_events sub @ [event]\<rparr>)\<rparr>
          else hub_Close s h)"

definition Publish :: "(nat \<Rightarrow> bool) \<Rightarrow> ValueEvent \<Rightarrow> Hub \<Rightarrow> Hub" where
  "Publish pick event h =
     foldl (\<lambda>h s. deliver pick event s h) h
       (case hub_subscriptions h (ev_DeviceID event, ev_TagName event) of None \<Rightarrow> [] | Some ids \<Rightarrow> ids)"

text \<open>The consumer's side: receiving one buffered event.\<close>

definition receive :: "nat \<Rightarrow> Hub \<Rightarrow> Hub" where
  "receive s h =
     (case hub_heap h s of
        None \<Rightarrow> h
      | Some sub \<Rightarrow> h\<lparr>hub_heap := (hub_heap h)(s \<mapsto> sub\<lparr>sub_events := tl (sub_events sub)\<rparr>)\<rparr>)"

section \<open>The index invariant\<close>

definition index_ids :: "Hub \<Rightarrow> key \<Rightarrow> nat list" where
  "index_ids h k = (case hub_subscriptions h k of None \<Rightarrow> [] | Some ids \<Rightarrow> ids)"

definition keys_of :: "Hub \<Rightarrow> nat \<Rightarrow> key list" where
  "keys_of h s = (case hub_heap h s of None \<Rightarrow> [] | Some sub \<Rightarrow> sub_keys sub)"

text \<open>
  The index and the subscriptions' own key sets say the same; no empty index entry is kept; no
  subscription exceeds the limit or its buffer.
\<close>

definition hub_wf :: "Hub \<Rightarrow> bool" where
  "hub_wf h \<longleftrightarrow>
     (\<forall>k s. s \<in> set (index_ids h k) \<longleftrightarrow> k \<in> set (keys_of h s)) \<and>
     (\<forall>k. distinct (index_ids h k) \<and> hub_subscriptions h k \<noteq> Some []) \<and>
     (\<forall>s sub. hub_heap h s = Some sub \<longrightarrow> s < hub_next h \<and> distinct (sub_keys sub) \<and>
        int (length (sub_keys sub)) \<le> max 0 (hub_max h) \<and>
        length (sub_events sub) \<le> sub_buffer sub)"

lemma index_add_ids:
  "(case index_add k s subs k' of None \<Rightarrow> [] | Some ids \<Rightarrow> ids) =
     (if k' = k then List.insert s (case subs k of None \<Rightarrow> [] | Some ids \<Rightarrow> ids)
      else (case subs k' of None \<Rightarrow> [] | Some ids \<Rightarrow> ids))"
  by (simp add: index_add_def)

lemma index_remove_ids:
  "(case index_remove k s subs k' of None \<Rightarrow> [] | Some ids \<Rightarrow> ids) =
     (if k' = k then removeAll s (case subs k of None \<Rightarrow> [] | Some ids \<Rightarrow> ids)
      else (case subs k' of None \<Rightarrow> [] | Some ids \<Rightarrow> ids))"
  by (auto simp: index_remove_def split: option.split)

lemma index_nonempty:
  "subs k \<noteq> Some [] \<Longrightarrow> index_add k' s subs k \<noteq> Some []"
  "subs k \<noteq> Some [] \<Longrightarrow> index_remove k' s subs k \<noteq> Some []"
  by (auto simp: index_add_def index_remove_def List.insert_def split: option.splits)

text \<open>The invariant without the limit, which the loop of \<open>Set\<close> keeps at every turn.\<close>

definition hub_core :: "Hub \<Rightarrow> bool" where
  "hub_core h \<longleftrightarrow>
     (\<forall>k s. s \<in> set (index_ids h k) \<longleftrightarrow> k \<in> set (keys_of h s)) \<and>
     (\<forall>k. distinct (index_ids h k)) \<and> (\<forall>k. hub_subscriptions h k \<noteq> Some []) \<and>
     (\<forall>s sub. hub_heap h s = Some sub \<longrightarrow> s < hub_next h \<and> distinct (sub_keys sub) \<and>
        length (sub_events sub) \<le> sub_buffer sub)"

definition hub_limit :: "Hub \<Rightarrow> bool" where
  "hub_limit h \<longleftrightarrow> (\<forall>s. int (length (keys_of h s)) \<le> max 0 (hub_max h))"

lemma hub_wf_split: "hub_wf h \<longleftrightarrow> hub_core h \<and> hub_limit h"
proof -
  have "hub_limit h \<longleftrightarrow> (\<forall>s sub. hub_heap h s = Some sub \<longrightarrow> int (length (sub_keys sub)) \<le> max 0 (hub_max h))"
    unfolding hub_limit_def keys_of_def by (auto split: option.split)
  then show ?thesis unfolding hub_wf_def hub_core_def by blast
qed

lemma hub_coreD:
  assumes "hub_core h"
  shows "s \<in> set (index_ids h k) \<longleftrightarrow> k \<in> set (keys_of h s)" "distinct (index_ids h k)"
    "hub_subscriptions h k \<noteq> Some []"
    "hub_heap h s = Some sub \<Longrightarrow> s < hub_next h \<and> distinct (sub_keys sub) \<and>
        length (sub_events sub) \<le> sub_buffer sub"
  using assms unfolding hub_core_def by blast+

text \<open>How the three primitive changes act on the index and on the key sets.\<close>

lemma add_key_views:
  assumes "hub_heap h s = Some sub"
  shows "index_ids (add_key s k h) k' = (if k' = k then List.insert s (index_ids h k) else index_ids h k')"
    "keys_of (add_key s k h) s' = (if s' = s then List.insert k (keys_of h s) else keys_of h s')"
    "hub_heap (add_key s k h) s' =
       (if s' = s then Some (sub\<lparr>sub_keys := List.insert k (sub_keys sub)\<rparr>) else hub_heap h s')"
    "hub_subscriptions (add_key s k h) = index_add k s (hub_subscriptions h)"
    "hub_max (add_key s k h) = hub_max h" "hub_next (add_key s k h) = hub_next h"
  using assms by (simp_all add: add_key_def index_ids_def keys_of_def index_add_ids)

lemma remove_key_views:
  assumes "hub_heap h s = Some sub"
  shows "index_ids (remove_key s k h) k' = (if k' = k then removeAll s (index_ids h k) else index_ids h k')"
    "keys_of (remove_key s k h) s' = (if s' = s then removeAll k (keys_of h s) else keys_of h s')"
    "hub_heap (remove_key s k h) s' =
       (if s' = s then Some (sub\<lparr>sub_keys := removeAll k (sub_keys sub)\<rparr>) else hub_heap h s')"
    "hub_subscriptions (remove_key s k h) = index_remove k s (hub_subscriptions h)"
    "hub_max (remove_key s k h) = hub_max h" "hub_next (remove_key s k h) = hub_next h"
  using assms by (simp_all add: remove_key_def index_ids_def keys_of_def index_remove_ids)

lemma add_key_core:
  assumes "hub_core h"
  shows "hub_core (add_key s k h)"
proof (cases "hub_heap h s")
  case None
  with assms show ?thesis by (simp add: add_key_def)
next
  case (Some sub)
  note v = add_key_views [OF Some]
  show ?thesis
    unfolding hub_core_def
  proof (intro conjI allI impI)
    show "s' \<in> set (index_ids (add_key s k h) k') \<longleftrightarrow> k' \<in> set (keys_of (add_key s k h) s')" for k' s'
      by (auto simp: v hub_coreD(1) [OF assms])
    show "distinct (index_ids (add_key s k h) k')" for k'
      by (simp add: v hub_coreD(2) [OF assms])
    show "hub_subscriptions (add_key s k h) k' \<noteq> Some []" for k'
      unfolding v(4) by (rule index_nonempty(1)) (rule hub_coreD(3) [OF assms])
  qed (use hub_coreD(4) [OF assms] Some in \<open>auto simp: v split: if_splits\<close>)
qed

lemma remove_key_core:
  assumes "hub_core h"
  shows "hub_core (remove_key s k h)"
proof (cases "hub_heap h s")
  case None
  with assms show ?thesis by (simp add: remove_key_def)
next
  case (Some sub)
  note v = remove_key_views [OF Some]
  show ?thesis
    unfolding hub_core_def
  proof (intro conjI allI impI)
    show "s' \<in> set (index_ids (remove_key s k h) k') \<longleftrightarrow> k' \<in> set (keys_of (remove_key s k h) s')" for k' s'
      by (auto simp: v hub_coreD(1) [OF assms])
    show "distinct (index_ids (remove_key s k h) k')" for k'
      by (simp add: v hub_coreD(2) [OF assms] distinct_removeAll)
    show "hub_subscriptions (remove_key s k h) k' \<noteq> Some []" for k'
      unfolding v(4) by (rule index_nonempty(2)) (rule hub_coreD(3) [OF assms])
  qed (use hub_coreD(4) [OF assms] Some in \<open>auto simp: v distinct_removeAll split: if_splits\<close>)
qed

lemma foldl_index_remove:
  "(case foldl (\<lambda>subs k. index_remove k s subs) subs ks k' of None \<Rightarrow> [] | Some ids \<Rightarrow> ids) =
     (if k' \<in> set ks then removeAll s (case subs k' of None \<Rightarrow> [] | Some ids \<Rightarrow> ids)
      else (case subs k' of None \<Rightarrow> [] | Some ids \<Rightarrow> ids))"
  by (induction ks arbitrary: subs) (auto simp: index_remove_ids)

lemma foldl_index_remove_nonempty:
  "subs k' \<noteq> Some [] \<Longrightarrow> foldl (\<lambda>subs k. index_remove k s subs) subs ks k' \<noteq> Some []"
  by (induction ks arbitrary: subs) (auto intro: index_nonempty(2) [THEN notE])

lemma close_views:
  assumes "hub_heap h s = Some sub" "\<not> sub_done sub" "hub_core h"
  shows "index_ids (hub_Close s h) k = removeAll s (index_ids h k)"
    "keys_of (hub_Close s h) s' = (if s' = s then [] else keys_of h s')"
    "hub_heap (hub_Close s h) s' =
       (if s' = s then Some (sub\<lparr>sub_keys := [], sub_done := True\<rparr>) else hub_heap h s')"
    "hub_max (hub_Close s h) = hub_max h" "hub_next (hub_Close s h) = hub_next h"
    "hub_subscriptions (hub_Close s h) k \<noteq> Some []"
proof -
  have "s \<in> set (index_ids h k) \<longleftrightarrow> k \<in> set (sub_keys sub)"
    using hub_coreD(1) [OF assms(3), of s k] assms(1) by (simp add: keys_of_def)
  then show "index_ids (hub_Close s h) k = removeAll s (index_ids h k)"
    using assms(1,2) by (simp add: hub_Close_def index_ids_def foldl_index_remove)
  show "hub_subscriptions (hub_Close s h) k \<noteq> Some []"
    using assms(1,2) foldl_index_remove_nonempty [OF hub_coreD(3) [OF assms(3)]]
    by (simp add: hub_Close_def)
qed (use assms(1,2) in \<open>simp_all add: hub_Close_def keys_of_def\<close>)

lemma close_core:
  assumes "hub_core h"
  shows "hub_core (hub_Close s h)"
proof (cases "\<exists>sub. hub_heap h s = Some sub \<and> \<not> sub_done sub")
  case False
  then have "hub_Close s h = h" by (auto simp: hub_Close_def split: option.split)
  with assms show ?thesis by simp
next
  case True
  then obtain sub where "hub_heap h s = Some sub" "\<not> sub_done sub" by blast
  note v = close_views [OF this assms]
  show ?thesis
    unfolding hub_core_def
  proof (intro conjI allI impI)
    show "s' \<in> set (index_ids (hub_Close s h) k') \<longleftrightarrow> k' \<in> set (keys_of (hub_Close s h) s')" for k' s'
      by (auto simp: v hub_coreD(1) [OF assms])
    show "distinct (index_ids (hub_Close s h) k')" for k'
      by (simp add: v hub_coreD(2) [OF assms] distinct_removeAll)
    show "hub_subscriptions (hub_Close s h) k' \<noteq> Some []" for k' by (rule v(6))
  qed (use hub_coreD(4) [OF assms] \<open>hub_heap h s = Some sub\<close> in \<open>auto simp: v split: if_splits\<close>)
qed

text \<open>A change of a subscription's buffered events alone leaves the index intact.\<close>

lemma events_core:
  assumes "hub_core h" "hub_heap h s = Some sub" "length evs \<le> sub_buffer sub"
  shows "hub_core (h\<lparr>hub_heap := (hub_heap h)(s \<mapsto> sub\<lparr>sub_events := evs\<rparr>)\<rparr>)"
proof -
  let ?h = "h\<lparr>hub_heap := (hub_heap h)(s \<mapsto> sub\<lparr>sub_events := evs\<rparr>)\<rparr>"
  have v: "index_ids ?h k = index_ids h k" "keys_of ?h s' = keys_of h s'" for k s'
    using assms(2) by (simp_all add: index_ids_def keys_of_def)
  show ?thesis
    unfolding hub_core_def v
    using hub_coreD [OF assms(1)] assms(2,3) by (auto split: if_splits)
qed

lemma deliver_core: "hub_core h \<Longrightarrow> hub_core (deliver pick event s h)"
  unfolding deliver_def Let_def by (auto simp: close_core intro!: events_core split: option.split)

lemma receive_core: "hub_core h \<Longrightarrow> hub_core (receive s h)"
  unfolding receive_def using hub_coreD(4) [of h s]
  by (auto intro!: events_core split: option.split)

section \<open>The limit\<close>

lemma close_limit: "hub_core h \<Longrightarrow> hub_limit h \<Longrightarrow> hub_limit (hub_Close s h)"
proof (cases "\<exists>sub. hub_heap h s = Some sub \<and> \<not> sub_done sub")
  case False
  then have "hub_Close s h = h" by (auto simp: hub_Close_def split: option.split)
  then show "hub_limit h \<Longrightarrow> ?thesis" by simp
next
  case True
  assume c: "hub_core h" and l: "hub_limit h"
  from True obtain sub where "hub_heap h s = Some sub" "\<not> sub_done sub" by blast
  note v = close_views [OF this c]
  show ?thesis using l by (simp add: hub_limit_def v)
qed

lemma events_keys [simp]:
  "hub_heap h s = Some sub \<Longrightarrow>
     keys_of (h\<lparr>hub_heap := (hub_heap h)(s \<mapsto> sub\<lparr>sub_events := evs\<rparr>)\<rparr>) s' = keys_of h s'"
  by (simp add: keys_of_def)

lemma deliver_limit: "hub_core h \<Longrightarrow> hub_limit h \<Longrightarrow> hub_limit (deliver pick event s h)"
  unfolding deliver_def Let_def
  by (auto simp: close_limit split: option.split) (auto simp: hub_limit_def)

lemma receive_limit: "hub_limit h \<Longrightarrow> hub_limit (receive s h)"
  unfolding receive_def by (auto split: option.split) (auto simp: hub_limit_def)

lemma remove_key_limit: "hub_limit h \<Longrightarrow> hub_limit (remove_key s k h)"
proof (cases "hub_heap h s")
  case (Some sub)
  assume l: "hub_limit h"
  have "int (length (removeAll k (keys_of h s))) \<le> int (length (keys_of h s))"
    by (simp add: length_removeAll_less_eq)
  also have "\<dots> \<le> max 0 (hub_max h)" using l by (simp add: hub_limit_def)
  finally show ?thesis
    using l by (simp add: hub_limit_def remove_key_views [OF Some])
qed (simp add: remove_key_def)

lemma foldl_add_key_keys:
  assumes "hub_heap h s \<noteq> None"
  shows "keys_of (foldl (\<lambda>h tag. add_key s (d, tag) h) h tags) s' =
      (if s' = s then foldl (\<lambda>ks tag. List.insert (d, tag) ks) (keys_of h s) tags else keys_of h s') \<and>
    hub_max (foldl (\<lambda>h tag. add_key s (d, tag) h) h tags) = hub_max h"
  using assms
proof (induction tags arbitrary: h)
  case (Cons tag tags)
  then obtain sub where sub: "hub_heap h s = Some sub" by blast
  note v = add_key_views [OF sub, of "(d, tag)"]
  have "hub_heap (add_key s (d, tag) h) s \<noteq> None" by (simp add: v)
  from Cons.IH [OF this] show ?case by (simp add: v)
qed simp

lemma length_foldl_insert:
  "distinct tags \<Longrightarrow> length (foldl (\<lambda>ks tag. List.insert (d, tag) ks) ks tags) =
     length ks + length (filter (\<lambda>tag. (d, tag) \<notin> set ks) tags)"
proof (induction tags arbitrary: ks)
  case (Cons tag tags)
  have "filter (\<lambda>t. (d, t) \<notin> set (List.insert (d, tag) ks)) tags = filter (\<lambda>t. (d, t) \<notin> set ks) tags"
    using Cons.prems by (intro filter_cong) auto
  with Cons show ?case by (simp add: List.insert_def)
qed simp

lemma clean_tags_distinct: "clean_tags clean tags = Some cl \<Longrightarrow> distinct clean \<Longrightarrow> distinct cl"
  by (induction clean tags rule: clean_tags.induct) (auto simp: Let_def split: if_splits)

lemma Set_wf: "hub_wf h \<Longrightarrow> hub_wf (snd (hub_Set s d tags h))"
proof -
  assume wf: "hub_wf h"
  show ?thesis
  proof (cases "fst (hub_Set s d tags h) = None \<and> hub_heap h s \<noteq> None")
    case False
    then have "snd (hub_Set s d tags h) = h"
      by (auto simp: hub_Set_def Let_def split: option.splits)
    with wf show ?thesis by simp
  next
    case True
    then obtain clean sub where c: "clean_tags [] tags = Some clean" "hub_heap h s = Some sub"
      "\<not> int (length (sub_keys sub)) + int (length (filter (\<lambda>tag. (d, tag) \<notin> set (sub_keys sub)) clean)) > hub_max h"
      "snd (hub_Set s d tags h) = foldl (\<lambda>h tag. add_key s (d, tag) h) h clean"
      by (auto simp: hub_Set_def Let_def split: option.splits if_splits)
    have "hub_core (foldl (\<lambda>h tag. add_key s (d, tag) h) h clean)"
      using wf by (intro foldl_invariant [where P = hub_core] add_key_core) (simp add: hub_wf_split)
    moreover have "hub_limit (foldl (\<lambda>h tag. add_key s (d, tag) h) h clean)"
    proof -
      have len: "length (foldl (\<lambda>ks tag. List.insert (d, tag) ks) (sub_keys sub) clean) =
          length (sub_keys sub) + length (filter (\<lambda>tag. (d, tag) \<notin> set (sub_keys sub)) clean)"
        using clean_tags_distinct [OF c(1)] by (intro length_foldl_insert) simp
      have ks: "keys_of h s = sub_keys sub" by (simp add: keys_of_def c(2))
      have l: "hub_limit h" using wf by (simp add: hub_wf_split)
      have "int (length (keys_of (foldl (\<lambda>h tag. add_key s (d, tag) h) h clean) s')) \<le> max 0 (hub_max h)" for s'
        using foldl_add_key_keys [of h s d clean s'] c(2,3) l
        by (cases "s' = s") (simp_all add: ks len hub_limit_def)
      then show ?thesis using foldl_add_key_keys [of h s d clean] c(2) by (simp add: hub_limit_def)
    qed
    ultimately show ?thesis by (simp add: c hub_wf_split)
  qed
qed

section \<open>Every history of operations\<close>

datatype hub_op =
    OpSubscribe int
  | OpSet nat int "string list"
  | OpRemove nat int "string list"
  | OpClose nat
  | OpPublish ValueEvent
  | OpDeliver ValueEvent nat
  | OpReceive nat

fun hub_step :: "(nat \<Rightarrow> bool) \<Rightarrow> hub_op \<Rightarrow> Hub \<Rightarrow> Hub" where
  "hub_step pick (OpSubscribe buffer) h = snd (Subscribe buffer h)"
| "hub_step pick (OpSet s d tags) h = snd (hub_Set s d tags h)"
| "hub_step pick (OpRemove s d tags) h = hub_Remove s d tags h"
| "hub_step pick (OpClose s) h = hub_Close s h"
| "hub_step pick (OpPublish ev) h = Publish pick ev h"
| "hub_step pick (OpDeliver ev s) h = deliver pick ev s h"
| "hub_step pick (OpReceive s) h = receive s h"

definition hub_run :: "(nat \<Rightarrow> bool) \<Rightarrow> hub_op list \<Rightarrow> Hub \<Rightarrow> Hub" where
  "hub_run pick ops h = foldl (\<lambda>h op. hub_step pick op h) h ops"

lemma Subscribe_wf: "hub_wf h \<Longrightarrow> hub_wf (snd (Subscribe buffer h))"
proof -
  assume wf: "hub_wf h"
  let ?h = "snd (Subscribe buffer h)"
  have fresh: "hub_heap h (hub_next h) = None"
    using wf unfolding hub_wf_def by (metis less_irrefl not_None_eq)
  have v: "index_ids ?h k = index_ids h k" "keys_of ?h s = keys_of h s"
    "hub_subscriptions ?h = hub_subscriptions h" "hub_next ?h = Suc (hub_next h)" "hub_max ?h = hub_max h" for k s
    using fresh by (simp_all add: Subscribe_def Let_def index_ids_def keys_of_def)
  have "hub_core ?h"
    unfolding hub_core_def v
    using wf by (auto simp: hub_wf_split hub_core_def Subscribe_def Let_def less_Suc_eq split: if_splits)
  moreover have "hub_limit ?h" using wf by (simp add: hub_limit_def v hub_wf_split)
  ultimately show ?thesis by (simp add: hub_wf_split)
qed

lemma hub_step_wf: "hub_wf h \<Longrightarrow> hub_wf (hub_step pick op h)"
proof (cases op)
  case (OpSubscribe b)
  assume "hub_wf h"
  then show ?thesis using OpSubscribe by (simp add: Subscribe_wf)
next
  case (OpSet s d tags)
  assume "hub_wf h"
  then show ?thesis using OpSet by (simp add: Set_wf)
next
  case (OpRemove s d tags)
  assume wf: "hub_wf h"
  have "hub_core (hub_Remove s d tags h)" "hub_limit (hub_Remove s d tags h)"
    unfolding hub_Remove_def
    using wf by (intro foldl_invariant [where P = hub_core] foldl_invariant [where P = hub_limit];
        simp add: hub_wf_split remove_key_core remove_key_limit)+
  then show ?thesis using OpRemove by (simp add: hub_wf_split)
next
  case (OpClose s)
  assume "hub_wf h"
  then show ?thesis using OpClose by (simp add: hub_wf_split close_core close_limit)
next
  case (OpPublish ev)
  assume "hub_wf h"
  then have "hub_wf (Publish pick ev h)"
    unfolding Publish_def
    by (intro foldl_invariant [where P = hub_wf]) (simp_all add: hub_wf_split deliver_core deliver_limit)
  then show ?thesis using OpPublish by simp
next
  case (OpDeliver ev s)
  assume "hub_wf h"
  then show ?thesis using OpDeliver by (simp add: hub_wf_split deliver_core deliver_limit)
next
  case (OpReceive s)
  assume "hub_wf h"
  then show ?thesis using OpReceive by (simp add: hub_wf_split receive_core receive_limit)
qed

lemma NewHub_wf: "hub_wf (NewHub m)"
  by (simp add: hub_wf_def NewHub_def index_ids_def keys_of_def)

lemma hub_run_wf: "hub_wf h \<Longrightarrow> hub_wf (hub_run pick ops h)"
  unfolding hub_run_def by (rule foldl_invariant [where P = hub_wf]) (auto intro: hub_step_wf)

section \<open>Delivery\<close>

lemma deliver_other:
  "s' \<noteq> s \<Longrightarrow> hub_heap (deliver pick ev s h) s' = hub_heap h s'"
  by (auto simp: deliver_def Let_def hub_Close_def split: option.split)

lemma deliver_foldl_other:
  "s' \<notin> set ids \<Longrightarrow> hub_heap (foldl (\<lambda>h s. deliver pick ev s h) h ids) s' = hub_heap h s'"
  by (induction ids arbitrary: h) (auto simp: deliver_other)

lemma deliver_foldl_mem:
  assumes "distinct ids" "s \<in> set ids"
  shows "\<exists>h'. hub_heap h' s = hub_heap h s \<and>
    hub_heap (foldl (\<lambda>h s. deliver pick ev s h) h ids) s = hub_heap (deliver pick ev s h') s"
proof -
  obtain xs ys where ids: "ids = xs @ s # ys" using assms(2) by (meson split_list)
  have n: "s \<notin> set xs" "s \<notin> set ys" using assms(1) by (auto simp: ids)
  show ?thesis
    by (rule exI [of _ "foldl (\<lambda>h s. deliver pick ev s h) h xs"])
      (simp add: ids deliver_foldl_other n)
qed

section \<open>Properties\<close>

text \<open>
  C13: over any history of subscribing, setting, removing, closing, publishing, single deliveries of
  a publishing under way, and receiving, the hub's index and the subscriptions' own key sets mirror each other exactly, no empty or stale
  entry is left in the index, no connection holds more keys than the limit, and no event buffer
  exceeds its capacity.
\<close>

theorem hub_consistent: "hub_wf (hub_run pick ops (NewHub m))"
  by (rule hub_run_wf) (rule NewHub_wf)

text \<open>
  C23: publishing is exact and never blocks: in every reachable hub, a subscription that does not hold
  the event's key is untouched; an open one that holds it gets the event at the end of its buffer when
  there is room, and is closed and stripped of its keys when there is none; one that was closed
  and then set again still gets it if there is room and Go's choice falls on the buffer, and is
  untouched otherwise.
\<close>

theorem publish_exact:
  assumes "h = hub_run pick ops (NewHub m)" and "hub_heap h s = Some sub"
  shows "hub_heap (Publish pick ev h) s = Some
    (if (ev_DeviceID ev, ev_TagName ev) \<notin> set (sub_keys sub) then sub
     else if \<not> sub_done sub then
       (if length (sub_events sub) < sub_buffer sub then sub\<lparr>sub_events := sub_events sub @ [ev]\<rparr>
        else sub\<lparr>sub_keys := [], sub_done := True\<rparr>)
     else if length (sub_events sub) < sub_buffer sub \<and> \<not> pick s then sub\<lparr>sub_events := sub_events sub @ [ev]\<rparr>
     else sub)"
proof -
  let ?k = "(ev_DeviceID ev, ev_TagName ev)"
  have wf: "hub_core h" using hub_run_wf [OF NewHub_wf] assms(1) by (simp add: hub_wf_split)
  have P: "Publish pick ev h = foldl (\<lambda>h s. deliver pick ev s h) h (index_ids h ?k)"
    by (simp add: Publish_def index_ids_def)
  have mem: "s \<in> set (index_ids h ?k) \<longleftrightarrow> ?k \<in> set (sub_keys sub)"
    using hub_coreD(1) [OF wf, of s ?k] assms(2) by (simp add: keys_of_def)
  show ?thesis
  proof (cases "?k \<in> set (sub_keys sub)")
    case False
    then show ?thesis using assms(2) mem by (simp add: P deliver_foldl_other)
  next
    case True
    with mem deliver_foldl_mem [OF hub_coreD(2) [OF wf, of ?k], where s = s and pick = pick and ev = ev and h = h] obtain h' where
      "hub_heap h' s = Some sub" "hub_heap (Publish pick ev h) s = hub_heap (deliver pick ev s h') s"
      using assms(2) P by auto
    with True show ?thesis by (simp add: deliver_def Let_def hub_Close_def)
  qed
qed

lemma clean_tags_set:
  "clean_tags clean tags = Some cl \<Longrightarrow>
     set cl = set clean \<union> TrimSpace ` set tags \<and> (\<forall>t\<in>set tags. TrimSpace t \<noteq> [])"
proof (induction clean tags rule: clean_tags.induct)
  case (2 clean tag tags)
  define t where "t = TrimSpace tag"
  consider "t = []" | "t \<noteq> []" "t \<in> set clean" | "t \<noteq> []" "t \<notin> set clean" by blast
  then show ?case
  proof cases
    case 1
    with "2.prems" show ?thesis by (simp add: t_def)
  next
    case 2
    with "2.IH"(1) "2.prems" show ?thesis by (auto simp: t_def Let_def)
  next
    case 3
    with "2.IH"(2) "2.prems" show ?thesis by (auto simp: t_def Let_def)
  qed
qed simp

lemma set_foldl_insert: "set (foldl (\<lambda>ks tag. List.insert (d, tag) ks) ks tags) = set ks \<union> Pair d ` set tags"
  by (induction tags arbitrary: ks) auto

text \<open>
  A subscription request is all or nothing: on an error (bad device number, an empty tag,
  the limit) the hub is unchanged; on success the subscription holds its old keys and exactly
  the trimmed requested tags of the device in addition.
\<close>

lemma subscribe_all_or_nothing:
  assumes "hub_Set s d tags h = (err, h')" and "hub_heap h s = Some sub"
  shows "(err \<noteq> None \<longrightarrow> h' = h) \<and>
    (err = None \<longrightarrow> 0 < d \<and> (\<forall>t\<in>set tags. TrimSpace t \<noteq> []) \<and>
       set (keys_of h' s) = set (sub_keys sub) \<union> (\<lambda>t. (d, TrimSpace t)) ` set tags)"
proof (cases err)
  case (Some e)
  then show ?thesis
    using assms by (auto simp: hub_Set_def Let_def split: option.splits if_splits)
next
  case None
  with assms obtain clean where c: "clean_tags [] tags = Some clean" "0 < d"
    "h' = foldl (\<lambda>h tag. add_key s (d, tag) h) h clean"
    by (auto simp: hub_Set_def Let_def split: option.splits if_splits)
  show ?thesis
    using None c(2) clean_tags_set [OF c(1)] foldl_add_key_keys [of h s d clean s] assms(2)
    by (auto simp: c(3) set_foldl_insert keys_of_def)
qed

section \<open>Witnesses\<close>

lemma sample_tag: "TrimSpace ''a'' = ''a''"
  by (rule TrimSpace_id) (simp_all add: ascii_word_char_def)

definition sample_hub :: Hub where
  "sample_hub = \<lparr>hub_max = 5, hub_subscriptions = [(1, ''a'') \<mapsto> [0]],
     hub_heap = [0 \<mapsto> \<lparr>sub_events = [], sub_buffer = 1, sub_done = False, sub_keys = [(1, ''a'')]\<rparr>],
     hub_next = 1\<rparr>"

lemma sample_set:
  "hub_Set 0 1 [''a''] (snd (Subscribe 1 (NewHub 5))) = (None, sample_hub)"
  by (simp add: hub_Set_def Subscribe_def NewHub_def sample_tag add_key_def index_add_def sample_hub_def Let_def)

lemma sample_run: "sample_hub = hub_run (\<lambda>_. False) [OpSubscribe 1, OpSet 0 1 [''a'']] (NewHub 5)"
  by (simp add: hub_run_def sample_set)

definition sample_event :: ValueEvent where
  "sample_event = \<lparr>ev_DeviceID = 1, ev_TagName = ''a'', ev_Value = VBool True, ev_UpdatedAt = 3\<rparr>"

definition other_event :: ValueEvent where
  "other_event = sample_event\<lparr>ev_TagName := ''b''\<rparr>"

text \<open>An event it holds, one it does not hold, and the second one that finds the buffer full.\<close>

lemma sample_run_full:
  "hub_run (\<lambda>_. False) [OpSubscribe 1, OpSet 0 1 [''a''], OpPublish sample_event] (NewHub 5) = sample_hub\<lparr>hub_heap :=
     [0 \<mapsto> \<lparr>sub_events = [sample_event], sub_buffer = 1, sub_done = False, sub_keys = [(1, ''a'')]\<rparr>]\<rparr>"
  using sample_set by (simp add: hub_run_def Publish_def deliver_def sample_hub_def sample_event_def Let_def)

theorem publish_exact_witness:
  "hub_heap (Publish (\<lambda>_. False) sample_event sample_hub) 0 =
     Some \<lparr>sub_events = [sample_event], sub_buffer = 1, sub_done = False, sub_keys = [(1, ''a'')]\<rparr> \<and>
   hub_heap (Publish (\<lambda>_. False) other_event sample_hub) 0 = hub_heap sample_hub 0 \<and>
   hub_heap (Publish (\<lambda>_. False) sample_event
     (hub_run (\<lambda>_. False) [OpSubscribe 1, OpSet 0 1 [''a''], OpPublish sample_event] (NewHub 5))) 0 =
     Some \<lparr>sub_events = [sample_event], sub_buffer = 1, sub_done = True, sub_keys = []\<rparr>"
proof (intro conjI)
  have sub: "hub_heap sample_hub 0 = Some \<lparr>sub_events = [], sub_buffer = 1, sub_done = False, sub_keys = [(1, ''a'')]\<rparr>"
    by (simp add: sample_hub_def)
  show "hub_heap (Publish (\<lambda>_. False) sample_event sample_hub) 0 =
     Some \<lparr>sub_events = [sample_event], sub_buffer = 1, sub_done = False, sub_keys = [(1, ''a'')]\<rparr>"
    using publish_exact [OF sample_run sub, of sample_event] by (simp add: sample_event_def)
  show "hub_heap (Publish (\<lambda>_. False) other_event sample_hub) 0 = hub_heap sample_hub 0"
    using publish_exact [OF sample_run sub, of other_event] sub by (simp add: other_event_def sample_event_def)
  show "hub_heap (Publish (\<lambda>_. False) sample_event
     (hub_run (\<lambda>_. False) [OpSubscribe 1, OpSet 0 1 [''a''], OpPublish sample_event] (NewHub 5))) 0 =
     Some \<lparr>sub_events = [sample_event], sub_buffer = 1, sub_done = True, sub_keys = []\<rparr>"
    using publish_exact [OF refl, where pick = "\<lambda>_. False" and ops = "[OpSubscribe 1, OpSet 0 1 [''a''], OpPublish sample_event]"
        and m = 5 and s = 0 and ev = sample_event]
    unfolding sample_run_full by (simp add: sample_event_def)
qed

theorem subscribe_all_or_nothing_witness: "set (keys_of sample_hub 0) = {(1, ''a'')}"
  using subscribe_all_or_nothing [OF sample_set]
  by (simp add: Subscribe_def NewHub_def sample_tag)

text \<open>
  A subscription that is set after it was closed is registered again and stays in the index:
  a second \<open>Close\<close> does nothing.
\<close>

lemma set_after_close_leaks:
  "hub_subscriptions (hub_Close 0 (snd (hub_Set 0 1 [''a''] (hub_Close 0 sample_hub)))) (1, ''a'') = Some [0]"
  by (simp add: hub_Close_def sample_hub_def hub_Set_def sample_tag add_key_def index_add_def
      index_remove_def Let_def)

text \<open>And it is delivered to.\<close>

lemma closed_then_set_receives:
  "hub_heap (Publish (\<lambda>_. False) sample_event (snd (hub_Set 0 1 [''a''] (hub_Close 0 sample_hub)))) 0 =
     Some \<lparr>sub_events = [sample_event], sub_buffer = 1, sub_done = True, sub_keys = [(1, ''a'')]\<rparr>"
  by (simp add: hub_Close_def sample_hub_def hub_Set_def sample_tag add_key_def index_add_def
      index_remove_def Publish_def deliver_def sample_event_def Let_def)

end
