(* ===== verification/WebSocket.thy ===== *)
theory WebSocket
  imports Hub
begin

text \<open>
  \<open>internal/httpapi/websocket.go\<close>: one WebSocket connection. The reader goroutine answers commands and
  hands its replies, one after the other, to the channel \<open>out\<close> of 64 places; the writer, which is the
  handler itself, takes from \<open>out\<close> and from the events of its subscription. Both are interleaved with
  whatever other connections and the publishers do on the hub. The third-party connection is reduced
  to whether each of its calls succeeds.
\<close>

section \<open>Commands\<close>

record wsCommand =
  cm_Action :: string
  cm_DeviceID :: int
  cm_Tags :: "string list"

text \<open>An error carries the error of the hub when it comes from \<open>Set\<close>.\<close>

datatype wsMessage = WsError string "hub_error option" | WsValue int string anyval instant

text \<open>
  The origin check of the upgrader: \<open>parse_host\<close> is \<open>url.Parse\<close> reduced to the host, \<open>equal_fold\<close> is
  \<open>strings.EqualFold\<close>.
\<close>

definition check_origin :: "(string \<Rightarrow> string option) \<Rightarrow> (string \<Rightarrow> string \<Rightarrow> bool) \<Rightarrow> string \<Rightarrow> string \<Rightarrow> bool" where
  "check_origin parse_host equal_fold origin host =
     (origin = [] \<or> (case parse_host origin of None \<Rightarrow> False | Some h \<Rightarrow> equal_fold h host))"

definition value_message :: "int \<Rightarrow> string \<Rightarrow> Value \<Rightarrow> wsMessage" where
  "value_message d tag v = WsValue d tag (v_Value v) (v_UpdatedAt v)"

definition snapshot_replies :: "(string \<rightharpoonup> Value) option \<Rightarrow> int \<Rightarrow> string list \<Rightarrow> wsMessage list" where
  "snapshot_replies snapshot d tags =
     (case snapshot of
        None \<Rightarrow> []
      | Some values \<Rightarrow>
          List.map_filter (\<lambda>tag. map_option (value_message d tag) (values tag)) tags)"

text \<open>\<open>snapshot\<close> is the answer of \<open>Snapshot\<close> for the device, \<open>None\<close> when it fails.\<close>

definition run_command :: "nat \<Rightarrow> (string \<rightharpoonup> Value) option \<Rightarrow> wsCommand \<Rightarrow> Hub \<Rightarrow> Hub \<times> wsMessage list" where
  "run_command s snapshot cmd h =
     (let d = cm_DeviceID cmd; tags = cm_Tags cmd in
      if d < 1 \<or> length tags < 1 \<or> 500 < length tags then (h, [WsError ''invalid_subscription'' None])
      else if cm_Action cmd = ''subscribe'' then
        (case hub_Set s d tags h of
           (Some err, h') \<Rightarrow> (h', [WsError ''invalid_subscription'' (Some err)])
         | (None, h') \<Rightarrow> (h', snapshot_replies snapshot d tags))
      else if cm_Action cmd = ''unsubscribe'' then (hub_Remove s d tags h, [])
      else (h, [WsError ''invalid_action'' None]))"

section \<open>The connection\<close>

text \<open>
  \<open>wc_pending\<close> are the replies that the reader still has to hand over, \<open>wc_sent\<close> what was written to
  the client, marked with whether it is a reply. \<open>wc_inflight\<close> are the events of publishers that have
  collected this subscription as a target and not delivered to it yet. \<open>wc_replies\<close>, \<open>wc_asked\<close> and
  \<open>wc_wanted\<close> record all replies that commands gave, all keys that accepted commands asked for, and
  those of them that were not unsubscribed since.
\<close>

record Session =
  wc_hub :: Hub
  wc_reading :: bool
  wc_pending :: "wsMessage list"
  wc_out :: "wsMessage list"
  wc_writing :: bool
  wc_inflight :: "ValueEvent list"
  wc_sent :: "(bool \<times> wsMessage) list"
  wc_replies :: "wsMessage list"
  wc_asked :: "key set"
  wc_wanted :: "key set"

definition ws_open :: "Hub \<Rightarrow> nat \<times> Session" where
  "ws_open h =
     (let (s, h') = Subscribe 64 h in
      (s, \<lparr>wc_hub = h', wc_reading = True, wc_pending = [], wc_out = [], wc_writing = True,
           wc_inflight = [], wc_sent = [], wc_replies = [], wc_asked = {}, wc_wanted = {}\<rparr>))"

definition command_keys :: "wsCommand \<Rightarrow> key set" where
  "command_keys cmd =
     (if cm_DeviceID cmd < 1 \<or> length (cm_Tags cmd) < 1 \<or> 500 < length (cm_Tags cmd) then {}
      else (\<lambda>t. (cm_DeviceID cmd, TrimSpace t)) ` set (cm_Tags cmd))"

definition asked_keys :: "nat \<Rightarrow> wsCommand \<Rightarrow> Hub \<Rightarrow> key set" where
  "asked_keys s cmd h =
     (if cm_Action cmd = ''subscribe'' \<and> fst (hub_Set s (cm_DeviceID cmd) (cm_Tags cmd) h) = None
      then command_keys cmd else {})"

definition dropped_keys :: "wsCommand \<Rightarrow> key set" where
  "dropped_keys cmd = (if cm_Action cmd = ''unsubscribe'' then command_keys cmd else {})"

definition reader_command :: "nat \<Rightarrow> (string \<rightharpoonup> Value) option \<Rightarrow> wsCommand \<Rightarrow> Session \<Rightarrow> Session" where
  "reader_command s snapshot cmd c =
     (let (h, replies) = run_command s snapshot cmd (wc_hub c) in
      c\<lparr>wc_hub := h, wc_pending := replies, wc_replies := wc_replies c @ replies,
        wc_asked := wc_asked c \<union> asked_keys s cmd (wc_hub c),
        wc_wanted := wc_wanted c \<union> asked_keys s cmd (wc_hub c) - dropped_keys cmd\<rparr>)"

definition reader_send :: "Session \<Rightarrow> Session" where
  "reader_send c = c\<lparr>wc_out := wc_out c @ [hd (wc_pending c)], wc_pending := tl (wc_pending c)\<rparr>"

text \<open>The handler returns: its deferred calls close the subscription.\<close>

definition writer_return :: "nat \<Rightarrow> Session \<Rightarrow> Session" where
  "writer_return s c = c\<lparr>wc_hub := hub_Close s (wc_hub c), wc_writing := False\<rparr>"

definition writer_write :: "nat \<Rightarrow> bool \<Rightarrow> bool \<times> wsMessage \<Rightarrow> Session \<Rightarrow> Session" where
  "writer_write s written m c = (if written then c\<lparr>wc_sent := wc_sent c @ [m]\<rparr> else writer_return s c)"

definition event_message :: "ValueEvent \<Rightarrow> wsMessage" where
  "event_message e = WsValue (ev_DeviceID e) (ev_TagName e) (ev_Value e) (ev_UpdatedAt e)"

definition writer_event :: "nat \<Rightarrow> bool \<Rightarrow> ValueEvent \<Rightarrow> Session \<Rightarrow> Session" where
  "writer_event s written e c =
     writer_write s written (False, event_message e) (c\<lparr>wc_hub := receive s (wc_hub c)\<rparr>)"

definition writer_out :: "nat \<Rightarrow> bool \<Rightarrow> Session \<Rightarrow> Session" where
  "writer_out s written c =
     writer_write s written (True, hd (wc_out c)) (c\<lparr>wc_out := tl (wc_out c)\<rparr>)"

definition writer_ping :: "nat \<Rightarrow> bool \<Rightarrow> Session \<Rightarrow> Session" where
  "writer_ping s written c = (if written then c else writer_return s c)"

fun foreign :: "nat \<Rightarrow> hub_op \<Rightarrow> bool" where
  "foreign s (OpSubscribe b) = True"
| "foreign s (OpPublish ev) = True"
| "foreign s (OpSet s' d tags) = (s' \<noteq> s)"
| "foreign s (OpRemove s' d tags) = (s' \<noteq> s)"
| "foreign s (OpClose s') = (s' \<noteq> s)"
| "foreign s (OpReceive s') = (s' \<noteq> s)"
| "foreign s (OpDeliver ev s') = (s' \<noteq> s)"

inductive ws_step :: "nat \<Rightarrow> Session \<Rightarrow> Session \<Rightarrow> bool" for s where
  Command: "wc_reading c \<Longrightarrow> wc_pending c = [] \<Longrightarrow> ws_step s c (reader_command s snapshot cmd c)"
| ReadError: "wc_reading c \<Longrightarrow> wc_pending c = [] \<Longrightarrow> ws_step s c (c\<lparr>wc_reading := False\<rparr>)"
| Reply: "wc_reading c \<Longrightarrow> wc_pending c \<noteq> [] \<Longrightarrow> length (wc_out c) < 64 \<Longrightarrow> ws_step s c (reader_send c)"
| ReaderGone: "wc_writing c \<Longrightarrow> \<not> wc_reading c \<Longrightarrow> ws_step s c (writer_return s c)"
| SubDone: "wc_writing c \<Longrightarrow> hub_heap (wc_hub c) s = Some sub \<Longrightarrow> sub_done sub \<Longrightarrow> ws_step s c (writer_return s c)"
| Event: "wc_writing c \<Longrightarrow> hub_heap (wc_hub c) s = Some sub \<Longrightarrow> sub_events sub = e # es \<Longrightarrow>
    ws_step s c (writer_event s written e c)"
| Out: "wc_writing c \<Longrightarrow> wc_out c \<noteq> [] \<Longrightarrow> ws_step s c (writer_out s written c)"
| Ping: "wc_writing c \<Longrightarrow> ws_step s c (writer_ping s written c)"
| Target: "(ev_DeviceID ev, ev_TagName ev) \<in> set (keys_of (wc_hub c) s) \<Longrightarrow>
    ws_step s c (c\<lparr>wc_inflight := ev # wc_inflight c\<rparr>)"
| Arrive: "ev \<in> set (wc_inflight c) \<Longrightarrow>
    ws_step s c (c\<lparr>wc_hub := deliver pick ev s (wc_hub c), wc_inflight := remove1 ev (wc_inflight c)\<rparr>)"
| Others: "foreign s op \<Longrightarrow> ws_step s c (c\<lparr>wc_hub := hub_step pick op (wc_hub c)\<rparr>)"

text \<open>The states of a connection that was opened on a hub with any history.\<close>

definition ws_reachable :: "nat \<Rightarrow> Session \<Rightarrow> bool" where
  "ws_reachable s c \<longleftrightarrow>
     (\<exists>pick ops m c0. ws_open (hub_run pick ops (NewHub m)) = (s, c0) \<and> (ws_step s)\<^sup>*\<^sup>* c0 c)"


section \<open>What the hub does to the subscription of the connection\<close>

lemma foldl_add_key_other:
  "s' \<noteq> s \<Longrightarrow> hub_heap (foldl (\<lambda>h tag. add_key s' (d, tag) h) h tags) s = hub_heap h s"
  by (induction tags arbitrary: h) (auto simp: add_key_def split: option.splits)

lemma foldl_remove_key_other:
  "s' \<noteq> s \<Longrightarrow> hub_heap (foldl (\<lambda>h tag. remove_key s' (d, TrimSpace tag) h) h tags) s = hub_heap h s"
  by (induction tags arbitrary: h) (auto simp: remove_key_def split: option.splits)

lemma Publish_heap:
  assumes "hub_core h" "hub_heap h s = Some sub"
  shows "hub_heap (Publish pick ev h) s = Some sub \<or>
    hub_heap (Publish pick ev h) s = Some (sub\<lparr>sub_keys := [], sub_done := True\<rparr>) \<or>
    (ev_DeviceID ev, ev_TagName ev) \<in> set (sub_keys sub) \<and>
    hub_heap (Publish pick ev h) s = Some (sub\<lparr>sub_events := sub_events sub @ [ev]\<rparr>)"
proof -
  let ?k = "(ev_DeviceID ev, ev_TagName ev)"
  have P: "Publish pick ev h = foldl (\<lambda>h s. deliver pick ev s h) h (index_ids h ?k)"
    by (simp add: Publish_def index_ids_def)
  have mem: "s \<in> set (index_ids h ?k) \<longleftrightarrow> ?k \<in> set (sub_keys sub)"
    using hub_coreD(1) [OF assms(1), of s ?k] assms(2) by (simp add: keys_of_def)
  show ?thesis
  proof (cases "?k \<in> set (sub_keys sub)")
    case False
    then show ?thesis using assms(2) mem by (simp add: P deliver_foldl_other)
  next
    case True
    with mem deliver_foldl_mem [OF hub_coreD(2) [OF assms(1), of ?k], where s = s and pick = pick and ev = ev and h = h]
    obtain h' where "hub_heap h' s = Some sub" "hub_heap (Publish pick ev h) s = hub_heap (deliver pick ev s h') s"
      using assms(2) P by auto
    with True show ?thesis by (auto simp: deliver_def Let_def hub_Close_def)
  qed
qed

lemma foreign_heap:
  assumes "hub_wf h" "foreign s op" "hub_heap h s = Some sub"
  shows "hub_heap (hub_step pick op h) s = Some sub \<or>
    hub_heap (hub_step pick op h) s = Some (sub\<lparr>sub_keys := [], sub_done := True\<rparr>) \<or>
    (\<exists>ev. (ev_DeviceID ev, ev_TagName ev) \<in> set (sub_keys sub) \<and>
      hub_heap (hub_step pick op h) s = Some (sub\<lparr>sub_events := sub_events sub @ [ev]\<rparr>))"
proof -
  have core: "hub_core h" using assms(1) by (simp add: hub_wf_split)
  have fresh: "s \<noteq> hub_next h" using hub_coreD(4) [OF core assms(3)] by simp
  show ?thesis
  proof (cases op)
    case (OpPublish ev)
    then show ?thesis using Publish_heap [OF core assms(3), of pick ev] by auto
  next
    case (OpDeliver ev s')
    then show ?thesis using assms(2,3) deliver_other [of s s'] by auto
  qed (use assms(2,3) fresh in \<open>auto simp: Subscribe_def Let_def hub_Set_def foldl_add_key_other hub_Remove_def
      foldl_remove_key_other hub_Close_def receive_def split: option.splits\<close>)
qed

lemma deliver_heap:
  "hub_heap h s = Some sub \<Longrightarrow> hub_heap (deliver pick ev s h) s \<in>
     {Some sub, Some (sub\<lparr>sub_keys := [], sub_done := True\<rparr>), Some (sub\<lparr>sub_events := sub_events sub @ [ev]\<rparr>)}"
  by (auto simp: deliver_def Let_def hub_Close_def)

lemma Set_heap:
  assumes "hub_heap h s = Some sub" "hub_Set s d tags h = (err, h')"
  shows "\<exists>sub'. hub_heap h' s = Some sub' \<and> sub_events sub' = sub_events sub \<and>
    set (sub_keys sub') \<subseteq> set (sub_keys sub) \<union> (if err = None then (\<lambda>t. (d, TrimSpace t)) ` set tags else {})"
proof (cases "err")
  case (Some e)
  then have "h' = h" using assms by (auto simp: hub_Set_def Let_def split: option.splits if_splits)
  with assms(1) show ?thesis by simp
next
  case None
  then obtain clean where c: "clean_tags [] tags = Some clean" "h' = foldl (\<lambda>h tag. add_key s (d, tag) h) h clean"
    using assms by (auto simp: hub_Set_def Let_def split: option.splits if_splits)
  have "\<exists>sub'. hub_heap (foldl (\<lambda>h tag. add_key s (d, tag) h) h ts) s = Some sub' \<and> sub_events sub' = sub_events sub \<and>
      set (sub_keys sub') = set (sub_keys sub) \<union> Pair d ` set ts" for ts
    using assms(1)
  proof (induction ts arbitrary: h sub)
    case (Cons t ts)
    from Cons.IH [of "add_key s (d, t) h"] Cons.prems show ?case by (force simp: add_key_views [OF Cons.prems])
  qed simp
  from this [of clean] show ?thesis using None clean_tags_set [OF c(1)] by (auto simp: c(2))
qed

lemma Remove_heap:
  assumes "hub_heap h s = Some sub"
  shows "\<exists>sub'. hub_heap (hub_Remove s d tags h) s = Some sub' \<and> sub_events sub' = sub_events sub \<and>
    set (sub_keys sub') = set (sub_keys sub) - (\<lambda>t. (d, TrimSpace t)) ` set tags"
  using assms
proof (induction tags arbitrary: h sub)
  case (Cons t ts)
  from Cons.IH [of "remove_key s (d, TrimSpace t) h"] Cons.prems show ?case
    by (force simp: hub_Remove_def remove_key_views [OF Cons.prems])
qed (simp add: hub_Remove_def)

section \<open>The invariant of a connection\<close>

definition replies_of :: "(bool \<times> wsMessage) list \<Rightarrow> wsMessage list" where
  "replies_of sent = map snd (filter fst sent)"

lemma replies_of_simps [simp]:
  "replies_of [] = []" "replies_of (xs @ ys) = replies_of xs @ replies_of ys"
  "replies_of [(True, m)] = [m]" "replies_of [(False, m)] = []"
  by (simp_all add: replies_of_def)

text \<open>No reply is lost, repeated or overtaken, but the one whose writing failed.\<close>

definition in_order :: "Session \<Rightarrow> bool" where
  "in_order c \<longleftrightarrow>
     (\<exists>lost. wc_replies c = replies_of (wc_sent c) @ lost @ wc_out c @ wc_pending c \<and>
        length lost \<le> 1 \<and> (wc_writing c \<longrightarrow> lost = []))"

definition only_asked :: "nat \<Rightarrow> Session \<Rightarrow> bool" where
  "only_asked s c \<longleftrightarrow>
     (\<exists>sub. hub_heap (wc_hub c) s = Some sub \<and> set (sub_keys sub) \<subseteq> wc_wanted c \<and> wc_wanted c \<subseteq> wc_asked c \<and>
        (\<forall>e\<in>set (sub_events sub) \<union> set (wc_inflight c). (ev_DeviceID e, ev_TagName e) \<in> wc_asked c)) \<and>
     (\<forall>m. (False, m) \<in> set (wc_sent c) \<longrightarrow> (\<exists>e. m = event_message e \<and> (ev_DeviceID e, ev_TagName e) \<in> wc_asked c))"

definition ws_inv :: "nat \<Rightarrow> Session \<Rightarrow> bool" where
  "ws_inv s c \<longleftrightarrow> hub_wf (wc_hub c) \<and> length (wc_out c) \<le> 64 \<and> length (wc_pending c) \<le> 500 \<and> in_order c \<and> only_asked s c"

lemma run_command_wf: "hub_wf h \<Longrightarrow> hub_wf (fst (run_command s snapshot cmd h))"
  using Set_wf [of h s "cm_DeviceID cmd" "cm_Tags cmd"] hub_step_wf [of h _ "OpRemove s (cm_DeviceID cmd) (cm_Tags cmd)"]
  by (auto simp: run_command_def Let_def split: prod.splits option.splits)

lemma length_map_filter: "length (List.map_filter f xs) \<le> length xs"
  by (simp add: List.map_filter_def)

lemma run_command_bounded: "length (snd (run_command s snapshot cmd h)) \<le> 500"
  by (auto simp: run_command_def Let_def snapshot_replies_def split: prod.splits option.splits
      intro: order_trans [OF length_map_filter])

lemma run_command_heap:
  assumes "hub_heap h s = Some sub"
  shows "\<exists>sub'. hub_heap (fst (run_command s snapshot cmd h)) s = Some sub' \<and> sub_events sub' = sub_events sub \<and>
    set (sub_keys sub') \<subseteq> set (sub_keys sub) \<union> asked_keys s cmd h - dropped_keys cmd"
proof (cases "hub_Set s (cm_DeviceID cmd) (cm_Tags cmd) h")
  case (Pair err h')
  from Set_heap [OF assms this] Remove_heap [OF assms, of "cm_DeviceID cmd" "cm_Tags cmd"] assms show ?thesis
    by (fastforce simp: run_command_def asked_keys_def dropped_keys_def command_keys_def Let_def Pair split: option.splits)
qed

lemma close_heap:
  "hub_heap h s = Some sub \<Longrightarrow> \<exists>sub'. hub_heap (hub_Close s h) s = Some sub' \<and> sub_events sub' = sub_events sub \<and>
    set (sub_keys sub') \<subseteq> set (sub_keys sub)"
  by (auto simp: hub_Close_def)

lemma writer_return_inv: "ws_inv s c \<Longrightarrow> ws_inv s (writer_return s c)"
  using hub_step_wf [of "wc_hub c" _ "OpClose s"] close_heap [of "wc_hub c" s]
  by (fastforce simp: ws_inv_def writer_return_def in_order_def only_asked_def)


lemma ws_step_inv: "ws_step s c c' \<Longrightarrow> ws_inv s c \<Longrightarrow> ws_inv s c'"
proof (induction rule: ws_step.induct)
  case (Command c snapshot cmd)
  have c: "hub_wf (wc_hub c)" "length (wc_out c) \<le> 64" "in_order c" "only_asked s c"
    using Command.prems by (simp_all add: ws_inv_def)
  obtain h replies where r: "run_command s snapshot cmd (wc_hub c) = (h, replies)" by fastforce
  obtain sub where sub: "hub_heap (wc_hub c) s = Some sub" using c(4) by (auto simp: only_asked_def)
  have "hub_wf h" "length replies \<le> 500"
    using run_command_wf [OF c(1), of s snapshot cmd] run_command_bounded [of s snapshot cmd "wc_hub c"] by (simp_all add: r)
  moreover have "in_order (reader_command s snapshot cmd c)"
    using c(3) Command.hyps by (auto simp: in_order_def reader_command_def r)
  moreover have "only_asked s (reader_command s snapshot cmd c)"
    using c(4) run_command_heap [OF sub, of snapshot cmd] by (fastforce simp: only_asked_def reader_command_def r sub)
  ultimately show ?case using c(2) by (simp add: ws_inv_def reader_command_def r)
next
  case (Event c sub e es written)
  let ?c = "c\<lparr>wc_hub := receive s (wc_hub c)\<rparr>"
  have wf: "hub_wf (receive s (wc_hub c))"
    using hub_step_wf [of "wc_hub c" _ "OpReceive s"] Event.prems by (simp add: ws_inv_def)
  then have inv: "ws_inv s ?c"
    using Event by (auto simp: ws_inv_def in_order_def only_asked_def receive_def)
  have asked: "(ev_DeviceID e, ev_TagName e) \<in> wc_asked c"
    using Event by (auto simp: ws_inv_def only_asked_def)
  show ?case
  proof (cases written)
    case True
    from inv asked show ?thesis
      by (auto simp: True writer_event_def writer_write_def ws_inv_def in_order_def only_asked_def)
  qed (use writer_return_inv [OF inv] in \<open>simp add: writer_event_def writer_write_def\<close>)
next
  case (Out c written)
  then obtain m ms where out: "wc_out c = m # ms" by (cases "wc_out c") auto
  show ?case
    using Out hub_step_wf [of "wc_hub c" _ "OpClose s"] close_heap [of "wc_hub c" s]
    by (fastforce simp: writer_out_def writer_write_def ws_inv_def in_order_def only_asked_def writer_return_def out)
next
  case (Others op c pick)
  have wf: "hub_wf (wc_hub c)" using Others.prems by (simp add: ws_inv_def)
  obtain sub where sub: "hub_heap (wc_hub c) s = Some sub" using Others.prems by (auto simp: ws_inv_def only_asked_def)
  have "only_asked s (c\<lparr>wc_hub := hub_step pick op (wc_hub c)\<rparr>)"
    using foreign_heap [OF wf Others.hyps sub, of pick] Others.prems sub by (auto simp: ws_inv_def only_asked_def)
  then show ?case using Others.prems hub_step_wf [OF wf] by (simp add: ws_inv_def in_order_def)
next
  case (Reply c)
  then show ?case
    by (cases "wc_pending c") (auto simp: ws_inv_def reader_send_def in_order_def only_asked_def)
next
  case (ReadError c)
  then show ?case by (auto simp: ws_inv_def in_order_def only_asked_def)
next
  case (Target ev c)
  then show ?case by (auto simp: ws_inv_def in_order_def only_asked_def keys_of_def, blast+)
next
  case (Arrive ev c pick)
  obtain sub where sub: "hub_heap (wc_hub c) s = Some sub" using Arrive.prems by (auto simp: ws_inv_def only_asked_def)
  have wf: "hub_wf (deliver pick ev s (wc_hub c))"
    using hub_step_wf [of "wc_hub c" pick "OpDeliver ev s"] Arrive.prems by (simp add: ws_inv_def)
  have "only_asked s (c\<lparr>wc_hub := deliver pick ev s (wc_hub c), wc_inflight := remove1 ev (wc_inflight c)\<rparr>)"
    using deliver_heap [OF sub, of pick ev] Arrive sub
    by (auto simp: ws_inv_def only_asked_def) (meson UnI2 set_remove1_subset subsetD)+
  with Arrive.prems wf show ?case by (simp add: ws_inv_def in_order_def)
qed (simp_all add: writer_ping_def writer_return_inv)

lemma ws_open_inv:
  assumes "hub_wf h" "ws_open h = (s, c)"
  shows "ws_inv s c"
  using assms Subscribe_wf [OF assms(1), of 64]
  by (auto simp: ws_open_def ws_inv_def in_order_def only_asked_def Subscribe_def Let_def)

interpretation ws_history: kept_by_steps "ws_step s" "ws_inv s" for s
  by unfold_locales (rule ws_step_inv)

lemma ws_reachable_inv:
  assumes "ws_reachable s c"
  shows "ws_inv s c"
proof -
  from assms obtain pick ops m c0 where o: "ws_open (hub_run pick ops (NewHub m)) = (s, c0)" and r: "(ws_step s)\<^sup>*\<^sup>* c0 c"
    by (auto simp: ws_reachable_def)
  from ws_history.all_kept [OF r] show ?thesis by (simp add: ws_open_inv [OF hub_run_wf [OF NewHub_wf] o])
qed

section \<open>Replies get through\<close>

text \<open>As long as the writer lives, its own turns and those of the reader deliver all replies.\<close>

lemma drain_out:
  "wc_writing c \<Longrightarrow> \<exists>c'. (ws_step s)\<^sup>*\<^sup>* c c' \<and> wc_writing c' \<and> wc_out c' = [] \<and> wc_pending c' = wc_pending c \<and>
     wc_reading c' = wc_reading c \<and> wc_replies c' = wc_replies c"
proof (induction "wc_out c" arbitrary: c)
  case Nil
  then show ?case by (intro exI [of _ c]) simp
next
  case (Cons m ms)
  let ?c = "writer_out s True c"
  have v: "wc_writing ?c" "wc_out ?c = ms" "wc_pending ?c = wc_pending c" "wc_reading ?c = wc_reading c"
    "wc_replies ?c = wc_replies c"
    using Cons by (simp_all add: writer_out_def writer_write_def Cons.hyps(2) [symmetric])
  have "ws_step s c ?c" using Cons.prems Cons.hyps(2) by (intro ws_step.Out) auto
  with Cons.hyps(1) [OF v(2) [symmetric] v(1)] v(3-5) show ?case
    by (metis converse_rtranclp_into_rtranclp)
qed

lemma drain_all:
  "wc_writing c \<Longrightarrow> wc_reading c \<or> wc_pending c = [] \<Longrightarrow> \<exists>c'. (ws_step s)\<^sup>*\<^sup>* c c' \<and> wc_writing c' \<and> wc_out c' = [] \<and>
     wc_pending c' = [] \<and> wc_replies c' = wc_replies c"
proof (induction "wc_pending c" arbitrary: c)
  case Nil
  then show ?case using drain_out [of c s] by auto
next
  case (Cons m ms)
  obtain c1 where 1: "(ws_step s)\<^sup>*\<^sup>* c c1" "wc_writing c1" "wc_out c1 = []" "wc_pending c1 = m # ms" "wc_reading c1"
    "wc_replies c1 = wc_replies c"
    using drain_out [of c s] Cons by (metis list.distinct(1))
  have "ws_step s c1 (reader_send c1)" using 1 by (intro ws_step.Reply) auto
  moreover have v: "ms = wc_pending (reader_send c1)" "wc_writing (reader_send c1)" "wc_reading (reader_send c1)"
    "wc_replies (reader_send c1) = wc_replies c"
    using 1 by (simp_all add: reader_send_def)
  moreover obtain c2 where "(ws_step s)\<^sup>*\<^sup>* (reader_send c1) c2" "wc_writing c2" "wc_out c2 = []" "wc_pending c2 = []"
    "wc_replies c2 = wc_replies (reader_send c1)"
    using Cons.hyps(1) [OF v(1,2)] v(3) by blast
  ultimately show ?case using 1(1) by (metis converse_rtranclp_into_rtranclp rtranclp_trans)
qed

lemma pending_reading: "ws_step s c c' \<Longrightarrow> wc_reading c \<or> wc_pending c = [] \<Longrightarrow> wc_reading c' \<or> wc_pending c' = []"
  by (induction rule: ws_step.induct)
    (auto simp: reader_command_def reader_send_def writer_return_def writer_event_def writer_out_def writer_ping_def
      writer_write_def split: prod.split)

lemma ws_reachable_pending: "ws_reachable s c \<Longrightarrow> wc_reading c \<or> wc_pending c = []"
proof -
  assume "ws_reachable s c"
  then obtain pick ops m c0 where o: "ws_open (hub_run pick ops (NewHub m)) = (s, c0)" and r: "(ws_step s)\<^sup>*\<^sup>* c0 c"
    by (auto simp: ws_reachable_def)
  from r show ?thesis
  proof induction
    case base
    then show ?case using o by (auto simp: ws_open_def Let_def split: prod.splits)
  next
    case (step c1 c2)
    then show ?case using pending_reading by blast
  qed
qed

section \<open>Properties\<close>

text \<open>
  C17: under every interleaving of the reader, the writer, the other connections and the publishers, a
  client receives nothing it did not ask for and its replies in order: every event written belongs to
  a key of a command that was accepted, the subscription holds no key that was unsubscribed since, the replies are written in the order the commands gave them,
  none lost, repeated or overtaken except one whose writing failed, and the connection never holds
  more than 64 replies in its channel and 500 before it.
\<close>

theorem client_gets_what_it_asked:
  assumes "ws_reachable s c"
  shows "(\<exists>lost. wc_replies c = replies_of (wc_sent c) @ lost @ wc_out c @ wc_pending c \<and> length lost \<le> 1 \<and>
      (wc_writing c \<longrightarrow> lost = [])) \<and>
    (\<forall>m. (False, m) \<in> set (wc_sent c) \<longrightarrow>
      (\<exists>e. m = event_message e \<and> (ev_DeviceID e, ev_TagName e) \<in> wc_asked c)) \<and>
    set (keys_of (wc_hub c) s) \<subseteq> wc_wanted c \<and>
    length (wc_out c) \<le> 64 \<and> length (wc_pending c) \<le> 500 \<and> hub_wf (wc_hub c)"
  using ws_reachable_inv [OF assms] by (auto simp: ws_inv_def in_order_def only_asked_def keys_of_def)

text \<open>
  C35: as long as the writer lives, the connection cannot get stuck: in every reachable state in which
  the handler has not returned, further steps can lead to a state, the handler still running, in which
  every reply that was given so far has been written. Once the handler has returned that no longer holds: a reader
  with a full channel before it stays blocked (\<open>reader_can_be_stranded\<close>).
\<close>

theorem replies_get_through:
  assumes "ws_reachable s c" "wc_writing c"
  shows "\<exists>c'. (ws_step s)\<^sup>*\<^sup>* c c' \<and> wc_writing c' \<and> replies_of (wc_sent c') = wc_replies c"
proof -
  obtain c' where c': "(ws_step s)\<^sup>*\<^sup>* c c'" "wc_writing c'" "wc_out c' = []" "wc_pending c' = []" "wc_replies c' = wc_replies c"
    using drain_all [OF assms(2) ws_reachable_pending [OF assms(1)]] by blast
  have "ws_reachable s c'"
    using assms(1) c'(1) unfolding ws_reachable_def by (meson rtranclp_trans)
  then have "in_order c'" using ws_reachable_inv by (simp add: ws_inv_def)
  with c' show ?thesis by (auto simp: in_order_def)
qed

section \<open>After the writer has returned\<close>

text \<open>
  A reader that waits for a place in the full channel when the writer returns waits for ever: its
  goroutine, and the request it belongs to, are never released.
\<close>

lemma stranded_step:
  assumes "ws_step s c c'" "wc_reading c" "wc_pending c \<noteq> []" "\<not> wc_writing c" "64 \<le> length (wc_out c)"
  shows "wc_reading c' \<and> wc_pending c' = wc_pending c \<and> \<not> wc_writing c' \<and> wc_out c' = wc_out c"
  using assms by (induction rule: ws_step.induct) auto

lemma stranded_reader:
  assumes "(ws_step s)\<^sup>*\<^sup>* c c'" "wc_reading c" "wc_pending c \<noteq> []" "\<not> wc_writing c" "64 \<le> length (wc_out c)"
  shows "wc_reading c' \<and> wc_pending c' = wc_pending c"
proof -
  from assms have "wc_reading c' \<and> wc_pending c' = wc_pending c \<and> \<not> wc_writing c' \<and> wc_out c' = wc_out c"
  proof induction
    case base
    then show ?case by simp
  next
    case (step y z)
    then show ?case using stranded_step [of s y z] by simp
  qed
  then show ?thesis by blast
qed

lemma three_steps: "r a b \<Longrightarrow> r b c \<Longrightarrow> r c d \<Longrightarrow> r\<^sup>*\<^sup>* a d"
  by (meson converse_rtranclp_into_rtranclp rtranclp.rtrancl_refl)

definition fresh_session :: Session where
  "fresh_session = snd (ws_open (NewHub 500))"

lemma fresh_open: "ws_open (NewHub 500) = (0, fresh_session)"
  by (simp add: fresh_session_def ws_open_def Subscribe_def NewHub_def)

lemma fresh_reachable: "(ws_step 0)\<^sup>*\<^sup>* fresh_session c \<Longrightarrow> ws_reachable 0 c"
proof -
  assume "(ws_step 0)\<^sup>*\<^sup>* fresh_session c"
  moreover have "ws_open (hub_run (\<lambda>_. False) [] (NewHub 500)) = (0, fresh_session)"
    by (simp add: hub_run_def fresh_open)
  ultimately show ?thesis unfolding ws_reachable_def by blast
qed

lemma fresh_simps [simp]:
  "wc_reading fresh_session" "wc_pending fresh_session = []" "wc_out fresh_session = []" "wc_writing fresh_session"
  "wc_sent fresh_session = []" "wc_replies fresh_session = []" "wc_asked fresh_session = {}"
  "wc_hub fresh_session = snd (Subscribe 64 (NewHub 500))"
  by (simp_all add: fresh_session_def ws_open_def split: prod.split)

definition bad_command :: wsCommand where
  "bad_command = \<lparr>cm_Action = ''subscribe'', cm_DeviceID = 0, cm_Tags = []\<rparr>"

lemma bad_command_run: "run_command s snapshot bad_command h = (h, [WsError ''invalid_subscription'' None])"
  by (simp add: run_command_def bad_command_def)

lemma flood:
  "n \<le> 64 \<Longrightarrow> \<exists>c. (ws_step 0)\<^sup>*\<^sup>* fresh_session c \<and> wc_reading c \<and> wc_writing c \<and> wc_pending c = [] \<and> length (wc_out c) = n"
proof (induction n)
  case 0
  show ?case by (intro exI [of _ fresh_session]) simp
next
  case (Suc n)
  then obtain c where c: "(ws_step 0)\<^sup>*\<^sup>* fresh_session c" "wc_reading c" "wc_writing c" "wc_pending c = []"
    "length (wc_out c) = n" by auto
  let ?c = "reader_command 0 None bad_command c"
  have v: "wc_reading ?c" "wc_writing ?c" "wc_pending ?c = [WsError ''invalid_subscription'' None]" "wc_out ?c = wc_out c"
    using c by (simp_all add: reader_command_def bad_command_run)
  have "ws_step 0 c ?c" using c by (intro ws_step.Command)
  moreover have "ws_step 0 ?c (reader_send ?c)" using v c(5) Suc.prems by (intro ws_step.Reply) auto
  ultimately have "(ws_step 0)\<^sup>*\<^sup>* fresh_session (reader_send ?c)" using c(1) by (meson rtranclp.rtrancl_into_rtrancl)
  with v c(5) show ?case by (intro exI [of _ "reader_send ?c"]) (simp add: reader_send_def)
qed

lemma reader_can_be_stranded:
  "\<exists>c. ws_reachable 0 c \<and> \<not> wc_writing c \<and> (\<forall>c'. (ws_step 0)\<^sup>*\<^sup>* c c' \<longrightarrow> wc_reading c' \<and> wc_pending c' \<noteq> [])"
proof -
  obtain c where c: "(ws_step 0)\<^sup>*\<^sup>* fresh_session c" "wc_reading c" "wc_writing c" "wc_pending c = []"
    "length (wc_out c) = 64" using flood [of 64] by auto
  let ?c = "reader_command 0 None bad_command c"
  let ?d = "writer_ping 0 False ?c"
  have v: "wc_reading ?c" "wc_writing ?c" "wc_pending ?c \<noteq> []" "wc_out ?c = wc_out c"
    using c by (simp_all add: reader_command_def bad_command_run)
  have w: "wc_reading ?d" "\<not> wc_writing ?d" "wc_pending ?d \<noteq> []" "64 \<le> length (wc_out ?d)"
    using v c(5) by (simp_all add: writer_ping_def writer_return_def)
  have "ws_step 0 c ?c" using c by (intro ws_step.Command)
  moreover have "ws_step 0 ?c ?d" using v(2) by (rule ws_step.Ping)
  ultimately have "(ws_step 0)\<^sup>*\<^sup>* fresh_session ?d" using c(1) by (meson rtranclp.rtrancl_into_rtrancl)
  from fresh_reachable [OF this] w stranded_reader [of 0 ?d] show ?thesis by metis
qed

text \<open>
  A command that was read before the writer returned is carried out after it: it registers the closed
  subscription again, which then stays in the index of the hub although the connection is gone.
\<close>

definition sample_command :: wsCommand where
  "sample_command = \<lparr>cm_Action = ''subscribe'', cm_DeviceID = 1, cm_Tags = [''a'']\<rparr>"

lemma closed_connection_stays_registered:
  "\<exists>c. ws_reachable 0 c \<and> \<not> wc_writing c \<and> \<not> wc_reading c \<and> hub_subscriptions (wc_hub c) (1, ''a'') = Some [0]"
proof -
  let ?a = "writer_ping 0 False fresh_session"
  let ?b = "reader_command 0 None sample_command ?a"
  let ?c = "?b\<lparr>wc_reading := False\<rparr>"
  have h: "wc_hub ?a = hub_Close 0 (snd (Subscribe 64 (NewHub 500)))"
    by (simp add: writer_ping_def writer_return_def)
  have b: "wc_pending ?b = []" "hub_subscriptions (wc_hub ?b) (1, ''a'') = Some [0]"
    by (simp_all add: reader_command_def run_command_def sample_command_def h hub_Close_def Subscribe_def NewHub_def
        hub_Set_def sample_tag add_key_def index_add_def snapshot_replies_def Let_def)
  have 0: "wc_reading ?a" "wc_pending ?a = []" "\<not> wc_writing ?a" by (simp_all add: writer_ping_def writer_return_def)
  have 1: "wc_reading ?b" "\<not> wc_writing ?b" using 0 by (simp_all add: reader_command_def split: prod.split)
  have "ws_step 0 fresh_session ?a" "ws_step 0 ?a ?b" "ws_step 0 ?b ?c"
    using 0 1 b by (auto intro: ws_step.intros)
  then have "(ws_step 0)\<^sup>*\<^sup>* fresh_session ?c" by (rule three_steps)
  from fresh_reachable [OF this] 1 b show ?thesis by (intro exI [of _ ?c]) simp
qed

text \<open>
  The current values are looked up under the tags as they were sent, but subscribed under the trimmed
  ones: a padded tag is accepted without its current value.
\<close>

lemma padded_tag: "TrimSpace '' a '' = ''a''"
  using TrimSpace_pad [of "''a''"] by (simp add: ascii_word_char_def)

lemma padded_tag_no_value:
  "run_command 0 (Some [''a'' \<mapsto> v]) \<lparr>cm_Action = ''subscribe'', cm_DeviceID = 1, cm_Tags = ['' a '']\<rparr>
       (snd (Subscribe 1 (NewHub 5))) = (sample_hub, [])"
  by (simp add: run_command_def Subscribe_def NewHub_def hub_Set_def add_key_def index_add_def snapshot_replies_def
      sample_hub_def Let_def List.map_filter_def padded_tag)

section \<open>Witnesses\<close>

definition served_session :: Session where
  "served_session =
     (let c1 = reader_command 0 None sample_command fresh_session;
          c2 = c1\<lparr>wc_hub := Publish (\<lambda>_. False) sample_event (wc_hub c1)\<rparr>
      in writer_event 0 True sample_event c2)"

lemma served_steps:
  "(ws_step 0)\<^sup>*\<^sup>* fresh_session served_session" "wc_sent served_session = [(False, event_message sample_event)]"
  "wc_writing served_session" "wc_replies served_session = []" "wc_reading served_session" "wc_pending served_session = []"
proof -
  let ?a = "reader_command 0 None sample_command fresh_session"
  let ?b = "?a\<lparr>wc_hub := hub_step (\<lambda>_. False) (OpPublish sample_event) (wc_hub ?a)\<rparr>"
  have a: "ws_step 0 fresh_session ?a" by (rule ws_step.Command) simp_all
  have b: "ws_step 0 ?a ?b" by (rule ws_step.Others) simp
  note defs = reader_command_def run_command_def sample_command_def Subscribe_def NewHub_def hub_Set_def sample_tag
    add_key_def index_add_def snapshot_replies_def Let_def Publish_def sample_event_def deliver_def
  have ev: "\<exists>sub. hub_heap (wc_hub ?b) 0 = Some sub \<and> sub_events sub = [sample_event]" and wr: "wc_writing ?b"
    by (simp_all add: defs)
  then obtain sub where sub: "hub_heap (wc_hub ?b) 0 = Some sub" "sub_events sub = [sample_event]" by blast
  have s: "served_session = writer_event 0 True sample_event ?b" by (simp add: served_session_def Let_def)
  have "ws_step 0 ?b served_session" unfolding s by (rule ws_step.Event [OF wr sub])
  with a b show "(ws_step 0)\<^sup>*\<^sup>* fresh_session served_session" by (rule three_steps)
  show "wc_sent served_session = [(False, event_message sample_event)]" "wc_writing served_session"
    "wc_replies served_session = []" "wc_reading served_session" "wc_pending served_session = []"
    by (simp_all add: s writer_event_def writer_write_def defs)
qed

theorem client_gets_what_it_asked_witness:
  "\<exists>e. wc_sent served_session = [(False, event_message e)] \<and> (ev_DeviceID e, ev_TagName e) \<in> wc_asked served_session"
  using client_gets_what_it_asked [OF fresh_reachable [OF served_steps(1)]] served_steps(2)
  by (auto simp: event_message_def)

theorem replies_get_through_witness:
  "\<exists>c c'. wc_pending c = [WsError ''invalid_subscription'' None] \<and> (ws_step 0)\<^sup>*\<^sup>* c c' \<and>
     replies_of (wc_sent c') = [WsError ''invalid_subscription'' None]"
proof -
  let ?c = "reader_command 0 None bad_command served_session"
  have "ws_step 0 served_session ?c" using served_steps(5,6) by (intro ws_step.Command)
  then have r: "ws_reachable 0 ?c" using served_steps(1) by (intro fresh_reachable) (meson rtranclp.rtrancl_into_rtrancl)
  have v: "wc_writing ?c" "wc_pending ?c = [WsError ''invalid_subscription'' None]"
    "wc_replies ?c = [WsError ''invalid_subscription'' None]"
    using served_steps(3,4) by (simp_all add: reader_command_def bad_command_run)
  from replies_get_through [OF r v(1)] v(2,3) show ?thesis by metis
qed

end
