(* ===== verification/WebFiles.thy ===== *)
theory WebFiles
  imports KafkaConfig PointCsv
begin

text \<open>
  \<open>internal/httpapi/server.go\<close>: what the router answers to a path that is no route of the interface,
  a file of the embedded web pages. The embedded tree is the argument \<open>files\<close>; \<open>path.Clean\<close> is the
  cleaning function of \<open>KafkaConfig\<close>.
\<close>

datatype web_answer = WebNotFound | WebFile string string

text \<open>\<open>path.Ext\<close>: the last element of the path from its last dot on.\<close>

definition path_Ext :: "string \<Rightarrow> string" where
  "path_Ext p =
     (let element = rev (takeWhile (\<lambda>c. c \<noteq> CHR ''/'') (rev p)) in
      case last_index (CHR ''.'') element of None \<Rightarrow> [] | Some i \<Rightarrow> drop i element)"

definition contentType :: "string \<Rightarrow> string" where
  "contentType name =
     (let ext = path_Ext name in
      if ext = ''.html'' then ''text/html; charset=utf-8''
      else if ext = ''.css'' then ''text/css; charset=utf-8''
      else if ext = ''.js'' then ''text/javascript; charset=utf-8''
      else ''application/octet-stream'')"

definition web_name :: "string \<Rightarrow> string" where
  "web_name urlPath =
     (let name = TrimPrefix (unix_Clean urlPath) ''/'' in if name = ''.'' \<or> name = [] then ''index.html'' else name)"

definition noRoute :: "(string \<Rightarrow> string option) \<Rightarrow> string \<Rightarrow> string \<Rightarrow> web_answer" where
  "noRoute files req_method urlPath =
     (if req_method \<noteq> ''GET'' \<and> req_method \<noteq> ''HEAD'' then WebNotFound
      else
        let name = web_name urlPath in
        if take 2 name = ''..'' then WebNotFound
        else case files name of None \<Rightarrow> WebNotFound | Some contents \<Rightarrow> WebFile (contentType name) contents)"

section \<open>Elements of a path\<close>

definition element :: "string \<Rightarrow> bool" where
  "element c \<longleftrightarrow> c \<noteq> [] \<and> c \<noteq> ''.'' \<and> c \<noteq> ''..'' \<and> CHR ''/'' \<notin> set c"

lemma elementD: "element c \<Longrightarrow> c \<noteq> [] \<and> c \<noteq> ''.'' \<and> c \<noteq> ''..'' \<and> CHR ''/'' \<notin> set c"
  by (simp add: element_def)

lemma split_on_no_sep:
  assumes "sep \<notin> set acc"
  shows "list_all (\<lambda>c. sep \<notin> set c) (split_on sep acc s)"
  using assms by (induction sep acc s rule: split_on.induct) simp_all

lemma split_on_skip: "sep \<notin> set a \<Longrightarrow> split_on sep acc (a @ s) = split_on sep (acc @ a) s"
  by (induction a arbitrary: acc) auto

lemma join_Cons: "xs \<noteq> [] \<Longrightarrow> join_with sep (x # xs) = x @ sep @ join_with sep xs"
  by (cases xs) simp_all

lemma split_on_join:
  assumes "cs \<noteq> []" "list_all element cs"
  shows "split_on (CHR ''/'') acc (join_with ''/'' cs) = (acc @ hd cs) # tl cs"
  using assms
proof (induction cs arbitrary: acc rule: induct_list012)
  case (2 c)
  then show ?case using split_on_skip [of "CHR ''/''" c acc "[]"] by (simp add: element_def)
next
  case (3 c d ds)
  then show ?case
    using split_on_skip [of "CHR ''/''" c acc "''/'' @ join_with ''/'' (d # ds)"] by (simp add: element_def)
qed simp

lemma clean_elements: "list_all element cs \<Longrightarrow> foldl (clean_step rooted) stack cs = stack @ cs"
  by (induction cs arbitrary: stack) (simp_all add: clean_step_def element_def)

lemma join_elements_nonempty: "cs \<noteq> [] \<Longrightarrow> list_all element cs \<Longrightarrow> join_with ''/'' cs \<noteq> []"
  by (cases cs; cases "tl cs") (auto simp: element_def join_Cons)

text \<open>Rooted cleaning leaves elements only; without a root, parents remain in front.\<close>

lemma clean_step_rooted:
  assumes "list_all element stack" "CHR ''/'' \<notin> set c"
  shows "list_all element (clean_step True stack c)"
  using assms by (auto simp: clean_step_def element_def list_all_iff dest: in_set_butlastD)

lemma clean_rooted:
  "list_all element stack \<Longrightarrow> list_all (\<lambda>c. CHR ''/'' \<notin> set c) cs \<Longrightarrow> list_all element (foldl (clean_step True) stack cs)"
  by (induction cs arbitrary: stack) (simp_all add: clean_step_rooted)

lemma clean_step_relative:
  assumes "stack = replicate n ''..'' @ es" "list_all element es" "CHR ''/'' \<notin> set c"
  shows "\<exists>n es. clean_step False stack c = replicate n ''..'' @ es \<and> list_all element es"
proof (cases "c = ''..''")
  case True
  show ?thesis
  proof (cases es rule: rev_cases)
    case Nil
    then have "clean_step False stack c = replicate (Suc n) ''..'' @ []"
      using True assms(1) by (cases n) (simp_all add: clean_step_def replicate_append_same)
    then show ?thesis by (intro exI conjI) (assumption, simp)
  next
    case (snoc fs f)
    then have "clean_step False stack c = replicate n ''..'' @ fs" "list_all element fs"
      using True assms(1,2) by (simp_all add: clean_step_def element_def butlast_append)
    then show ?thesis by blast
  qed
next
  case False
  then have "clean_step False stack c = replicate n ''..'' @ (if c = [] \<or> c = ''.'' then es else es @ [c])"
    using assms(1) by (simp add: clean_step_def)
  moreover have "list_all element (if c = [] \<or> c = ''.'' then es else es @ [c])"
    using False assms(2,3) by (simp add: element_def)
  ultimately show ?thesis by blast
qed

lemma clean_relative:
  assumes "list_all (\<lambda>c. CHR ''/'' \<notin> set c) cs" "\<exists>n es. stack = replicate n ''..'' @ es \<and> list_all element es"
  shows "\<exists>n es. foldl (clean_step False) stack cs = replicate n ''..'' @ es \<and> list_all element es"
  using assms
proof (induction cs arbitrary: stack)
  case (Cons c cs)
  have "\<exists>n es. clean_step False stack c = replicate n ''..'' @ es \<and> list_all element es"
    using Cons.prems clean_step_relative by fastforce
  with Cons show ?case by simp
qed simp

lemma join_parents: "n \<noteq> 0 \<Longrightarrow> take 2 (join_with ''/'' (replicate n ''..'' @ es)) = ''..''"
  by (cases n; cases "tl (replicate n ''..'' @ es)") (auto simp: join_Cons)

lemma hd_join_elements:
  assumes "cs \<noteq> []" "list_all element cs"
  shows "hd (join_with ''/'' cs) \<noteq> CHR ''/''"
proof -
  obtain c ds where cs: "cs = c # ds" using assms(1) by (cases cs) auto
  have c: "c \<noteq> []" "CHR ''/'' \<notin> set c" using assms(2) by (simp_all add: cs element_def)
  have "hd (join_with ''/'' cs) = hd c" using c(1) by (cases ds) (simp_all add: cs)
  also have "\<dots> \<in> set c" using c(1) by simp
  finally show ?thesis using c(2) by auto
qed

lemma web_name_elements:
  assumes "take 2 (web_name p) \<noteq> ''..''"
  shows "\<exists>cs. cs \<noteq> [] \<and> list_all element cs \<and> web_name p = join_with ''/'' cs"
proof -
  have index: "list_all element [''index.html'']" by (simp add: element_def)
  have segs: "list_all (\<lambda>c. CHR ''/'' \<notin> set c) (split_on (CHR ''/'') [] p)" by (rule split_on_no_sep) simp
  define stack where "stack = foldl (clean_step (unix_IsAbs p)) [] (split_on (CHR ''/'') [] p)"
  have cl: "unix_Clean p = (if unix_IsAbs p then ''/'' @ join_with ''/'' stack
      else if join_with ''/'' stack = [] then ''.'' else join_with ''/'' stack)"
    by (simp add: unix_Clean_def stack_def Let_def)
  show ?thesis
  proof (cases "list_all element stack \<and> stack \<noteq> []")
    case True
    then have "join_with ''/'' stack \<noteq> []" "hd (join_with ''/'' stack) \<noteq> CHR ''/''"
      using join_elements_nonempty hd_join_elements by auto
    then have "TrimPrefix (unix_Clean p) ''/'' = join_with ''/'' stack"
      by (cases "join_with ''/'' stack") (auto simp: cl TrimPrefix_def)
    then have "web_name p = join_with ''/'' stack \<or> web_name p = join_with ''/'' [''index.html'']"
      by (simp add: web_name_def Let_def)
    then show ?thesis using True index by (metis list.distinct(1))
  next
    case False
    show ?thesis
    proof (cases "unix_IsAbs p")
      case True
      then have "list_all element stack" using segs by (simp add: stack_def clean_rooted)
      with False True have "web_name p = ''index.html''" by (simp add: web_name_def cl TrimPrefix_def)
      with index show ?thesis by (intro exI [of _ "[''index.html'']"]) simp
    next
      case rel: False
      then obtain n es where st: "stack = replicate n ''..'' @ es" "list_all element es"
        using clean_relative [OF segs, of "[]"] by (fastforce simp: stack_def)
      show ?thesis
      proof (cases "n = 0")
        case True
        with False st have "stack = []" by simp
        with rel have "web_name p = ''index.html''" by (simp add: web_name_def cl TrimPrefix_def)
        with index show ?thesis by (intro exI [of _ "[''index.html'']"]) simp
      next
        case False
        then have up: "take 2 (join_with ''/'' stack) = ''..''" unfolding st by (rule join_parents)
        then have "TrimPrefix (unix_Clean p) ''/'' = join_with ''/'' stack" "join_with ''/'' stack \<noteq> ''.''"
            "join_with ''/'' stack \<noteq> []"
          using rel by (auto simp: cl TrimPrefix_def take_Suc numeral_2_eq_2 split: list.splits)
        with up assms show ?thesis by (simp add: web_name_def)
      qed
    qed
  qed
qed

lemma web_name_join:
  assumes "cs \<noteq> []" "list_all element cs"
  shows "web_name (''/'' @ join_with ''/'' cs) = join_with ''/'' cs"
proof -
  have "split_on (CHR ''/'') [] (''/'' @ join_with ''/'' cs) = [] # cs"
    using split_on_join [OF assms, of "[]"] assms(1) by simp
  then have "unix_Clean (''/'' @ join_with ''/'' cs) = ''/'' @ join_with ''/'' cs"
    using clean_elements [OF assms(2), of True "[]"] by (simp add: unix_Clean_def unix_IsAbs_def clean_step_def)
  moreover have "join_with ''/'' cs \<noteq> ''.''"
    using assms by (cases cs; cases "tl cs") (auto simp: element_def join_Cons dest!: arg_cong [of _ _ set])
  ultimately show ?thesis using join_elements_nonempty [OF assms] by (simp add: web_name_def TrimPrefix_def)
qed

section \<open>Properties\<close>

text \<open>
  C36: the web pages are all that is served, and all of them, by \<open>GET\<close> and \<open>HEAD\<close> and no other method.
  Whatever path is asked for, a file that is answered has a name whose elements are neither empty nor
  a dot nor two dots, so nothing outside the embedded tree is read; each file of the tree with such
  a name, unless it starts with two dots, is answered for its own path; and \<open>index.html\<close> for the root.
\<close>

theorem web_files_exact:
  "(\<forall>req_method p t contents. noRoute files req_method p = WebFile t contents \<longrightarrow> req_method \<in> {''GET'', ''HEAD''} \<and>
      (\<exists>cs. cs \<noteq> [] \<and> list_all element cs \<and> files (join_with ''/'' cs) = Some contents \<and>
        t = contentType (join_with ''/'' cs))) \<and>
   (\<forall>req_method cs page. req_method \<in> {''GET'', ''HEAD''} \<and> cs \<noteq> [] \<and> list_all element cs \<and> take 2 (hd cs) \<noteq> ''..'' \<and>
      files (join_with ''/'' cs) = Some page \<longrightarrow>
      noRoute files req_method (''/'' @ join_with ''/'' cs) = WebFile (contentType (join_with ''/'' cs)) page) \<and>
   (\<forall>req_method page. req_method \<in> {''GET'', ''HEAD''} \<and> files ''index.html'' = Some page \<longrightarrow>
      noRoute files req_method ''/'' = WebFile ''text/html; charset=utf-8'' page)"
proof (intro conjI allI impI)
  fix req_method p t contents
  assume "noRoute files req_method p = WebFile t contents"
  then have m: "req_method \<in> {''GET'', ''HEAD''}" "take 2 (web_name p) \<noteq> ''..''"
      "files (web_name p) = Some contents" "t = contentType (web_name p)"
    by (auto simp: noRoute_def Let_def split: if_splits option.splits)
  show "req_method \<in> {''GET'', ''HEAD''}" by (rule m(1))
  from web_name_elements [OF m(2)] m(3,4)
  show "\<exists>cs. cs \<noteq> [] \<and> list_all element cs \<and> files (join_with ''/'' cs) = Some contents \<and>
      t = contentType (join_with ''/'' cs)" by metis
next
  fix req_method cs page
  assume cs: "req_method \<in> {''GET'', ''HEAD''} \<and> cs \<noteq> [] \<and> list_all element cs \<and> take 2 (hd cs) \<noteq> ''..'' \<and>
    files (join_with ''/'' cs) = Some page"
  have "take 2 (join_with ''/'' cs) \<noteq> ''..''"
  proof -
    obtain c ds where c: "cs = c # ds" "c \<noteq> []" "CHR ''/'' \<notin> set c" "c \<noteq> ''.''" "take 2 c \<noteq> ''..''"
      using cs by (cases cs) (auto simp: element_def)
    then show ?thesis
      by (cases ds; cases c; cases "tl c") auto
  qed
  with cs show "noRoute files req_method (''/'' @ join_with ''/'' cs) = WebFile (contentType (join_with ''/'' cs)) page"
    using web_name_join [of cs] by (auto simp: noRoute_def)
next
  fix req_method page
  assume page: "req_method \<in> {''GET'', ''HEAD''} \<and> files ''index.html'' = Some page"
  have "web_name ''/'' = ''index.html''" "contentType ''index.html'' = ''text/html; charset=utf-8''" by code_simp+
  with page show "noRoute files req_method ''/'' = WebFile ''text/html; charset=utf-8'' page"
    by (auto simp: noRoute_def)
qed

definition sample_tree :: "string \<rightharpoonup> string" where
  "sample_tree = [''index.html'' \<mapsto> ''<html>'', ''css/a.css'' \<mapsto> ''b'']"

theorem web_files_exact_witness:
  "noRoute sample_tree ''GET'' ''/css/a.css'' = WebFile ''text/css; charset=utf-8'' ''b'' \<and>
   noRoute sample_tree ''HEAD'' ''/'' = WebFile ''text/html; charset=utf-8'' ''<html>'' \<and>
   (\<exists>cs. noRoute sample_tree ''GET'' ''/css/..//./'' = WebFile ''text/html; charset=utf-8'' ''<html>'' \<and>
      cs \<noteq> [] \<and> list_all element cs \<and> sample_tree (join_with ''/'' cs) = Some ''<html>'')"
proof (intro conjI)
  note all = web_files_exact [of sample_tree]
  note served = all [THEN conjunct2, THEN conjunct1, rule_format, of "''GET''" "[''css'', ''a.css'']" "''b''"]
    and root = all [THEN conjunct2, THEN conjunct2, rule_format, of "''HEAD''" "''<html>''"]
    and only = all [THEN conjunct1, rule_format, of "''GET''" "''/css/..//./''"]
  have t: "contentType ''css/a.css'' = ''text/css; charset=utf-8''" by code_simp
  have "list_all element [''css'', ''a.css'']" "take 2 (hd [''css'', ''a.css'']) \<noteq> ''..''"
    "join_with ''/'' [''css'', ''a.css''] = ''css/a.css''" by (simp_all add: element_def)
  moreover have "sample_tree ''css/a.css'' = Some ''b''" "sample_tree ''index.html'' = Some ''<html>''"
    by (simp_all add: sample_tree_def)
  ultimately show "noRoute sample_tree ''GET'' ''/css/a.css'' = WebFile ''text/css; charset=utf-8'' ''b''"
    "noRoute sample_tree ''HEAD'' ''/'' = WebFile ''text/html; charset=utf-8'' ''<html>''"
    using served root by (simp_all add: t)
  have "noRoute sample_tree ''GET'' ''/css/..//./'' = WebFile ''text/html; charset=utf-8'' ''<html>''"
    unfolding sample_tree_def by code_simp
  with only [OF this] show "\<exists>cs. noRoute sample_tree ''GET'' ''/css/..//./'' = WebFile ''text/html; charset=utf-8'' ''<html>'' \<and>
      cs \<noteq> [] \<and> list_all element cs \<and> sample_tree (join_with ''/'' cs) = Some ''<html>''" by blast
qed

end
