(* ===== verification/AppConfig.thy ===== *)
theory AppConfig
  imports KafkaConfig
begin

text \<open>
  \<open>internal/appconfig\<close>: the configuration of the process. The TOML decoder, which writes the keys of
  the file over the defaults, is the argument \<open>decode\<close>; \<open>net.ParseIP\<close> is \<open>isIP\<close> and \<open>filepath.Abs\<close>
  is \<open>absolute\<close>. The path functions are those of \<open>KafkaConfig\<close>.
\<close>

record ServerConfig =
  sv_Host :: string
  sv_Port :: int
  sv_ReadHeaderTimeoutSec :: int
  sv_ReadTimeoutSec :: int
  sv_WriteTimeoutSec :: int
  sv_IdleTimeoutSec :: int
  sv_ShutdownTimeoutSec :: int

record DatabaseConfig =
  dc_Path :: string
  dc_BusyTimeoutMs :: int

record LogConfig =
  lg_Level :: string
  lg_Format :: string
  lg_Console :: bool
  lg_File :: string
  lg_MaxSizeMB :: int
  lg_MaxBackups :: int
  lg_MaxAgeDays :: int
  lg_Compress :: bool

record Config =
  cf_Server :: ServerConfig
  cf_Database :: DatabaseConfig
  cf_Log :: LogConfig

definition Default :: Config where
  "Default = \<lparr>cf_Server = \<lparr>sv_Host = ''127.0.0.1'', sv_Port = 8080, sv_ReadHeaderTimeoutSec = 5,
       sv_ReadTimeoutSec = 15, sv_WriteTimeoutSec = 30, sv_IdleTimeoutSec = 60, sv_ShutdownTimeoutSec = 15\<rparr>,
     cf_Database = \<lparr>dc_Path = ''data/modbus-scan.db'', dc_BusyTimeoutMs = 5000\<rparr>,
     cf_Log = \<lparr>lg_Level = ''info'', lg_Format = ''text'', lg_Console = True, lg_File = ''logs/modbus-scan.log'',
       lg_MaxSizeMB = 50, lg_MaxBackups = 10, lg_MaxAgeDays = 30, lg_Compress = True\<rparr>\<rparr>"

definition Validate :: "(string \<Rightarrow> string) \<Rightarrow> (string \<Rightarrow> bool) \<Rightarrow> Config \<Rightarrow> string option" where
  "Validate uni isIP c =
     (let s = cf_Server c; d = cf_Database c; l = cf_Log c;
          level = ToLower uni (lg_Level l); format = ToLower uni (lg_Format l) in
      if sv_Host s \<noteq> ''localhost'' \<and> \<not> isIP (sv_Host s)
        then Some ''server host must be an IP address or localhost''
      else if sv_Port s < 1 \<or> 65535 < sv_Port s then Some ''server port must be between 1 and 65535''
      else if sv_ReadHeaderTimeoutSec s \<le> 0 \<or> sv_ReadTimeoutSec s \<le> 0 \<or> sv_WriteTimeoutSec s \<le> 0 \<or>
        sv_IdleTimeoutSec s \<le> 0 \<or> sv_ShutdownTimeoutSec s \<le> 0 then Some ''server timeouts must be positive''
      else if TrimSpace (dc_Path d) = [] then Some ''database path must not be empty''
      else if dc_BusyTimeoutMs d \<le> 0 then Some ''database busy timeout must be positive''
      else if level \<noteq> ''debug'' \<and> level \<noteq> ''info'' \<and> level \<noteq> ''warn'' \<and> level \<noteq> ''error''
        then Some ''log level must be debug, info, warn, or error''
      else if format \<noteq> ''text'' \<and> format \<noteq> ''json'' then Some ''log format must be text or json''
      else if \<not> lg_Console l \<and> TrimSpace (lg_File l) = [] then Some ''at least one log output must be enabled''
      else if lg_File l \<noteq> [] \<and> (lg_MaxSizeMB l \<le> 0 \<or> lg_MaxBackups l < 0 \<or> lg_MaxAgeDays l < 0)
        then Some ''log rotation values are invalid''
      else None)"

definition resolvePath :: "path_ops \<Rightarrow> string \<Rightarrow> string \<Rightarrow> string" where
  "resolvePath fp base path = (if fp_IsAbs fp path then fp_Clean fp path else fp_Clean fp (fp_Join fp base path))"

text \<open>\<open>filepath.Dir\<close> on Unix.\<close>

definition unix_Dir :: "string \<Rightarrow> string" where
  "unix_Dir p = (case last_index (CHR ''/'') p of None \<Rightarrow> ''.'' | Some i \<Rightarrow> unix_Clean (take (i + 1) p))"

definition Load :: "(string \<Rightarrow> string) \<Rightarrow> (string \<Rightarrow> bool) \<Rightarrow> path_ops \<Rightarrow> (string \<Rightarrow> string) \<Rightarrow> (string \<Rightarrow> string + string) \<Rightarrow>
    (string \<Rightarrow> Config \<Rightarrow> string + Config) \<Rightarrow> string \<Rightarrow> string + Config" where
  "Load uni isIP fp dir absolute decode path =
     and_then (with_err (\<lambda>e. ''resolve config path: '' @ e) (absolute path)) (\<lambda>absPath.
     and_then (with_err (\<lambda>e. ''decode service config: '' @ e) (decode absPath Default)) (\<lambda>cfg.
     case Validate uni isIP cfg of
       Some err \<Rightarrow> Inl err
     | None \<Rightarrow>
         let base = dir absPath; d = cf_Database cfg; l = cf_Log cfg in
         Inr (cfg\<lparr>cf_Database := d\<lparr>dc_Path := resolvePath fp base (dc_Path d)\<rparr>,
           cf_Log := (if lg_File l \<noteq> [] then l\<lparr>lg_File := resolvePath fp base (lg_File l)\<rparr> else l)\<rparr>)))"

section \<open>Absolute paths\<close>

lemma unix_Clean_abs: "unix_IsAbs p \<Longrightarrow> unix_IsAbs (unix_Clean p)"
  by (simp add: unix_Clean_def Let_def) (simp add: unix_IsAbs_def)

lemma unix_Join_abs:
  assumes "unix_IsAbs base"
  shows "unix_IsAbs (unix_Join base p)"
proof -
  have "unix_IsAbs (join_with ''/'' (filter (\<lambda>e. e \<noteq> []) [base, p]))"
    using assms by (cases p) (auto simp: unix_IsAbs_def)
  then show ?thesis using assms by (auto simp: unix_Join_def unix_IsAbs_def [of base] intro: unix_Clean_abs)
qed

lemma resolvePath_abs: "unix_IsAbs base \<Longrightarrow> unix_IsAbs (resolvePath unix_paths base p)"
  by (simp add: resolvePath_def unix_paths_def unix_Clean_abs unix_Join_abs)

lemma unix_Dir_abs: "unix_IsAbs p \<Longrightarrow> unix_IsAbs (unix_Dir p)"
proof -
  assume p: "unix_IsAbs p"
  then obtain cs where cs: "p = CHR ''/'' # cs" by (cases p) (auto simp: unix_IsAbs_def)
  obtain i where i: "last_index (CHR ''/'') p = Some i" by (auto simp: last_index_def cs)
  have "unix_IsAbs (take (i + 1) p)" by (simp add: cs unix_IsAbs_def)
  then show ?thesis by (simp add: unix_Dir_def i unix_Clean_abs)
qed

section \<open>Properties\<close>

text \<open>
  On Unix, a configuration that is loaded is complete and within its limits: a port that
  exists, positive timeouts, a database file and, if there is one, a log file with absolute paths
  next to the configuration file, a known log level and format, and at least one log output. What
  the file says is otherwise unchanged.
\<close>

lemma Load_sound:
  assumes "Load uni isIP unix_paths unix_Dir absolute decode path = Inr cfg"
    and "\<And>a. absolute path = Inr a \<Longrightarrow> unix_IsAbs a"
  shows "sv_Port (cf_Server cfg) \<in> {1 .. 65535} \<and> 0 < sv_ShutdownTimeoutSec (cf_Server cfg) \<and>
    0 < sv_ReadTimeoutSec (cf_Server cfg) \<and> 0 < sv_WriteTimeoutSec (cf_Server cfg) \<and>
    0 < dc_BusyTimeoutMs (cf_Database cfg) \<and> unix_IsAbs (dc_Path (cf_Database cfg)) \<and>
    (lg_File (cf_Log cfg) = [] \<and> lg_Console (cf_Log cfg) \<or>
       unix_IsAbs (lg_File (cf_Log cfg)) \<and> 0 < lg_MaxSizeMB (cf_Log cfg)) \<and>
    ToLower uni (lg_Level (cf_Log cfg)) \<in> {''debug'', ''info'', ''warn'', ''error''} \<and>
    ToLower uni (lg_Format (cf_Log cfg)) \<in> {''text'', ''json''} \<and>
    (\<exists>a raw. absolute path = Inr a \<and> decode a Default = Inr raw \<and> cf_Server cfg = cf_Server raw \<and>
       lg_Level (cf_Log cfg) = lg_Level (cf_Log raw) \<and>
       dc_Path (cf_Database cfg) = resolvePath unix_paths (unix_Dir a) (dc_Path (cf_Database raw)))"
proof -
  from assms(1) obtain a raw where a: "absolute path = Inr a" and raw: "decode a Default = Inr raw"
    and v: "Validate uni isIP raw = None"
    and cfg: "cfg = raw\<lparr>cf_Database := (cf_Database raw)\<lparr>dc_Path := resolvePath unix_paths (unix_Dir a) (dc_Path (cf_Database raw))\<rparr>,
      cf_Log := (if lg_File (cf_Log raw) \<noteq> [] then (cf_Log raw)\<lparr>lg_File := resolvePath unix_paths (unix_Dir a) (lg_File (cf_Log raw))\<rparr>
        else cf_Log raw)\<rparr>"
    by (auto simp: Load_def and_then_Inr Let_def split: option.splits)
  have dir: "unix_IsAbs (unix_Dir a)" by (rule unix_Dir_abs [OF assms(2) [OF a]])
  note paths = resolvePath_abs [OF dir]
  have trim: "TrimSpace [] = []" using length_TrimSpace [of "[]"] by simp
  note g = v [unfolded Validate_def Let_def guard_None]
  have out: "lg_File (cf_Log raw) = [] \<Longrightarrow> lg_Console (cf_Log raw)"
    "lg_File (cf_Log raw) \<noteq> [] \<Longrightarrow> 0 < lg_MaxSizeMB (cf_Log raw)" using g by (auto simp: trim)
  have lev: "ToLower uni (lg_Level (cf_Log raw)) \<in> {''debug'', ''info'', ''warn'', ''error''}" using g by blast
  have frm: "ToLower uni (lg_Format (cf_Log raw)) \<in> {''text'', ''json''}" using g by blast
  have srv: "sv_Port (cf_Server raw) \<in> {1 .. 65535}" "0 < sv_ShutdownTimeoutSec (cf_Server raw)"
    "0 < sv_ReadTimeoutSec (cf_Server raw)" "0 < sv_WriteTimeoutSec (cf_Server raw)"
    "0 < dc_BusyTimeoutMs (cf_Database raw)"
    using g by auto
  show ?thesis
    using out lev frm srv paths a raw by (auto simp: cfg)
qed

section \<open>Witnesses\<close>

lemma Default_valid: "Validate (\<lambda>s. s) (\<lambda>_. True) Default = None"
proof -
  have "TrimSpace ''data/modbus-scan.db'' = ''data/modbus-scan.db''"
    by (rule TrimSpace_id) (simp add: ascii_word_char_def)
  moreover have "ToLower (\<lambda>s. s) ''info'' = ''info''" "ToLower (\<lambda>s. s) ''text'' = ''text''" by code_simp+
  ultimately show ?thesis by (simp add: Validate_def Default_def)
qed

definition absolute_only :: "string \<Rightarrow> string + string" where
  "absolute_only p = (if unix_IsAbs p then Inr p else Inl ''relative'')"

lemma Load_sound_witness:
  "\<exists>cfg. Load (\<lambda>s. s) (\<lambda>_. True) unix_paths unix_Dir absolute_only (\<lambda>_ c. Inr c) ''/etc/config.toml'' = Inr cfg \<and>
     unix_IsAbs (dc_Path (cf_Database cfg)) \<and> sv_Port (cf_Server cfg) = 8080"
proof -
  have abs: "\<And>a. absolute_only ''/etc/config.toml'' = Inr a \<Longrightarrow> unix_IsAbs a" by (auto simp: absolute_only_def split: if_splits)
  have "absolute_only ''/etc/config.toml'' = Inr ''/etc/config.toml''" by (simp add: absolute_only_def unix_IsAbs_def)
  then obtain cfg where c: "Load (\<lambda>s. s) (\<lambda>_. True) unix_paths unix_Dir absolute_only (\<lambda>_ c. Inr c) ''/etc/config.toml'' = Inr cfg"
    by (simp add: Load_def Default_valid Let_def)
  from Load_sound [OF c abs] have "unix_IsAbs (dc_Path (cf_Database cfg))" "cf_Server cfg = cf_Server Default" by auto
  with c show ?thesis by (simp add: Default_def)
qed

end
