(* ===== verification/WinService.thy ===== *)
theory WinService
  imports Prelude
begin

text \<open>
  \<open>internal/winservice\<close>: the process as a Windows service. \<open>Execute\<close>, the handler that talks to the
  service control manager, is a machine driven by what it receives; the manager of the command
  line is a sequence of calls on the control manager, whose answers are given. Polling is a loop
  that may run for ever, so it is a partial function.
\<close>

section \<open>The service handler\<close>

datatype svc_state = SvcStopped | SvcStartPending | SvcStopPending | SvcRunning | SvcContinuePending | SvcPausePending
  | SvcPaused | SvcOther nat

record Status =
  sv_State :: svc_state
  sv_AcceptsStop :: bool
  sv_CheckPoint :: u32
  sv_WaitHint :: int

definition serviceWaitHint :: int where
  "serviceWaitHint = 15000"

definition plain_status :: "svc_state \<Rightarrow> Status" where
  "plain_status s = \<lparr>sv_State = s, sv_AcceptsStop = False, sv_CheckPoint = 0, sv_WaitHint = 0\<rparr>"

datatype svc_cmd = CmdInterrogate | CmdStop | CmdShutdown | CmdOther nat

text \<open>What the two \<open>select\<close> statements receive.\<close>

datatype svc_event = RunEnded "string option" | Ready | Request svc_cmd | Tick

text \<open>
  \<open>ex_current\<close> is \<open>None\<close> until the application is ready; \<open>ex_result\<close> is the pair that \<open>Execute\<close>
  returns, after which nothing is received any more. The ticker exists once a stop was accepted.
\<close>

record Execution =
  ex_statuses :: "Status list"
  ex_current :: "Status option"
  ex_checkpoint :: u32
  ex_ticking :: bool
  ex_cancelled :: bool
  ex_result :: "(bool \<times> u32) option"

definition execute_init :: Execution where
  "execute_init = \<lparr>ex_statuses = [\<lparr>sv_State = SvcStartPending, sv_AcceptsStop = False, sv_CheckPoint = 0,
       sv_WaitHint = serviceWaitHint\<rparr>],
     ex_current = None, ex_checkpoint = 0, ex_ticking = False, ex_cancelled = False, ex_result = None\<rparr>"

definition tell :: "Status \<Rightarrow> Execution \<Rightarrow> Execution" where
  "tell st e = e\<lparr>ex_statuses := ex_statuses e @ [st]\<rparr>"

definition run_ended :: "string option \<Rightarrow> Execution \<Rightarrow> Execution" where
  "run_ended err e =
     (tell (plain_status SvcStopped) e)
       \<lparr>ex_result := Some (if err \<noteq> None then (True, 1) else (False, 0)), ex_cancelled := True\<rparr>"

definition accept_stop :: "Status \<Rightarrow> Execution \<Rightarrow> Execution" where
  "accept_stop current e =
     (if sv_State current \<noteq> SvcStopPending then
        let st = \<lparr>sv_State = SvcStopPending, sv_AcceptsStop = False, sv_CheckPoint = 1, sv_WaitHint = serviceWaitHint\<rparr>
        in (tell st e)\<lparr>ex_checkpoint := 1, ex_current := Some st, ex_cancelled := True, ex_ticking := True\<rparr>
      else e)"

definition tick :: "Status \<Rightarrow> Execution \<Rightarrow> Execution" where
  "tick current e =
     (let st = current\<lparr>sv_CheckPoint := ex_checkpoint e + 1\<rparr>
      in (tell st e)\<lparr>ex_checkpoint := ex_checkpoint e + 1, ex_current := Some st\<rparr>)"

text \<open>One event; \<open>None\<close> when \<open>Execute\<close> does not receive it where it is.\<close>

fun execute_step :: "svc_event \<Rightarrow> Execution \<Rightarrow> Execution option" where
  "execute_step (RunEnded err) e = (if ex_result e = None then Some (run_ended err e) else None)"
| "execute_step Ready e =
     (if ex_result e = None \<and> ex_current e = None then
        let st = (plain_status SvcRunning)\<lparr>sv_AcceptsStop := True\<rparr>
        in Some ((tell st e)\<lparr>ex_current := Some st\<rparr>)
      else None)"
| "execute_step (Request cmd) e =
     (if ex_result e \<noteq> None then None
      else case ex_current e of
             None \<Rightarrow> None
           | Some current \<Rightarrow>
               Some (if cmd = CmdStop \<or> cmd = CmdShutdown then accept_stop current e else tell current e))"
| "execute_step Tick e =
     (if ex_result e \<noteq> None \<or> \<not> ex_ticking e then None
      else case ex_current e of None \<Rightarrow> None | Some current \<Rightarrow> Some (tick current e))"

fun execute_run :: "svc_event list \<Rightarrow> Execution \<Rightarrow> Execution option" where
  "execute_run [] e = Some e"
| "execute_run (ev # evs) e = (case execute_step ev e of None \<Rightarrow> None | Some e' \<Rightarrow> execute_run evs e')"

section \<open>The order of the reports\<close>

fun rank :: "svc_state \<Rightarrow> nat" where
  "rank SvcStartPending = 0"
| "rank SvcRunning = 1"
| "rank SvcStopPending = 2"
| "rank SvcStopped = 3"
| "rank s = 4"

definition ranks :: "Execution \<Rightarrow> nat list" where
  "ranks e = map (\<lambda>st. rank (sv_State st)) (ex_statuses e)"

definition checkpoints :: "Execution \<Rightarrow> nat list" where
  "checkpoints e = map (\<lambda>st. unat (sv_CheckPoint st)) (filter (\<lambda>st. sv_State st = SvcStopPending) (ex_statuses e))"

text \<open>
  The invariant of the handler, in three parts: the order of the reports, their check points, and
  what the variables of \<open>Execute\<close> say about them.
\<close>

definition order_inv :: "Execution \<Rightarrow> bool" where
  "order_inv e \<longleftrightarrow> sorted (ranks e) \<and> (\<exists>rs. ranks e = 0 # rs \<and> 0 \<notin> set rs) \<and>
     (case ex_result e of
        None \<Rightarrow> (\<forall>r\<in>set (ranks e). r \<le> (case ex_current e of None \<Rightarrow> 0 | Some st \<Rightarrow> rank (sv_State st))) \<and>
          (\<forall>st. ex_current e = Some st \<longrightarrow> sv_State st \<in> {SvcRunning, SvcStopPending})
      | Some res \<Rightarrow> \<exists>rs. ranks e = rs @ [3] \<and> 3 \<notin> set rs)"

definition check_inv :: "nat \<Rightarrow> Execution \<Rightarrow> bool" where
  "check_inv n e \<longleftrightarrow> sorted (checkpoints e) \<and> unat (ex_checkpoint e) \<le> n \<and>
     (\<forall>c\<in>set (checkpoints e). 1 \<le> c \<and> c \<le> unat (ex_checkpoint e)) \<and>
     (\<forall>st. ex_current e = Some st \<longrightarrow> sv_State st = SvcStopPending \<longrightarrow>
        sv_CheckPoint st = ex_checkpoint e \<and> 1 \<le> unat (ex_checkpoint e))"

definition cancel_inv :: "Execution \<Rightarrow> bool" where
  "cancel_inv e \<longleftrightarrow>
     (ex_result e = None \<longrightarrow> (ex_cancelled e \<longleftrightarrow> checkpoints e \<noteq> [])) \<and> (ex_result e \<noteq> None \<longrightarrow> ex_cancelled e) \<and>
     (checkpoints e \<noteq> [] \<longleftrightarrow> ex_ticking e) \<and>
     (ex_ticking e \<longleftrightarrow> (\<exists>st. ex_current e = Some st \<and> sv_State st = SvcStopPending))"

lemma tell_fields [simp]:
  "ranks (tell st e) = ranks e @ [rank (sv_State st)]"
  "checkpoints (tell st e) = checkpoints e @ (if sv_State st = SvcStopPending then [unat (sv_CheckPoint st)] else [])"
  "ex_current (tell st e) = ex_current e" "ex_checkpoint (tell st e) = ex_checkpoint e"
  "ex_ticking (tell st e) = ex_ticking e" "ex_cancelled (tell st e) = ex_cancelled e"
  "ex_result (tell st e) = ex_result e"
  by (simp_all add: tell_def ranks_def checkpoints_def)

lemma ranks_frame [simp]:
  "ranks (e\<lparr>ex_current := x\<rparr>) = ranks e" "ranks (e\<lparr>ex_checkpoint := y\<rparr>) = ranks e"
  "ranks (e\<lparr>ex_ticking := t\<rparr>) = ranks e" "ranks (e\<lparr>ex_cancelled := t\<rparr>) = ranks e"
  "ranks (e\<lparr>ex_result := r\<rparr>) = ranks e"
  "checkpoints (e\<lparr>ex_current := x\<rparr>) = checkpoints e" "checkpoints (e\<lparr>ex_checkpoint := y\<rparr>) = checkpoints e"
  "checkpoints (e\<lparr>ex_ticking := t\<rparr>) = checkpoints e" "checkpoints (e\<lparr>ex_cancelled := t\<rparr>) = checkpoints e"
  "checkpoints (e\<lparr>ex_result := r\<rparr>) = checkpoints e"
  by (simp_all add: ranks_def checkpoints_def)

lemma order_step: "execute_step ev e = Some e' \<Longrightarrow> order_inv e \<Longrightarrow> order_inv e'"
  by (cases ev)
    (fastforce simp: order_inv_def run_ended_def accept_stop_def tick_def plain_status_def Let_def sorted_append
      split: if_splits option.splits)+

lemma Suc_word: "unat (c :: u32) \<le> n \<Longrightarrow> Suc n < 2 ^ 32 \<Longrightarrow> unat (c + 1) = Suc (unat c)"
  using unat_plus_le [of c 1] by simp

lemma check_step: "execute_step ev e = Some e' \<Longrightarrow> check_inv n e \<Longrightarrow> cancel_inv e \<Longrightarrow> Suc n < 2 ^ 32 \<Longrightarrow> check_inv (Suc n) e'"
  by (cases ev)
    (fastforce simp: check_inv_def cancel_inv_def run_ended_def accept_stop_def tick_def plain_status_def Let_def
      sorted_append Suc_word split: if_splits option.splits)+

lemma cancel_step: "execute_step ev e = Some e' \<Longrightarrow> cancel_inv e \<Longrightarrow> cancel_inv e'"
  by (cases ev)
    (auto simp: cancel_inv_def run_ended_def accept_stop_def tick_def plain_status_def Let_def
      split: if_splits option.splits)

lemma execute_run_inv:
  "execute_run evs e = Some e' \<Longrightarrow> order_inv e \<Longrightarrow> check_inv n e \<Longrightarrow> cancel_inv e \<Longrightarrow> n + length evs < 2 ^ 32 \<Longrightarrow>
     order_inv e' \<and> check_inv (n + length evs) e' \<and> cancel_inv e'"
proof (induction evs arbitrary: n e)
  case (Cons ev evs)
  then obtain e1 where step: "execute_step ev e = Some e1" and run: "execute_run evs e1 = Some e'"
    by (auto split: option.splits)
  have "order_inv e1" "check_inv (Suc n) e1" "cancel_inv e1"
    using order_step [OF step] check_step [OF step] cancel_step [OF step] Cons.prems by simp_all
  from Cons.IH [OF run this] Cons.prems(5) show ?case by simp
qed simp

lemma execute_init_inv: "order_inv execute_init" "check_inv 0 execute_init" "cancel_inv execute_init"
  by (simp_all add: execute_init_def order_inv_def check_inv_def cancel_inv_def ranks_def checkpoints_def)

section \<open>The reports by what was received\<close>

text \<open>
  The specification, without the variables of \<open>Execute\<close>: what is reported on an event after what was
  received before it. Each tick adds one to the check point; a question repeats the last report.
\<close>

definition stop_asked :: "svc_event list \<Rightarrow> bool" where
  "stop_asked evs \<longleftrightarrow> Request CmdStop \<in> set evs \<or> Request CmdShutdown \<in> set evs"

definition stopping_status :: "nat \<Rightarrow> Status" where
  "stopping_status n = \<lparr>sv_State = SvcStopPending, sv_AcceptsStop = False, sv_CheckPoint = of_nat n, sv_WaitHint = 15000\<rparr>"

definition last_status :: "svc_event list \<Rightarrow> Status" where
  "last_status evs =
     (if stop_asked evs then stopping_status (1 + count_list evs Tick)
      else (plain_status SvcRunning)\<lparr>sv_AcceptsStop := True\<rparr>)"

fun reported :: "svc_event list \<Rightarrow> svc_event \<Rightarrow> Status list" where
  "reported evs (RunEnded err) = [plain_status SvcStopped]"
| "reported evs Ready = [(plain_status SvcRunning)\<lparr>sv_AcceptsStop := True\<rparr>]"
| "reported evs (Request cmd) =
     (if cmd \<in> {CmdStop, CmdShutdown} then (if stop_asked evs then [] else [stopping_status 1]) else [last_status evs])"
| "reported evs Tick = [stopping_status (2 + count_list evs Tick)]"

fun reports_after :: "svc_event list \<Rightarrow> svc_event list \<Rightarrow> Status list" where
  "reports_after before [] = []"
| "reports_after before (ev # evs) = reported before ev @ reports_after (before @ [ev]) evs"

lemma reports_after_append: "reports_after before (xs @ ys) = reports_after before xs @ reports_after (before @ xs) ys"
  by (induction xs arbitrary: before) simp_all

definition exec_history :: "svc_event list \<Rightarrow> Execution \<Rightarrow> bool" where
  "exec_history evs e \<longleftrightarrow>
     ex_statuses e = \<lparr>sv_State = SvcStartPending, sv_AcceptsStop = False, sv_CheckPoint = 0, sv_WaitHint = 15000\<rparr> # reports_after [] evs \<and>
     (ex_cancelled e \<longleftrightarrow> stop_asked evs \<or> (\<exists>err. RunEnded err \<in> set evs)) \<and>
     (\<forall>err. RunEnded err \<in> set evs \<longrightarrow> ex_result e = Some (if err = None then (False, 0) else (True, 1))) \<and>
     (ex_result e = None \<longleftrightarrow> (\<forall>err. RunEnded err \<notin> set evs)) \<and>
     (ex_ticking e \<longleftrightarrow> stop_asked evs) \<and>
     (Tick \<in> set evs \<longrightarrow> stop_asked evs) \<and> (stop_asked evs \<longrightarrow> Ready \<in> set evs) \<and>
     (stop_asked evs \<longrightarrow> ex_checkpoint e = of_nat (1 + count_list evs Tick)) \<and>
     ex_current e = (if Ready \<in> set evs then Some (last_status evs) else None)"

lemma stop_asked_snoc [simp]:
  "stop_asked (evs @ [ev]) \<longleftrightarrow> stop_asked evs \<or> ev = Request CmdStop \<or> ev = Request CmdShutdown" "\<not> stop_asked []"
  by (auto simp: stop_asked_def)

lemma exec_history_step:
  assumes "execute_step ev e = Some e'" "exec_history evs e"
  shows "exec_history (evs @ [ev]) e'"
proof (cases ev)
  case (RunEnded err)
  with assms show ?thesis by (auto simp: exec_history_def run_ended_def tell_def reports_after_append last_status_def Let_def split: if_splits)
next
  case Ready
  with assms show ?thesis by (auto simp: exec_history_def tell_def reports_after_append last_status_def count_list_0_iff Let_def split: if_splits)
next
  case (Request cmd)
  with assms show ?thesis
    by (auto simp: exec_history_def accept_stop_def tell_def reports_after_append last_status_def stopping_status_def
        plain_status_def serviceWaitHint_def count_list_0_iff Let_def split: if_splits option.splits)
next
  case Tick
  with assms show ?thesis
    by (auto simp: exec_history_def tick_def tell_def reports_after_append last_status_def stopping_status_def
        Let_def split: if_splits option.splits)
qed

lemma execute_run_append: "execute_run (xs @ ys) e = Option.bind (execute_run xs e) (execute_run ys)"
  by (induction xs arbitrary: e) (auto split: option.split)

lemma execute_run_history: "execute_run evs execute_init = Some e \<Longrightarrow> exec_history evs e"
proof (induction evs arbitrary: e rule: rev_induct)
  case Nil
  then show ?case by (auto simp: exec_history_def execute_init_def serviceWaitHint_def)
next
  case (snoc ev evs)
  then obtain e1 where "execute_run evs execute_init = Some e1" "execute_step ev e1 = Some e"
    by (auto simp: execute_run_append bind_eq_Some_conv split: option.splits)
  with snoc.IH exec_history_step show ?case by blast
qed

section \<open>Polling\<close>

datatype wait_error = QueryFailed string | CtxDone string

text \<open>
  \<open>waitForState\<close> from its \<open>n\<close>-th turn: \<open>query n\<close> is what the control manager answers, \<open>done n\<close> the
  error of the context when the context wins the \<open>select\<close> of that turn.
\<close>

partial_function (option) waitForState ::
    "(nat \<Rightarrow> string + svc_state) \<Rightarrow> (nat \<Rightarrow> string option) \<Rightarrow> svc_state \<Rightarrow> nat \<Rightarrow> wait_error option option" where
  "waitForState query ctx wanted n =
     (case query n of
        Inl err \<Rightarrow> Some (Some (QueryFailed err))
      | Inr st \<Rightarrow>
          if st = wanted then Some None
          else case ctx n of Some err \<Rightarrow> Some (Some (CtxDone err)) | None \<Rightarrow> waitForState query ctx wanted (n + 1))"

definition turn_ends :: "(nat \<Rightarrow> string + svc_state) \<Rightarrow> (nat \<Rightarrow> string option) \<Rightarrow> svc_state \<Rightarrow> nat \<Rightarrow> bool" where
  "turn_ends query ctx wanted n \<longleftrightarrow> (\<exists>err. query n = Inl err) \<or> query n = Inr wanted \<or> ctx n \<noteq> None"

lemma waitForState_turn:
  assumes "turn_ends query ctx wanted k" "\<And>j. n \<le> j \<Longrightarrow> j < k \<Longrightarrow> \<not> turn_ends query ctx wanted j" "n \<le> k"
  shows "waitForState query ctx wanted n =
    (case query k of
       Inl err \<Rightarrow> Some (Some (QueryFailed err))
     | Inr st \<Rightarrow> if st = wanted then Some None else map_option (\<lambda>err. Some (CtxDone err)) (ctx k))"
  using assms(3,2)
proof (induction n rule: inc_induct)
  case base
  then show ?case using assms(1)
    by (subst waitForState.simps) (auto simp: turn_ends_def split: sum.split option.split)
next
  case (step m)
  have "\<not> turn_ends query ctx wanted m" using step.prems step.hyps by simp
  then have "waitForState query ctx wanted m = waitForState query ctx wanted (m + 1)"
    by (subst waitForState.simps) (auto simp: turn_ends_def split: sum.split)
  with step show ?case by simp
qed

section \<open>The manager of the command line\<close>

text \<open>An error of Windows, and whether it is \<open>ERROR_ACCESS_DENIED\<close> or \<open>ERROR_SERVICE_NOT_ACTIVE\<close>.\<close>

record WinError =
  we_text :: string
  we_denied :: bool
  we_notActive :: bool

definition administrativeError :: "string \<Rightarrow> WinError \<Rightarrow> string" where
  "administrativeError operation err =
     (if we_denied err then operation @ '': please run in an administrator PowerShell: '' @ we_text err
      else operation @ '': '' @ we_text err)"

definition closeError :: "string \<Rightarrow> string option \<Rightarrow> string option" where
  "closeError operation err = map_option (\<lambda>e. operation @ '': '' @ e) err"

text \<open>\<open>errors.Join\<close> of two errors.\<close>

fun join_errors :: "string option \<Rightarrow> string option \<Rightarrow> string option" where
  "join_errors None b = b"
| "join_errors a None = a"
| "join_errors (Some a) (Some b) = Some (a @ [CHR 0x0A] @ b)"

definition mapState :: "svc_state \<Rightarrow> string" where
  "mapState st =
     (case st of
        SvcStopped \<Rightarrow> ''stopped'' | SvcStartPending \<Rightarrow> ''start_pending'' | SvcStopPending \<Rightarrow> ''stop_pending''
      | SvcRunning \<Rightarrow> ''running'' | SvcContinuePending \<Rightarrow> ''continue_pending'' | SvcPausePending \<Rightarrow> ''pause_pending''
      | SvcPaused \<Rightarrow> ''paused'' | SvcOther n \<Rightarrow> ''unknown'')"

text \<open>The answers of the control manager, and the calls made on it, in order.\<close>

record Scm =
  sc_connect :: "WinError option"
  sc_open :: "WinError option"
  sc_create :: "WinError option"
  sc_query :: "string + svc_state"
  sc_control :: "WinError option"
  sc_start :: "WinError option"
  sc_delete :: "WinError option"
  sc_close :: "string option"
  sc_disconnect :: "string option"
  sc_stopping :: "wait_error option"
  sc_starting :: "wait_error option"

datatype scm_call = Connect | Disconnect | OpenService | CreateService string string | CloseService | Query
  | ControlStop | StartService | DeleteService | WaitFor svc_state

fun wait_text :: "wait_error \<Rightarrow> string" where
  "wait_text (QueryFailed err) = ''query Windows service status: '' @ err"
| "wait_text (CtxDone err) = err"

type_synonym outcome = "string option \<times> scm_call list"

text \<open>\<open>openService\<close>, the body, and the deferred calls that close what was opened.\<close>

definition with_service :: "Scm \<Rightarrow> outcome \<Rightarrow> outcome" where
  "with_service scm body =
     (case sc_connect scm of
        Some err \<Rightarrow> (Some (administrativeError ''connect to Windows service manager'' err), [Connect])
      | None \<Rightarrow>
          (case sc_open scm of
             Some err \<Rightarrow>
               (join_errors (Some (administrativeError ''open Windows service'' err))
                 (closeError ''disconnect Windows service manager'' (sc_disconnect scm)), [Connect, OpenService, Disconnect])
           | None \<Rightarrow>
               (join_errors (join_errors (fst body) (closeError ''close Windows service'' (sc_close scm)))
                 (closeError ''disconnect Windows service manager'' (sc_disconnect scm)),
                [Connect, OpenService] @ snd body @ [CloseService, Disconnect])))"

definition Install :: "string \<Rightarrow> string \<Rightarrow> Scm \<Rightarrow> outcome" where
  "Install executablePath configPath scm =
     (case sc_connect scm of
        Some err \<Rightarrow> (Some (administrativeError ''connect to Windows service manager'' err), [Connect])
      | None \<Rightarrow>
          (case sc_create scm of
             Some err \<Rightarrow>
               (join_errors (Some (administrativeError ''create Windows service'' err))
                 (closeError ''disconnect Windows service manager'' (sc_disconnect scm)),
                [Connect, CreateService executablePath configPath, Disconnect])
           | None \<Rightarrow>
               (join_errors (closeError ''close Windows service'' (sc_close scm))
                 (closeError ''disconnect Windows service manager'' (sc_disconnect scm)),
                [Connect, CreateService executablePath configPath, CloseService, Disconnect])))"

definition uninstall_body :: "Scm \<Rightarrow> outcome" where
  "uninstall_body scm =
     (case sc_query scm of
        Inl err \<Rightarrow> (Some (''query Windows service before uninstall: '' @ err), [Query])
      | Inr st \<Rightarrow>
          if st \<noteq> SvcStopped then
            (Some (''Windows service must be stopped before uninstall (current state: '' @ mapState st @ '')''), [Query])
          else (map_option (administrativeError ''delete Windows service'') (sc_delete scm), [Query, DeleteService]))"

definition Uninstall :: "Scm \<Rightarrow> outcome" where
  "Uninstall scm = with_service scm (uninstall_body scm)"

definition start_body :: "Scm \<Rightarrow> outcome" where
  "start_body scm =
     (case sc_query scm of
        Inl err \<Rightarrow> (Some (''query Windows service before start: '' @ err), [Query])
      | Inr st \<Rightarrow>
          if st = SvcRunning then (None, [Query])
          else if st \<noteq> SvcStartPending \<and> sc_start scm \<noteq> None then
            (map_option (administrativeError ''start Windows service'') (sc_start scm), [Query, StartService])
          else
            (map_option (\<lambda>e. ''wait for Windows service to start: '' @ wait_text e) (sc_starting scm),
             [Query] @ (if st \<noteq> SvcStartPending then [StartService] else []) @ [WaitFor SvcRunning]))"

definition svc_Start :: "Scm \<Rightarrow> outcome" where
  "svc_Start scm = with_service scm (start_body scm)"

definition stopService :: "Scm \<Rightarrow> outcome" where
  "stopService scm =
     (case sc_query scm of
        Inl err \<Rightarrow> (Some (''query Windows service before stop: '' @ err), [Query])
      | Inr st \<Rightarrow>
          if st = SvcStopped then (None, [Query])
          else
            let refused = (case sc_control scm of None \<Rightarrow> None | Some err \<Rightarrow> if we_notActive err then None else Some err) in
            if st \<noteq> SvcStopPending \<and> refused \<noteq> None then
              (map_option (administrativeError ''request Windows service stop'') refused, [Query, ControlStop])
            else
              (map_option (\<lambda>e. ''wait for Windows service to stop: '' @ wait_text e) (sc_stopping scm),
               [Query] @ (if st \<noteq> SvcStopPending then [ControlStop] else []) @ [WaitFor SvcStopped]))"

definition svc_Stop :: "Scm \<Rightarrow> outcome" where
  "svc_Stop scm = with_service scm (stopService scm)"

definition restart_body :: "Scm \<Rightarrow> outcome" where
  "restart_body scm =
     (let (err, calls) = stopService scm in
      if err \<noteq> None then (err, calls)
      else case sc_start scm of
             Some e \<Rightarrow> (Some (administrativeError ''restart Windows service'' e), calls @ [StartService])
           | None \<Rightarrow>
               (map_option (\<lambda>e. ''wait for restarted Windows service: '' @ wait_text e) (sc_starting scm),
                calls @ [StartService, WaitFor SvcRunning]))"

definition svc_Restart :: "Scm \<Rightarrow> outcome" where
  "svc_Restart scm = with_service scm (restart_body scm)"

definition status_body :: "Scm \<Rightarrow> outcome" where
  "status_body scm =
     (case sc_query scm of Inl err \<Rightarrow> (Some (''query Windows service: '' @ err), [Query]) | Inr st \<Rightarrow> (None, [Query]))"

text \<open>\<open>Status\<close> answers the state beside its error.\<close>

definition svc_Status :: "Scm \<Rightarrow> string \<times> outcome" where
  "svc_Status scm =
     ((case (sc_connect scm, sc_open scm, sc_query scm) of (None, None, Inr st) \<Rightarrow> mapState st | _ \<Rightarrow> ''unknown''),
      with_service scm (status_body scm))"

section \<open>Properties\<close>

text \<open>
  C38: whatever the service control manager and the application do, in whatever order, the reports are
  exactly those that what was received calls for: running once the application is ready; on the first
  \<open>Stop\<close> or \<open>Shutdown\<close>, and on no other request, stop pending with check point 1; on each tick after it
  stop pending with the check point one higher; the last report again on a question; stopped when
  the application is over. The application is told to stop exactly when a \<open>Stop\<close> or \<open>Shutdown\<close>
  was received or it is over, and the exit code says whether it failed. So the states come in the
  order start pending, running, stop pending, stopped, start pending only once, stopped only as the
  last, and the check points never go back.
\<close>

theorem execute_reports:
  assumes "execute_run evs execute_init = Some e" "length evs < 2 ^ 32"
  shows "ex_statuses e = \<lparr>sv_State = SvcStartPending, sv_AcceptsStop = False, sv_CheckPoint = 0, sv_WaitHint = 15000\<rparr> #
      reports_after [] evs \<and>
    (ex_cancelled e \<longleftrightarrow> Request CmdStop \<in> set evs \<or> Request CmdShutdown \<in> set evs \<or> (\<exists>err. RunEnded err \<in> set evs)) \<and>
    (\<forall>err. RunEnded err \<in> set evs \<longrightarrow> ex_result e = Some (if err = None then (False, 0) else (True, 1))) \<and>
    sorted (ranks e) \<and> (\<exists>rs. ranks e = 0 # rs \<and> 0 \<notin> set rs) \<and> sorted (checkpoints e) \<and>
    (\<forall>c\<in>set (checkpoints e). 1 \<le> c) \<and> (ex_cancelled e \<longleftrightarrow> checkpoints e \<noteq> [] \<or> ex_result e \<noteq> None) \<and>
    (ex_result e \<noteq> None \<longleftrightarrow> 3 \<in> set (ranks e)) \<and> (ex_result e \<noteq> None \<longrightarrow> 3 \<notin> set (butlast (ranks e)))"
proof -
  have inv: "order_inv e" "check_inv (length evs) e" "cancel_inv e"
    using execute_run_inv [OF assms(1) execute_init_inv] assms(2) by simp_all
  have "r \<le> 2" if "ex_result e = None" "r \<in> set (ranks e)" for r
  proof -
    have "r \<le> (case ex_current e of None \<Rightarrow> 0 | Some st \<Rightarrow> rank (sv_State st))"
      using inv(1) that by (simp add: order_inv_def)
    also have "\<dots> \<le> 2" using inv(1) that(1) by (auto simp: order_inv_def split: option.split)
    finally show ?thesis .
  qed
  note low = this
  have "ex_result e \<noteq> None \<longleftrightarrow> 3 \<in> set (ranks e)"
  proof (cases "ex_result e")
    case None
    then show ?thesis using low [OF None, of 3] by auto
  next
    case (Some res)
    then obtain rs where "ranks e = rs @ [3]" using inv(1) unfolding order_inv_def by auto
    then have "3 \<in> set (ranks e)" by simp
    with Some show ?thesis by simp
  qed
  moreover have "3 \<notin> set (butlast (ranks e))" if res: "ex_result e \<noteq> None"
  proof -
    obtain rs where "ranks e = rs @ [3]" "3 \<notin> set rs" using inv(1) res unfolding order_inv_def by auto
    then show ?thesis by simp
  qed
  moreover have "sorted (ranks e)" "\<exists>rs. ranks e = 0 # rs \<and> 0 \<notin> set rs" "sorted (checkpoints e)"
    "\<forall>c\<in>set (checkpoints e). 1 \<le> c" "ex_cancelled e \<longleftrightarrow> checkpoints e \<noteq> [] \<or> ex_result e \<noteq> None"
    using inv unfolding order_inv_def check_inv_def cancel_inv_def by blast+
  moreover from execute_run_history [OF assms(1)]
  have "ex_statuses e = \<lparr>sv_State = SvcStartPending, sv_AcceptsStop = False, sv_CheckPoint = 0, sv_WaitHint = 15000\<rparr> #
      reports_after [] evs"
    "ex_cancelled e \<longleftrightarrow> Request CmdStop \<in> set evs \<or> Request CmdShutdown \<in> set evs \<or> (\<exists>err. RunEnded err \<in> set evs)"
    "\<forall>err. RunEnded err \<in> set evs \<longrightarrow> ex_result e = Some (if err = None then (False, 0) else (True, 1))"
    unfolding exec_history_def stop_asked_def by blast+
  ultimately show ?thesis by blast
qed

lemma waitForState_ends:
  "waitForState query ctx wanted n = Some r \<Longrightarrow> \<exists>k\<ge>n. turn_ends query ctx wanted k"
proof (rule waitForState.raw_induct [of "\<lambda>query ctx wanted n r. \<exists>k\<ge>n. turn_ends query ctx wanted k"])
  fix wait :: "(nat \<Rightarrow> string + svc_state) \<Rightarrow> (nat \<Rightarrow> string option) \<Rightarrow> svc_state \<Rightarrow> nat \<Rightarrow> wait_error option option"
    and query ctx wanted n r
  assume IH: "\<And>query ctx wanted n r. wait query ctx wanted n = Some r \<Longrightarrow> \<exists>k\<ge>n. turn_ends query ctx wanted k"
    and body: "(case query n of
        Inl err \<Rightarrow> Some (Some (QueryFailed err))
      | Inr st \<Rightarrow>
          if st = wanted then Some None
          else case ctx n of Some err \<Rightarrow> Some (Some (CtxDone err)) | None \<Rightarrow> wait query ctx wanted (n + 1)) = Some r"
  show "\<exists>k\<ge>n. turn_ends query ctx wanted k"
  proof (cases "turn_ends query ctx wanted n")
    case False
    then have "wait query ctx wanted (n + 1) = Some r"
      using body by (auto simp: turn_ends_def split: sum.splits)
    from IH [OF this] show ?thesis by (meson add_leD1)
  qed auto
qed

text \<open>
  C40: waiting for a state ends exactly when there is a turn in which the query fails, the state is
  the wanted one, or the context is done; and it ends at the first such turn, with success when the
  state is the wanted one and otherwise with the error of that turn.
\<close>

theorem waitForState_ends_at_first:
  "(waitForState query ctx wanted 0 \<noteq> None \<longleftrightarrow> (\<exists>k. turn_ends query ctx wanted k)) \<and>
   ((\<exists>k. turn_ends query ctx wanted k) \<longrightarrow>
      (let k = (LEAST k. turn_ends query ctx wanted k) in
       waitForState query ctx wanted 0 =
         (case query k of
            Inl err \<Rightarrow> Some (Some (QueryFailed err))
          | Inr st \<Rightarrow> if st = wanted then Some None else map_option (\<lambda>err. Some (CtxDone err)) (ctx k))))"
proof (cases "\<exists>k. turn_ends query ctx wanted k")
  case False
  then show ?thesis using waitForState_ends [of query ctx wanted 0] by fastforce
next
  case True
  define k where "k = (LEAST k. turn_ends query ctx wanted k)"
  have k: "turn_ends query ctx wanted k" "\<And>j. j < k \<Longrightarrow> \<not> turn_ends query ctx wanted j"
    using True LeastI_ex [of "turn_ends query ctx wanted"] not_less_Least [of _ "turn_ends query ctx wanted"]
    unfolding k_def by blast+
  from waitForState_turn [OF k(1), of 0] k(2)
  have "waitForState query ctx wanted 0 =
    (case query k of
       Inl err \<Rightarrow> Some (Some (QueryFailed err))
     | Inr st \<Rightarrow> if st = wanted then Some None else map_option (\<lambda>err. Some (CtxDone err)) (ctx k))" by simp
  moreover have "\<dots> \<noteq> None" using k(1) by (auto simp: turn_ends_def split: sum.split)
  ultimately show ?thesis using True by (auto simp: k_def [symmetric] Let_def)
qed

text \<open>The calls between opening and closing never open or close.\<close>

definition inner :: "scm_call list \<Rightarrow> bool" where
  "inner calls \<longleftrightarrow> list_all (\<lambda>c. c \<notin> {Connect, Disconnect, OpenService, CloseService}) calls"

lemma with_service_balanced:
  assumes "inner (snd body)"
  shows "count_list (snd (with_service scm body)) Connect = 1"
    "count_list (snd (with_service scm body)) Disconnect = (if sc_connect scm = None then 1 else 0)"
    "count_list (snd (with_service scm body)) CloseService = (if sc_connect scm = None \<and> sc_open scm = None then 1 else 0)"
proof -
  have "count_list (snd body) c = 0" if "c \<in> {Connect, Disconnect, OpenService, CloseService}" for c
    using assms that by (auto simp: inner_def list_all_iff count_list_0_iff)
  then show "count_list (snd (with_service scm body)) Connect = 1"
    "count_list (snd (with_service scm body)) Disconnect = (if sc_connect scm = None then 1 else 0)"
    "count_list (snd (with_service scm body)) CloseService = (if sc_connect scm = None \<and> sc_open scm = None then 1 else 0)"
    by (auto simp: with_service_def split: option.split)
qed

lemma join_None: "join_errors a b = None \<longleftrightarrow> a = None \<and> b = None"
  by (cases "(a, b)" rule: join_errors.cases) auto

lemma with_service_None:
  "fst (with_service scm body) = None \<longleftrightarrow> sc_connect scm = None \<and> sc_open scm = None \<and> fst body = None \<and>
     sc_close scm = None \<and> sc_disconnect scm = None"
  by (auto simp: with_service_def join_None closeError_def split: option.split)

lemma with_service_calls:
  "c \<in> set (snd (with_service scm body)) \<Longrightarrow> c \<in> set (snd body) \<or> c \<in> {Connect, Disconnect, OpenService, CloseService}"
  by (auto simp: with_service_def split: option.splits)

definition opened :: "Scm \<Rightarrow> bool" where
  "opened scm \<longleftrightarrow> sc_connect scm = None \<and> sc_open scm = None"

definition released :: "Scm \<Rightarrow> outcome \<Rightarrow> bool" where
  "released scm out \<longleftrightarrow> count_list (snd out) Connect = 1 \<and>
     count_list (snd out) Disconnect = (if sc_connect scm = None then 1 else 0) \<and>
     count_list (snd out) CloseService = (if opened scm then 1 else 0) \<and>
     (sc_connect scm = None \<longrightarrow> last (snd out) = Disconnect)"

lemma with_service_released: "inner (snd body) \<Longrightarrow> released scm (with_service scm body)"
  using with_service_balanced [of body scm]
  by (simp add: released_def opened_def) (auto simp: with_service_def split: option.split)

lemma bodies_inner:
  "inner (snd (uninstall_body scm))" "inner (snd (start_body scm))" "inner (snd (stopService scm))"
  "inner (snd (restart_body scm))" "inner (snd (status_body scm))"
proof -
  show stop: "inner (snd (stopService scm))"
    by (auto simp: inner_def stopService_def Let_def split: sum.split option.split)
  show "inner (snd (uninstall_body scm))" "inner (snd (start_body scm))" "inner (snd (status_body scm))"
    by (auto simp: inner_def uninstall_body_def start_body_def status_body_def split: sum.split)
  show "inner (snd (restart_body scm))"
    using stop by (auto simp: inner_def restart_body_def Let_def split: prod.split option.split)
qed

text \<open>
  C39: the commands give back what they take: every one connects once, disconnects last if it
  connected, and closes the service exactly if it opened or created it, on every error path. An
  installation that reports success has created the service for the given paths. A service is deleted only when it is stopped, started only when it neither runs nor
  starts, and a restart that reports success stopped the service, or found it stopped, started it
  once and saw it running.
\<close>

theorem service_commands_disciplined:
  "list_all (\<lambda>command. released scm (command scm))
     [Uninstall, svc_Start, svc_Stop, svc_Restart, \<lambda>scm. snd (svc_Status scm)] \<and>
   (let calls = snd (Install exe config scm) in
      count_list calls Connect = 1 \<and> count_list calls Disconnect = (if sc_connect scm = None then 1 else 0) \<and>
      (sc_connect scm = None \<longrightarrow> last calls = Disconnect) \<and>
      count_list calls CloseService = (if sc_connect scm = None \<and> sc_create scm = None then 1 else 0) \<and>
      (fst (Install exe config scm) = None \<longrightarrow> sc_create scm = None \<and> CreateService exe config \<in> set calls)) \<and>
   (DeleteService \<in> set (snd (Uninstall scm)) \<longleftrightarrow> opened scm \<and> sc_query scm = Inr SvcStopped) \<and>
   (StartService \<in> set (snd (svc_Start scm)) \<longleftrightarrow>
      opened scm \<and> (\<exists>st. sc_query scm = Inr st \<and> st \<noteq> SvcRunning \<and> st \<noteq> SvcStartPending)) \<and>
   (fst (svc_Restart scm) = None \<longrightarrow>
      (sc_query scm = Inr SvcStopped \<or> sc_stopping scm = None \<and> WaitFor SvcStopped \<in> set (snd (svc_Restart scm))) \<and>
      count_list (snd (svc_Restart scm)) StartService = 1 \<and> sc_start scm = None \<and> sc_starting scm = None)"
proof -
  have 1: "released scm (Uninstall scm)" "released scm (svc_Start scm)" "released scm (svc_Stop scm)"
    "released scm (svc_Restart scm)" "released scm (snd (svc_Status scm))"
    unfolding Uninstall_def svc_Start_def svc_Stop_def svc_Restart_def svc_Status_def snd_conv
    by (intro with_service_released bodies_inner)+
  have 4: "DeleteService \<in> set (snd (Uninstall scm)) \<longleftrightarrow> opened scm \<and> sc_query scm = Inr SvcStopped"
    by (auto simp: Uninstall_def uninstall_body_def with_service_def opened_def split: option.splits sum.splits if_splits)
  have 5: "StartService \<in> set (snd (svc_Start scm)) \<longleftrightarrow>
      opened scm \<and> (\<exists>st. sc_query scm = Inr st \<and> st \<noteq> SvcRunning \<and> st \<noteq> SvcStartPending)"
    by (auto simp: svc_Start_def start_body_def with_service_def opened_def split: option.splits sum.splits if_splits)
  have stop: "fst (stopService scm) = None \<Longrightarrow>
      sc_query scm = Inr SvcStopped \<or> sc_stopping scm = None \<and> WaitFor SvcStopped \<in> set (snd (stopService scm))"
    "count_list (snd (stopService scm)) StartService = 0"
    by (auto simp: stopService_def Let_def count_list_0_iff split: sum.splits if_splits option.splits)
  have 6: "(sc_query scm = Inr SvcStopped \<or> sc_stopping scm = None \<and> WaitFor SvcStopped \<in> set (snd (svc_Restart scm))) \<and>
      count_list (snd (svc_Restart scm)) StartService = 1 \<and> sc_start scm = None \<and> sc_starting scm = None"
    if ok: "fst (svc_Restart scm) = None"
  proof -
    obtain err calls where sv: "stopService scm = (err, calls)" by fastforce
    have o: "sc_connect scm = None" "sc_open scm = None" "err = None" "sc_start scm = None" "sc_starting scm = None"
      using ok by (auto simp: svc_Restart_def restart_body_def with_service_None sv split: if_splits option.splits)
    then have "snd (svc_Restart scm) = [Connect, OpenService] @ (calls @ [StartService, WaitFor SvcRunning]) @ [CloseService, Disconnect]"
      by (simp add: svc_Restart_def restart_body_def sv with_service_def)
    with stop o sv show ?thesis by auto
  qed
  have 7: "let calls = snd (Install exe config scm) in
      count_list calls Connect = 1 \<and> count_list calls Disconnect = (if sc_connect scm = None then 1 else 0) \<and>
      (sc_connect scm = None \<longrightarrow> last calls = Disconnect) \<and>
      count_list calls CloseService = (if sc_connect scm = None \<and> sc_create scm = None then 1 else 0) \<and>
      (fst (Install exe config scm) = None \<longrightarrow> sc_create scm = None \<and> CreateService exe config \<in> set calls)"
    by (cases "sc_connect scm"; cases "sc_create scm")
      (simp_all add: Install_def join_None)
  show ?thesis using 1 4 5 6 7 by simp
qed

section \<open>Witnesses\<close>

theorem execute_reports_witness:
  "\<exists>e. execute_run [Ready, Request CmdInterrogate, Request CmdStop, Tick, Tick, RunEnded None] execute_init = Some e \<and>
     ex_result e = Some (False, 0) \<and> ex_cancelled e \<and> sorted (ranks e) \<and>
     map (\<lambda>st. (sv_State st, sv_CheckPoint st)) (ex_statuses e) =
       [(SvcStartPending, 0), (SvcRunning, 0), (SvcRunning, 0), (SvcStopPending, 1), (SvcStopPending, 2),
        (SvcStopPending, 3), (SvcStopped, 0)]"
proof -
  let ?evs = "[Ready, Request CmdInterrogate, Request CmdStop, Tick, Tick, RunEnded None]"
  obtain e where e: "execute_run ?evs execute_init = Some e"
    by (simp add: execute_init_def accept_stop_def plain_status_def Let_def tick_def run_ended_def tell_def)
  have "map (\<lambda>st. (sv_State st, sv_CheckPoint st)) (reports_after [] ?evs) =
      [(SvcRunning, 0), (SvcRunning, 0), (SvcStopPending, 1), (SvcStopPending, 2), (SvcStopPending, 3), (SvcStopped, 0)]"
    by (simp add: plain_status_def stopping_status_def last_status_def stop_asked_def)
  with e execute_reports [OF e] show ?thesis by auto
qed

definition busy_scm :: Scm where
  "busy_scm = \<lparr>sc_connect = None, sc_open = None, sc_create = None, sc_query = Inr SvcRunning, sc_control = None,
     sc_start = None, sc_delete = None, sc_close = None, sc_disconnect = None, sc_stopping = None, sc_starting = None\<rparr>"

theorem service_commands_disciplined_witness:
  "fst (svc_Restart busy_scm) = None \<and> count_list (snd (svc_Restart busy_scm)) StartService = 1"
proof -
  have "fst (svc_Restart busy_scm) = None"
    by (simp add: svc_Restart_def restart_body_def with_service_def stopService_def busy_scm_def closeError_def)
  with service_commands_disciplined [of busy_scm] show ?thesis by blast
qed

theorem waitForState_ends_at_first_witness:
  "waitForState (\<lambda>n. Inr (if n < 2 then SvcStopPending else SvcStopped)) (\<lambda>_. None) SvcStopped 0 \<noteq> None"
  using waitForState_ends_at_first [of "\<lambda>n. Inr (if n < 2 then SvcStopPending else SvcStopped)" "\<lambda>_. None" SvcStopped]
  by (auto simp: turn_ends_def)

end
