(* ===== verification/Command.thy ===== *)
theory Command
  imports AppConfig WinService PointCsv
begin

text \<open>
  \<open>cmd/modbus-scan\<close>: the command line. The flags are parsed as the \<open>flag\<close> package does; the service
  manager is the last argument of \<open>dispatchCommand\<close>, which also answers the calls it made on it.
  What \<open>runWithReady\<close> does before it starts anything, the flags and the validation of a point file,
  is modelled; the wiring of the running service is not.
\<close>

section \<open>Flags\<close>

datatype flag_error = BadSyntax string | HelpRequested | NotDefined string | NeedsArgument string | BadBool string string

text \<open>\<open>kind name\<close> is \<open>None\<close> for an undefined flag and otherwise tells if it is a Boolean one.\<close>

definition ParseBool :: "string \<Rightarrow> bool option" where
  "ParseBool s =
     (if s \<in> {''1'', ''t'', ''T'', ''TRUE'', ''true'', ''True''} then Some True
      else if s \<in> {''0'', ''f'', ''F'', ''FALSE'', ''false'', ''False''} then Some False else None)"

text \<open>The name of a flag and, after an equals sign that is not its first character, its value.\<close>

definition split_flag :: "string \<Rightarrow> string \<times> string option" where
  "split_flag s =
     (let front = take 1 s @ takeWhile (\<lambda>c. c \<noteq> CHR ''='') (drop 1 s)
      in if length front = length s then (s, None) else (front, Some (drop (length front + 1) s)))"

function parse_flags :: "(string \<Rightarrow> bool option) \<Rightarrow> string list \<Rightarrow>
    flag_error + (string \<times> string) list \<times> string list" where
  "parse_flags kind [] = Inr ([], [])"
| "parse_flags kind (s # args) =
     (if length s < 2 \<or> hd s \<noteq> CHR ''-'' then Inr ([], s # args)
      else if s = ''--'' then Inr ([], args)
      else
        let body = (if s ! 1 = CHR ''-'' then drop 2 s else drop 1 s) in
        if body = [] \<or> hd body = CHR ''-'' \<or> hd body = CHR ''='' then Inl (BadSyntax s)
        else
          let (name, given) = split_flag body in
          (case kind name of
             None \<Rightarrow> Inl (if name = ''help'' \<or> name = ''h'' then HelpRequested else NotDefined name)
           | Some True \<Rightarrow>
               (case (case given of None \<Rightarrow> Some True | Some v \<Rightarrow> ParseBool v) of
                  None \<Rightarrow> Inl (BadBool name (the given))
                | Some b \<Rightarrow>
                    and_then (parse_flags kind args)
                      (\<lambda>(flags, rest). Inr ((name, if b then ''true'' else ''false'') # flags, rest)))
           | Some False \<Rightarrow>
               (case given of
                  Some v \<Rightarrow> and_then (parse_flags kind args) (\<lambda>(flags, rest). Inr ((name, v) # flags, rest))
                | None \<Rightarrow>
                    (case args of
                       [] \<Rightarrow> Inl (NeedsArgument name)
                     | v # args' \<Rightarrow>
                         and_then (parse_flags kind args') (\<lambda>(flags, rest). Inr ((name, v) # flags, rest))))))"
  by pat_completeness auto
termination
  by (relation "measure (\<lambda>(kind, args). length args)") auto

text \<open>The last setting of a flag wins.\<close>

definition flag_value :: "(string \<times> string) list \<Rightarrow> string \<Rightarrow> string \<Rightarrow> string" where
  "flag_value flags name default_value =
     (case map_of (rev flags) name of None \<Rightarrow> default_value | Some v \<Rightarrow> v)"

section \<open>Service commands\<close>

datatype mgr_call = MInstall string string | MUninstall | MStart | MStop | MRestart | MStatus

record ServiceManager =
  mg_call :: "mgr_call \<Rightarrow> string option"
  mg_state :: string

datatype command_error =
    ParseInstall flag_error
  | InstallPositional
  | ResolveExecutable string
  | ResolveConfig string
  | InvalidConfig string
  | CallFailed mgr_call string
  | AcceptsNoArguments string
  | UnknownCommand string

record Dispatch =
  dp_handled :: bool
  dp_error :: "command_error option"
  dp_calls :: "mgr_call list"
  dp_usage :: bool
  dp_output :: "string option"

definition refuse :: "bool \<Rightarrow> command_error \<Rightarrow> Dispatch" where
  "refuse usage err = \<lparr>dp_handled = True, dp_error = Some err, dp_calls = [], dp_usage = usage, dp_output = None\<rparr>"

definition perform :: "ServiceManager \<Rightarrow> mgr_call \<Rightarrow> Dispatch" where
  "perform mgr c =
     \<lparr>dp_handled = True, dp_error = map_option (CallFailed c) (mg_call mgr c), dp_calls = [c], dp_usage = False,
      dp_output = (if c = MStatus \<and> mg_call mgr c = None then Some (mg_state mgr) else None)\<rparr>"

definition install_kind :: "string \<Rightarrow> bool option" where
  "install_kind name = (if name = ''config'' then Some False else None)"

definition dispatch_install :: "(string \<Rightarrow> string + string) \<Rightarrow> (string \<Rightarrow> string option) \<Rightarrow> string \<Rightarrow> string list \<Rightarrow>
    ServiceManager \<Rightarrow> Dispatch" where
  "dispatch_install absolute load executablePath args mgr =
     (case parse_flags install_kind args of
        Inl err \<Rightarrow> refuse True (ParseInstall err)
      | Inr (flags, positional) \<Rightarrow>
          if positional \<noteq> [] then refuse True InstallPositional
          else
            (case absolute executablePath of
               Inl err \<Rightarrow> refuse False (ResolveExecutable err)
             | Inr absExecutable \<Rightarrow>
                 (case absolute (flag_value flags ''config'' ''configs/config.toml'') of
                    Inl err \<Rightarrow> refuse False (ResolveConfig err)
                  | Inr absConfig \<Rightarrow>
                      (case load absConfig of
                         Some err \<Rightarrow> refuse False (InvalidConfig err)
                       | None \<Rightarrow> perform mgr (MInstall absExecutable absConfig)))))"

definition requireNoArguments :: "string \<Rightarrow> string list \<Rightarrow> Dispatch \<Rightarrow> Dispatch" where
  "requireNoArguments command args go = (if args \<noteq> [] then refuse True (AcceptsNoArguments command) else go)"

definition dispatchCommand :: "(string \<Rightarrow> string + string) \<Rightarrow> (string \<Rightarrow> string option) \<Rightarrow> string list \<Rightarrow> string \<Rightarrow>
    ServiceManager \<Rightarrow> Dispatch" where
  "dispatchCommand absolute load args executablePath mgr =
     (case args of
        [] \<Rightarrow> \<lparr>dp_handled = False, dp_error = None, dp_calls = [], dp_usage = False, dp_output = None\<rparr>
      | command # rest \<Rightarrow>
          if command \<noteq> [] \<and> hd command = CHR ''-'' then
            \<lparr>dp_handled = False, dp_error = None, dp_calls = [], dp_usage = False, dp_output = None\<rparr>
          else if command = ''install'' then dispatch_install absolute load executablePath rest mgr
          else if command = ''uninstall'' then requireNoArguments command rest (perform mgr MUninstall)
          else if command = ''start'' then requireNoArguments command rest (perform mgr MStart)
          else if command = ''stop'' then requireNoArguments command rest (perform mgr MStop)
          else if command = ''restart'' then requireNoArguments command rest (perform mgr MRestart)
          else if command = ''status'' then requireNoArguments command rest (perform mgr MStatus)
          else refuse True (UnknownCommand command))"

section \<open>The flags of the service and the validation of a point file\<close>

definition run_kind :: "string \<Rightarrow> bool option" where
  "run_kind name =
     (if name = ''config'' \<or> name = ''csv'' then Some False else if name = ''validate'' then Some True else None)"

datatype run_plan =
    FlagError flag_error
  | CsvRequired
  | CsvOpenFailed string
  | CsvInvalid csv_error
  | CsvCloseFailed string
  | CsvRows "RowError list"
  | CsvValid nat
  | StartService string

text \<open>
  \<open>open_csv\<close> answers what reading the opened file gives, its bytes up to the end or to an error;
  \<open>close_err\<close> is the error of closing it.
\<close>

definition plan_run :: "(string \<Rightarrow> string + string option \<times> string) \<Rightarrow> string option \<Rightarrow> string list \<Rightarrow> run_plan" where
  "plan_run open_csv close_err args =
     (case parse_flags run_kind args of
        Inl err \<Rightarrow> FlagError err
      | Inr (flags, _) \<Rightarrow>
          let csvPath = flag_value flags ''csv'' [] in
          if flag_value flags ''validate'' ''false'' = ''true'' then
            if csvPath = [] then CsvRequired
            else
              (case open_csv csvPath of
                 Inl err \<Rightarrow> CsvOpenFailed err
               | Inr (fin, content) \<Rightarrow>
                   (case Parse (csv_items fin content) of
                      Inl err \<Rightarrow> CsvInvalid err
                    | Inr (points, rowErrors) \<Rightarrow>
                        (case close_err of
                           Some err \<Rightarrow> CsvCloseFailed err
                         | None \<Rightarrow> if rowErrors \<noteq> [] then CsvRows rowErrors else CsvValid (length points))))
          else StartService (flag_value flags ''config'' ''configs/config.toml''))"

datatype execution = Finished Dispatch | AsService "string list" | AsProcess "string list" | ModeError string

definition execute :: "(string \<Rightarrow> string + string) \<Rightarrow> (string \<Rightarrow> string option) \<Rightarrow> string + bool \<Rightarrow> string list \<Rightarrow> string \<Rightarrow>
    ServiceManager \<Rightarrow> execution" where
  "execute absolute load isService args executablePath mgr =
     (let d = dispatchCommand absolute load args executablePath mgr in
      if dp_handled d \<or> dp_error d \<noteq> None then Finished d
      else case isService of
             Inl err \<Rightarrow> ModeError err
           | Inr service \<Rightarrow> if service then AsService args else AsProcess args)"

section \<open>Properties\<close>

lemma refuse_simps [simp]:
  "dp_handled (refuse u e)" "dp_error (refuse u e) = Some e" "dp_calls (refuse u e) = []" "dp_usage (refuse u e) = u"
  by (simp_all add: refuse_def)

lemma perform_simps [simp]:
  "dp_handled (perform mgr c)" "dp_error (perform mgr c) = map_option (CallFailed c) (mg_call mgr c)"
  "dp_calls (perform mgr c) = [c]" "\<not> dp_usage (perform mgr c)"
  by (simp_all add: perform_def)

text \<open>A well-behaved answer of the dispatcher to a command.\<close>

definition disciplined :: "ServiceManager \<Rightarrow> Dispatch \<Rightarrow> bool" where
  "disciplined mgr d \<longleftrightarrow> dp_handled d \<and>
     (dp_calls d = [] \<and> dp_error d \<noteq> None \<or>
      (\<exists>c. dp_calls d = [c] \<and> \<not> dp_usage d \<and> dp_error d = map_option (CallFailed c) (mg_call mgr c)))"

lemma disciplined_simps [simp]:
  "disciplined mgr (refuse u e)" "disciplined mgr (perform mgr c)"
  "disciplined mgr go \<Longrightarrow> disciplined mgr (requireNoArguments command args go)"
  by (simp_all add: disciplined_def requireNoArguments_def)

lemma dispatch_install_disciplined: "disciplined mgr (dispatch_install absolute load exe args mgr)"
  by (auto simp: dispatch_install_def split: sum.split option.split)

lemma dispatch_install_calls:
  "c \<in> set (dp_calls (dispatch_install absolute load exe args mgr)) \<Longrightarrow>
     \<exists>e conf path. c = MInstall e conf \<and> absolute exe = Inr e \<and> absolute path = Inr conf \<and> load conf = None"
  by (auto simp: dispatch_install_def split: sum.splits option.splits if_splits)

lemma requireNoArguments_calls:
  "c \<in> set (dp_calls (requireNoArguments command args (perform mgr c'))) \<Longrightarrow> args = [] \<and> c = c'"
  by (auto simp: requireNoArguments_def split: if_splits)

text \<open>
  An argument that is not a flag is a command and nothing else is started: it is answered by
  exactly one call of the service manager, whose error is the error of the command, or it is
  refused without any call. The service is only ever installed with absolute paths and with a
  configuration that was loaded successfully; the other commands take no arguments.
\<close>

lemma dispatchCommand_disciplined:
  assumes "d = dispatchCommand absolute load args exe mgr"
  shows "(dp_handled d \<longleftrightarrow> args \<noteq> [] \<and> \<not> (hd args \<noteq> [] \<and> hd (hd args) = CHR ''-'')) \<and>
    (\<not> dp_handled d \<longrightarrow> dp_calls d = [] \<and> dp_error d = None) \<and>
    (dp_handled d \<longrightarrow> disciplined mgr d) \<and>
    (\<forall>c\<in>set (dp_calls d).
       (\<exists>e conf path. c = MInstall e conf \<and> hd args = ''install'' \<and> absolute exe = Inr e \<and> absolute path = Inr conf \<and>
          load conf = None) \<or>
       (c, args) \<in> {(MUninstall, [''uninstall'']), (MStart, [''start'']), (MStop, [''stop'']), (MRestart, [''restart'']),
         (MStatus, [''status''])})"
proof (cases args)
  case Nil
  then show ?thesis by (simp add: assms dispatchCommand_def)
next
  case (Cons command rest)
  show ?thesis
  proof (cases "command \<noteq> [] \<and> hd command = CHR ''-''")
    case True
    then show ?thesis by (simp add: assms dispatchCommand_def Cons)
  next
    case cmd: False
    have d: "d = (if command = ''install'' then dispatch_install absolute load exe rest mgr
          else if command = ''uninstall'' then requireNoArguments command rest (perform mgr MUninstall)
          else if command = ''start'' then requireNoArguments command rest (perform mgr MStart)
          else if command = ''stop'' then requireNoArguments command rest (perform mgr MStop)
          else if command = ''restart'' then requireNoArguments command rest (perform mgr MRestart)
          else if command = ''status'' then requireNoArguments command rest (perform mgr MStatus)
          else refuse True (UnknownCommand command))"
      unfolding assms dispatchCommand_def Cons list.case if_not_P [OF cmd] by (rule refl)
    have disc: "disciplined mgr d" unfolding d by (simp add: dispatch_install_disciplined)
    have calls: "(\<exists>e conf path. c = MInstall e conf \<and> command = ''install'' \<and> absolute exe = Inr e \<and>
        absolute path = Inr conf \<and> load conf = None) \<or>
       (c, command # rest) \<in> {(MUninstall, [''uninstall'']), (MStart, [''start'']), (MStop, [''stop'']),
         (MRestart, [''restart'']), (MStatus, [''status''])}" if "c \<in> set (dp_calls d)" for c
      using that unfolding d
      by (auto dest!: dispatch_install_calls requireNoArguments_calls split: if_splits)
    show ?thesis using disc calls cmd by (auto simp: Cons disciplined_def)
  qed
qed

text \<open>Validation mode accepts a file exactly when an import would, and never starts the service.\<close>

lemma plan_run_valid:
  "plan_run open_csv close_err args = CsvValid n \<Longrightarrow>
     \<exists>path fin content points. open_csv path = Inr (fin, content) \<and> Parse (csv_items fin content) = Inr (points, []) \<and> n = length points"
  by (auto simp: plan_run_def Let_def split: sum.splits if_splits option.splits) blast

section \<open>Witnesses\<close>

definition idle_manager :: ServiceManager where
  "idle_manager = \<lparr>mg_call = (\<lambda>_. None), mg_state = ''running''\<rparr>"

definition install_line :: Dispatch where
  "install_line = dispatchCommand Inr (\<lambda>_. None) [''install'', ''-config=/c''] ''/m'' idle_manager"

lemma install_line_calls: "dp_calls install_line = [MInstall ''/m'' ''/c'']"
  by (simp add: install_line_def dispatchCommand_def dispatch_install_def install_kind_def split_flag_def
      flag_value_def perform_def)

theorem dispatchCommand_disciplined_witness: "disciplined idle_manager install_line \<and> dp_calls install_line = [MInstall ''/m'' ''/c'']"
  using dispatchCommand_disciplined [OF install_line_def] by (simp add: install_line_calls)

end
