(* ===== verification/Boot.thy ===== *)
theory Boot
  imports HttpApi Coordinator
begin

text \<open>
  \<open>cmd/modbus-scan/main.go\<close>, \<open>runWithReady\<close>: how the parts are put together, started and stopped. The
  first half starts the publishing coordinator from the store and follows store and coordinator
  while requests and scans go on; the second is the order of starting and stopping with every error.
\<close>

section \<open>Store and coordinator together\<close>

text \<open>The coordinator with the stored capacity and, one after the other, the stored policies.\<close>

definition boot_coordinator :: "KafkaSettings \<Rightarrow> DeviceKafkaConfig list \<Rightarrow> Coordinator" where
  "boot_coordinator settings policies =
     foldl (\<lambda>c policy. ApplyDeviceConfig policy c) (NewCoordinator (k_QueueCapacity settings) True) policies"

definition load_coordinator :: "Env \<Rightarrow> Env \<Rightarrow> Db \<Rightarrow> store_error + Coordinator" where
  "load_coordinator env env' db =
     and_then (GetKafkaSettings env 0 db) (\<lambda>settings.
     and_then (ListDeviceKafkaConfigs env' 0 db) (\<lambda>policies. Inr (boot_coordinator settings policies)))"

text \<open>
  What happens to the two while the program runs. Every service call but the policy update leaves the
  coordinator alone; calls are taken one at a time, each with whatever failures of the database.
\<close>

inductive plain_call :: "Db \<Rightarrow> Db \<Rightarrow> bool" where
  Create: "device_Create env uni d db = (r, db') \<Longrightarrow> plain_call db db'"
| Update: "device_Update env uni i d db = (r, db') \<Longrightarrow> plain_call db db'"
| Lifecycle: "runtime_call env busy runErr enabled i db = (u, db') \<Longrightarrow> plain_call db db'"
| Delete: "device_Delete env env' env'' busy stopErr i db = (u, db') \<Longrightarrow> plain_call db db'"
| CreatePoint: "point_Create env env' i p db = (q, db') \<Longrightarrow> plain_call db db'"
| UpdatePoint: "point_Update env i k p db = (q, db') \<Longrightarrow> plain_call db db'"
| DeletePoint: "point_Delete env i k db = (u, db') \<Longrightarrow> plain_call db db'"
| DeleteBatch: "point_DeleteBatch env env' i ks db = (n, db') \<Longrightarrow> plain_call db db'"
| Import: "point_Import env env' i items db = (m, db') \<Longrightarrow> plain_call db db'"
| Settings: "kafka_UpdateSettings env env' uni fp versionOk baseDir apply_settings input clear db = (v, db', applied) \<Longrightarrow>
    plain_call db db'"

text \<open>
  A policy update is two steps, the saving in the store and the handing over of what was saved to the
  coordinator; other requests may come in between, so several saved policies can be outstanding
  (\<open>lv_pending\<close>, in the order they were saved) and be handed over in any order. \<open>lv_stray\<close> is a
  ghost: the devices whose last update went wrong, because it was saved but could not be read back,
  or because it was handed over before an older one. The next update that is saved ends it.
\<close>

record Live =
  lv_db :: Db
  lv_co :: Coordinator
  lv_pending :: "DeviceKafkaConfig list"
  lv_stray :: "int set"

definition live_start :: "Db \<Rightarrow> Coordinator \<Rightarrow> Live" where
  "live_start db co = \<lparr>lv_db = db, lv_co = co, lv_pending = [], lv_stray = {}\<rparr>"

definition save_policy :: "Env \<Rightarrow> int \<Rightarrow> DeviceKafkaConfig \<Rightarrow> Live \<Rightarrow> Live" where
  "save_policy env i cfg s =
     (case kafka_UpdateDeviceConfig env i cfg (lv_db s) of
        (_, db', Some saved) \<Rightarrow>
          s\<lparr>lv_db := db', lv_pending := lv_pending s @ [saved], lv_stray := lv_stray s - {i}\<rparr>
      | (_, db', None) \<Rightarrow>
          s\<lparr>lv_db := db', lv_stray := (if db' = lv_db s then lv_stray s else insert i (lv_stray s))\<rparr>)"

definition of_device :: "int \<Rightarrow> DeviceKafkaConfig list \<Rightarrow> DeviceKafkaConfig list" where
  "of_device i ps = filter (\<lambda>p. dk_DeviceID p = i) ps"

text \<open>Position \<open>k\<close> is handed over: the newest of its device before an older one is out of order.\<close>

definition hand_over :: "nat \<Rightarrow> Live \<Rightarrow> Live" where
  "hand_over k s =
     (let saved = lv_pending s ! k; i = dk_DeviceID saved;
          older = of_device i (take k (lv_pending s)); newer = of_device i (drop (Suc k) (lv_pending s))
      in s\<lparr>lv_co := ApplyDeviceConfig saved (lv_co s),
           lv_pending := take k (lv_pending s) @ drop (Suc k) (lv_pending s),
           lv_stray := (if older \<noteq> [] \<and> newer = [] then insert i (lv_stray s) else lv_stray s)\<rparr>)"

inductive sys_step :: "Live \<Rightarrow> Live \<Rightarrow> bool" where
  Call: "plain_call (lv_db s) db' \<Longrightarrow> sys_step s (s\<lparr>lv_db := db'\<rparr>)"
| Save: "sys_step s (save_policy env i cfg s)"
| HandOver: "k < length (lv_pending s) \<Longrightarrow> sys_step s (hand_over k s)"
| Publish: "(\<And>cfg. op \<noteq> OpApply cfg) \<Longrightarrow> sys_step s (s\<lparr>lv_co := co_step now op (lv_co s)\<rparr>)"

section \<open>Policies that calls leave alone\<close>

text \<open>Stored policies stay as they are, are dropped, or are new, of a new device, and disabled.\<close>

definition policies_kept :: "Db \<Rightarrow> Db \<Rightarrow> bool" where
  "policies_kept db db' \<longleftrightarrow> db_device_seq db \<le> db_device_seq db' \<and>
     (\<forall>c\<in>set (db_configs db'). c \<in> set (db_configs db) \<or> \<not> dk_Enabled c \<and> db_device_seq db < dk_DeviceID c)"

lemma policies_kept_refl [simp]: "policies_kept db db"
  by (simp add: policies_kept_def)

lemma policies_kept_same: "db_configs db' = db_configs db \<Longrightarrow> db_device_seq db' = db_device_seq db \<Longrightarrow> policies_kept db db'"
  by (simp add: policies_kept_def)

lemma policies_kept_trans: "policies_kept db db1 \<Longrightarrow> policies_kept db1 db2 \<Longrightarrow> policies_kept db db2"
  unfolding policies_kept_def by (elim conjE, intro conjI ballI, linarith, fastforce)

lemma new_device_policies:
  assumes "insert_device now d db = Inr (i, tx)" "insert_config now' i tx = Inr db'"
  shows "policies_kept db db'"
  using insert_device_Inr [OF assms(1)] insert_config_Inr [OF assms(2)]
  by (auto simp: policies_kept_def default_config_def)

lemma edited_policies: "update_devices f i db = Inr (n, db') \<Longrightarrow> policies_kept db db'"
  by (erule update_devices_Inr) (simp add: policies_kept_same)

lemma points_policies:
  assumes "point_change i db tx" "update_devices (bump env) i tx = Inr (n, db')"
  shows "policies_kept db db'"
  using assms(1) edited_policies [OF assms(2)] by (simp add: point_change_def policies_kept_def)

lemma delete_policies: "policies_kept db (snd (delete_devices i db))"
  by (simp add: delete_devices_def policies_kept_def)

lemma CreateDevice_policies: "CreateDevice env d db = (r, db') \<Longrightarrow> policies_kept db db'"
  by (auto simp: CreateDevice_def call_simps intro: new_device_policies split: prod.splits)

lemma UpdateDevice_policies: "UpdateDevice env d db = (r, db') \<Longrightarrow> policies_kept db db'"
  by (auto simp: UpdateDevice_def call_simps intro: edited_policies)

lemma SetDeviceEnabled_policies: "SetDeviceEnabled env i b db = (r, db') \<Longrightarrow> policies_kept db db'"
  by (auto simp: SetDeviceEnabled_def call_simps intro: edited_policies)

lemma DeleteDevice_policies:
  assumes "DeleteDevice env i db = (r, db')"
  shows "policies_kept db db'"
proof -
  have "db' = db \<or> db' = snd (delete_devices i db)" using assms by (auto simp: DeleteDevice_def call_simps)
  then show ?thesis by (auto intro: delete_policies)
qed

lemma CreatePoint_policies: "CreatePoint env p db = (r, db') \<Longrightarrow> policies_kept db db'"
  by (fastforce simp: CreatePoint_def call_simps bumpVersion_Inr
      intro: points_policies [OF insert_point_change] split: prod.splits)

lemma UpdatePoint_policies: "UpdatePoint env p db = (r, db') \<Longrightarrow> policies_kept db db'"
  by (fastforce simp: UpdatePoint_def call_simps bumpVersion_Inr
      intro: points_policies [OF update_points_change] split: prod.splits)

lemma deleted_points_policies:
  assumes "delete_points sel db = (m, tx)" "update_devices (bump env) i tx = Inr (n, db')"
  shows "policies_kept db db'"
  using assms(1) edited_policies [OF assms(2)] by (auto simp: policies_kept_def delete_points_def)

lemma DeletePoint_policies: "DeletePoint env i k db = (r, db') \<Longrightarrow> policies_kept db db'"
  by (auto simp: DeletePoint_def call_simps bumpVersion_Inr intro: deleted_points_policies split: prod.splits)

lemma DeletePoints_policies: "DeletePoints env i ks db = (r, db') \<Longrightarrow> policies_kept db db'"
  by (auto simp: DeletePoints_def Let_def call_simps bumpVersion_Inr intro: deleted_points_policies
      split: prod.splits if_splits)

lemma ReplacePoints_policies:
  assumes "ReplacePoints env i ps db = (r, db')"
  shows "policies_kept db db'"
proof -
  have "db' = db \<or> (\<exists>tx n. insert_points env 5 i ps (snd (delete_points (\<lambda>p. p_DeviceID p = i) db)) = Inr tx \<and>
      update_devices (bump env) i tx = Inr (n, db'))"
    using assms by (auto simp: ReplacePoints_def call_simps bumpVersion_Inr split: prod.splits)
  then show ?thesis
    using points_policies [OF insert_points_change] policies_kept_refl
    by (fastforce simp: policies_kept_def delete_points_def)
qed

lemma UpdateKafkaSettings_policies: "UpdateKafkaSettings env cfg db = (r, db') \<Longrightarrow> policies_kept db db'"
  by (auto simp: UpdateKafkaSettings_def call_simps intro: policies_kept_same)

section \<open>The invariant\<close>

text \<open>A stored policy is the newest outstanding one, or with none outstanding the one published by.\<close>

definition policy_live :: "Live \<Rightarrow> DeviceKafkaConfig \<Rightarrow> bool" where
  "policy_live s cfg \<longleftrightarrow>
     (let ps = of_device (dk_DeviceID cfg) (lv_pending s) in
      if ps = [] then co_configs (lv_co s) (dk_DeviceID cfg) = Some cfg \<or>
          co_configs (lv_co s) (dk_DeviceID cfg) = None \<and> \<not> dk_Enabled cfg
      else last ps = cfg)"

lemma policy_live_frame [simp]:
  "policy_live (lv_db_update f s) = policy_live s" "policy_live (lv_stray_update g s) = policy_live s"
  "co_configs co = co_configs (lv_co s) \<Longrightarrow> policy_live (lv_co_update (\<lambda>_. co) s) = policy_live s"
  by (simp_all add: policy_live_def fun_eq_iff)

definition live_ok :: "Live \<Rightarrow> bool" where
  "live_ok s \<longleftrightarrow> store_inv (lv_db s) \<and>
     (\<forall>i. co_configs (lv_co s) i \<noteq> None \<longrightarrow> i \<le> db_device_seq (lv_db s)) \<and>
     (\<forall>p\<in>set (lv_pending s). dk_DeviceID p \<le> db_device_seq (lv_db s)) \<and>
     (\<forall>cfg\<in>set (db_configs (lv_db s)). dk_DeviceID cfg \<in> lv_stray s \<or> policy_live s cfg)"

lemma of_device_simps [simp]:
  "of_device i [] = []" "of_device i (ps @ qs) = of_device i ps @ of_device i qs"
  "of_device i (p # ps) = (if dk_DeviceID p = i then p # of_device i ps else of_device i ps)"
  by (simp_all add: of_device_def)

lemma of_device_none: "\<forall>p\<in>set ps. dk_DeviceID p \<noteq> i \<Longrightarrow> of_device i ps = []"
  by (induction ps) auto

lemma kept_live:
  assumes "policies_kept (lv_db s) db'" "store_inv db'" "live_ok s"
  shows "live_ok (s\<lparr>lv_db := db'\<rparr>)"
proof -
  have "policy_live s cfg" if "\<not> dk_Enabled cfg" "db_device_seq (lv_db s) < dk_DeviceID cfg" for cfg
  proof -
    have "co_configs (lv_co s) (dk_DeviceID cfg) = None" using assms(3) that(2) by (meson live_ok_def not_le)
    moreover have "of_device (dk_DeviceID cfg) (lv_pending s) = []"
      using assms(3) that(2) by (intro of_device_none) (auto simp: live_ok_def)
    ultimately show ?thesis using that(1) by (simp add: policy_live_def)
  qed
  with assms show ?thesis
    unfolding live_ok_def policies_kept_def by simp (meson order_trans)
qed

lemma Apply_configs [simp]: "co_configs (ApplyDeviceConfig cfg c) = (co_configs c)(dk_DeviceID cfg \<mapsto> cfg)"
  by (simp add: ApplyDeviceConfig_def Let_def)

lemma enqueue_configs [simp]: "co_configs (enqueue now cfg snap ty pts c) = co_configs c"
  by (simp add: enqueue_def report_drop_def Let_def)

lemma co_step_configs:
  assumes "\<And>cfg. op \<noteq> OpApply cfg"
  shows "co_configs (co_step now op c) = co_configs c"
proof (cases op)
  case (OpSubmit snap)
  then show ?thesis
    by (auto simp: Submit_def submitChanges_def submitFull_def Let_def split_beta split: option.splits)
qed (use assms in \<open>auto simp: ResetDevice_def co_Next_def StopAccepting_def co_SetEnabled_def Let_def split: option.splits\<close>)

lemma config_row_unique:
  assumes "store_inv db" "cfg \<in> set (db_configs db)"
  shows "config_row (dk_DeviceID cfg) db = Some cfg"
proof -
  have "distinct (map dk_DeviceID cs) \<Longrightarrow> cfg \<in> set cs \<Longrightarrow> find (\<lambda>c. dk_DeviceID c = dk_DeviceID cfg) cs = Some cfg" for cs
    by (induction cs) (auto simp: image_iff)
  with assms show ?thesis by (simp add: config_row_def store_inv_def tables_inv_def configs_wf_def)
qed

lemma saved_policy:
  assumes "kafka_UpdateDeviceConfig env i cfg db = (c, db', applied)"
  shows "db_device_seq db' = db_device_seq db"
    and "\<forall>x\<in>set (db_configs db'). dk_DeviceID x \<noteq> i \<longrightarrow> x \<in> set (db_configs db)"
    and "applied = Some saved \<Longrightarrow> config_row i db' = Some saved \<and> dk_DeviceID saved = i"
proof -
  have "db' = db \<or> (\<exists>n. update_configs (en_now env) (cfg\<lparr>dk_DeviceID := i\<rparr>) db = Inr (n, db'))"
    using assms by (auto simp: kafka_UpdateDeviceConfig_def UpdateDeviceKafkaConfig_def call_simps
        split: option.splits sum.splits prod.splits)
  then show "db_device_seq db' = db_device_seq db"
    and "\<forall>x\<in>set (db_configs db'). dk_DeviceID x \<noteq> i \<longrightarrow> x \<in> set (db_configs db)"
    by (auto simp: update_configs_def Let_def split: if_splits)
  assume "applied = Some saved"
  then have "UpdateDeviceKafkaConfig env (cfg\<lparr>dk_DeviceID := i\<rparr>) db = (Inr saved, db')"
    using assms by (auto simp: kafka_UpdateDeviceConfig_def split: option.splits sum.splits prod.splits)
  then have "config_row i db' = Some saved"
    by (auto simp: UpdateDeviceKafkaConfig_def call_simps GetDeviceKafkaConfig_def row_or_def
        dest!: sym [of "Inr saved"] split: option.splits)
  then show "config_row i db' = Some saved \<and> dk_DeviceID saved = i" by (auto simp: config_row_def find_Some_iff)
qed

lemma save_live:
  assumes "store_inv (lv_db (save_policy env i cfg s))" "live_ok s"
  shows "live_ok (save_policy env i cfg s)"
proof -
  obtain c db' applied where u: "kafka_UpdateDeviceConfig env i cfg (lv_db s) = (c, db', applied)" by (metis prod_cases3)
  note kept = saved_policy(1,2) [OF u]
  show ?thesis
  proof (cases applied)
    case None
    with u kept assms show ?thesis by (auto simp: save_policy_def live_ok_def)
  next
    case (Some saved)
    have row: "config_row i db' = Some saved" "dk_DeviceID saved = i" using saved_policy(3) [OF u Some] by simp_all
    have inv: "store_inv db'" using assms(1) u Some by (simp add: save_policy_def)
    have "saved \<in> set (db_configs db')" using row(1) by (auto simp: config_row_def find_Some_iff)
    with inv have "i \<le> db_device_seq db'"
      using row(2) by (force simp: store_inv_def tables_inv_def configs_wf_def devices_wf_def)
    moreover have "x = saved" if "x \<in> set (db_configs db')" "dk_DeviceID x = i" for x
      using config_row_unique [OF inv that(1)] that(2) row(1) by simp
    moreover have "save_policy env i cfg s =
        s\<lparr>lv_db := db', lv_pending := lv_pending s @ [saved], lv_stray := lv_stray s - {i}\<rparr>"
      by (simp add: save_policy_def u Some)
    moreover have "policy_live (s\<lparr>lv_db := db', lv_pending := lv_pending s @ [saved], lv_stray := lv_stray s - {i}\<rparr>) x \<longleftrightarrow>
        (if dk_DeviceID x = i then x = saved else policy_live s x)" for x
      using row(2) by (auto simp: policy_live_def)
    ultimately show ?thesis using assms(2) inv kept row(2) by (auto simp: live_ok_def)
  qed
qed

lemma hand_over_live:
  assumes "k < length (lv_pending s)" "live_ok s"
  shows "live_ok (hand_over k s)"
proof -
  define saved i where "saved = lv_pending s ! k" and "i = dk_DeviceID saved"
  let ?t = "take k (lv_pending s)" and ?d = "drop (Suc k) (lv_pending s)"
  have split: "lv_pending s = ?t @ saved # ?d" using assms(1) by (simp add: saved_def id_take_nth_drop)
  have dev: "of_device j (lv_pending s) = of_device j ?t @ (if i = j then [saved] else []) @ of_device j ?d" for j
    by (subst split) (simp add: i_def)
  have "dk_DeviceID x \<in> lv_stray (hand_over k s) \<or> policy_live (hand_over k s) x"
    if "x \<in> set (db_configs (lv_db s))" for x
  proof -
    from that assms(2) have "dk_DeviceID x \<in> lv_stray s \<or> policy_live s x" by (simp add: live_ok_def)
    then show ?thesis
      by (cases "of_device i ?d = []"; cases "of_device i ?t = []"; cases "dk_DeviceID x = i")
        (auto simp: hand_over_def Let_def policy_live_def dev saved_def [symmetric] i_def [symmetric] split: if_splits)
  qed
  moreover have "set (lv_pending (hand_over k s)) \<subseteq> set (lv_pending s)"
    by (auto simp: hand_over_def Let_def dest: in_set_takeD in_set_dropD)
  moreover have "saved \<in> set (lv_pending s)" using assms(1) by (simp add: saved_def)
  ultimately show ?thesis using assms(2)
    by (auto simp: live_ok_def hand_over_def Let_def saved_def [symmetric])
qed

lemmas service_defs = device_Create_def device_Update_def point_Create_def point_Update_def point_Delete_def
  point_DeleteBatch_def point_Import_def kafka_UpdateSettings_def stored_eq

lemmas call_policies = CreateDevice_policies UpdateDevice_policies CreatePoint_policies UpdatePoint_policies
  DeletePoint_policies DeletePoints_policies ReplacePoints_policies UpdateKafkaSettings_policies DeleteDevice_policies

lemmas snd_policies = call_policies [OF prod.collapse [symmetric]]

lemma service_policies:
  "device_Create env uni d db = (r, db') \<Longrightarrow> policies_kept db db'"
  "device_Update env uni i d db = (r, db') \<Longrightarrow> policies_kept db db'"
  "point_Create env env' i p db = (q, db') \<Longrightarrow> policies_kept db db'"
  "point_Update env i k p db = (q, db') \<Longrightarrow> policies_kept db db'"
  "point_Delete env i k db = (u, db') \<Longrightarrow> policies_kept db db'"
  "point_DeleteBatch env env' i ks db = (n, db') \<Longrightarrow> policies_kept db db'"
  "point_Import env env' i items db = (m, db') \<Longrightarrow> policies_kept db db'"
  "kafka_UpdateSettings env env' uni fp versionOk baseDir apply_settings input clear db = (v, db', applied) \<Longrightarrow>
    policies_kept db db'"
  by (auto simp: service_defs intro: call_policies snd_policies split: sum.splits option.splits if_splits prod.splits)

lemma lifecycle_policies: "runtime_call env busy runErr enabled i db = (u, db') \<Longrightarrow> policies_kept db db'"
  by (auto simp: runtime_call_def intro: SetDeviceEnabled_policies split: if_splits prod.splits sum.splits)

lemma delete_call_policies: "device_Delete env env' env'' busy stopErr i db = (u, db') \<Longrightarrow> policies_kept db db'"
  by (auto simp: device_Delete_def stored_eq split: sum.splits prod.splits
      intro: lifecycle_policies snd_policies policies_kept_trans [OF lifecycle_policies snd_policies(9)])

inductive_cases plain_callE: "plain_call db db'"

lemma plain_call_svc: "plain_call db db' \<Longrightarrow> svc_step\<^sup>*\<^sup>* db db'"
  by (elim plain_callE) (auto intro: svc_step.intros runtime_call_steps device_Delete_steps)

lemma plain_call_policies: "plain_call db db' \<Longrightarrow> policies_kept db db'"
  by (elim plain_callE) (auto intro: service_policies lifecycle_policies delete_call_policies)

lemma save_policy_svc: "svc_step (lv_db s) (lv_db (save_policy env i cfg s))"
proof (cases "kafka_UpdateDeviceConfig env i cfg (lv_db s)")
  case (fields c db' applied)
  then show ?thesis by (cases applied) (auto simp: save_policy_def intro: svc_step.Policy)
qed

lemma sys_step_live:
  assumes "sys_step s s'" "live_ok s"
  shows "live_ok s'"
  using assms(1)
proof cases
  case (Call db')
  then have "store_inv db'"
    using assms(2) plain_call_svc by (auto simp: live_ok_def intro: steps_inv svc_steps_db)
  with Call assms(2) show ?thesis by (simp add: kept_live plain_call_policies)
next
  case (Save env i cfg)
  have "store_inv (lv_db (save_policy env i cfg s))"
    using assms(2) save_policy_svc [of s env i cfg]
    by (auto simp: live_ok_def intro: steps_inv svc_steps_db)
  with Save assms(2) show ?thesis by (simp add: save_live)
next
  case (HandOver k)
  with assms(2) show ?thesis by (simp add: hand_over_live)
next
  case (Publish op now)
  with assms(2) show ?thesis by (simp add: live_ok_def co_step_configs)
qed

lemma boot_configs:
  "co_configs (foldl (\<lambda>c p. ApplyDeviceConfig p c) c ps) = co_configs c ++ map_of (rev (map (\<lambda>p. (dk_DeviceID p, p)) ps))"
  by (induction ps arbitrary: c) auto

lemma boot_live:
  assumes "store_inv db" "load_coordinator env env' db = Inr co"
  shows "live_ok (live_start db co)"
proof -
  obtain settings where co: "co = boot_coordinator settings (sort_key dk_DeviceID (db_configs db))"
    using assms(2) by (auto simp: load_coordinator_def ListDeviceKafkaConfigs_def and_then_Inr with_err_Inr exec_Inr)
  define ps where "ps = sort_key dk_DeviceID (db_configs db)"
  have "mset (map dk_DeviceID ps) = mset (map dk_DeviceID (db_configs db))" by (simp add: ps_def)
  then have d: "distinct (map dk_DeviceID ps)"
    using assms(1) by (metis configs_wf_def mset_eq_imp_distinct_iff store_inv_def tables_inv_def)
  have m: "co_configs co = map_of (rev (map (\<lambda>p. (dk_DeviceID p, p)) ps))"
    by (simp add: co boot_coordinator_def boot_configs NewCoordinator_def ps_def)
  have keys: "map fst (rev (map (\<lambda>p. (dk_DeviceID p, p)) ps)) = rev (map dk_DeviceID ps)" by (induction ps) auto
  have "co_configs co (dk_DeviceID p) = Some p" if "p \<in> set ps" for p
    unfolding m by (rule map_of_is_SomeI) (unfold keys, use d that in \<open>simp_all del: rev_map\<close>)
  moreover have "i \<le> db_device_seq db" if "co_configs co i \<noteq> None" for i
  proof -
    have "i \<in> dk_DeviceID ` set (db_configs db)"
      using that unfolding m map_of_eq_None_iff by (auto simp: ps_def)
    then have "i \<in> d_ID ` set (db_devices db)" using assms(1) by (simp add: store_inv_def)
    then show ?thesis using assms(1) by (auto simp: store_inv_def tables_inv_def devices_wf_def)
  qed
  ultimately show ?thesis using assms(1) by (simp add: live_ok_def policy_live_def live_start_def ps_def)
qed

interpretation sys_history: kept_by_steps sys_step live_ok
  by unfold_locales (rule sys_step_live)

text \<open>
  C9: whatever requests are served, whatever fails and whatever the scans and the Kafka manager do, take
  a device whose last saved policy could be read back and was not handed over before an older one.
  While saved policies of it are outstanding, the newest of them is the one the store shows;
  with none outstanding its scans are published by the policy the store shows. Only the policy of a
  device created since the start, which is stored as disabled, may be missing, and then its scans
  are not published either.
\<close>

theorem live_policies_match_store:
  assumes "store_inv db0" "load_coordinator env env' db0 = Inr co0" "sys_step\<^sup>*\<^sup>* (live_start db0 co0) s"
    and "config_row i (lv_db s) = Some cfg" "i \<notin> lv_stray s"
  shows "case of_device i (lv_pending s) of
      [] \<Rightarrow> (co_configs (lv_co s) i = Some cfg \<or> co_configs (lv_co s) i = None \<and> \<not> dk_Enabled cfg) \<and>
        (dk_Enabled cfg \<or> ss_DeviceID snap \<noteq> i \<or> Submit now snap (lv_co s) = lv_co s)
    | ps \<Rightarrow> last ps = cfg"
proof -
  have live: "live_ok s" using sys_history.all_kept [OF assms(3)] boot_live [OF assms(1,2)] by simp
  have "cfg \<in> set (db_configs (lv_db s))" "dk_DeviceID cfg = i"
    using assms(4) by (auto simp: config_row_def find_Some_iff)
  with live assms(5) have "policy_live s cfg" "dk_DeviceID cfg = i" by (auto simp: live_ok_def)
  then show ?thesis by (cases "dk_Enabled cfg") (auto simp: policy_live_def Submit_def split: list.split)
qed

section \<open>Starting and stopping\<close>

text \<open>
  \<open>runWithReady\<close> from the loading of the configuration on, as the calls it makes, in order; the
  loading of the coordinator stands above. \<open>fails\<close> says which call fails, \<open>startErrs\<close> are the
  errors of the devices that did not start, \<open>serveErr\<close> is what ended the serving, or nothing when
  the context was cancelled. The answer is the list that \<open>errors.Join\<close> gets.
\<close>

datatype boot_call =
    LoadConfig | OpenLog | OpenStore | ReadSettings | ReadPolicies | ConfigPath | Listen | ServeHttp
  | StartKafka | StartDevices | LogStartError string | Ready | StopDevices | StopKafka | ShutdownHttp
  | CloseStore | LogError | CloseLog

type_synonym boot_result = "string list \<times> boot_call list"

definition attempt :: "(boot_call \<Rightarrow> string option) \<Rightarrow> boot_call \<Rightarrow> string \<Rightarrow> boot_result \<Rightarrow> boot_result" where
  "attempt fails c what rest =
     (case fails c of
        Some err \<Rightarrow> ([what @ err], [c])
      | None \<Rightarrow> (fst rest, c # snd rest))"

text \<open>A deferred call, and the deferred report of the error that the function returns.\<close>

definition deferring :: "boot_call list \<Rightarrow> boot_result \<Rightarrow> boot_result" where
  "deferring cs body = (fst body, snd body @ cs)"

definition reporting :: "boot_result \<Rightarrow> boot_result" where
  "reporting body = deferring (if fst body = [] then [] else [LogError]) body"

definition wrap_err :: "string \<Rightarrow> string option \<Rightarrow> string list" where
  "wrap_err what err = (case err of None \<Rightarrow> [] | Some e \<Rightarrow> [what @ e])"

definition shut_down :: "(boot_call \<Rightarrow> string option) \<Rightarrow> string option \<Rightarrow> boot_result" where
  "shut_down fails serveErr =
     (wrap_err ''serve HTTP: '' serveErr @ wrap_err ''shutdown HTTP: '' (fails ShutdownHttp) @
      wrap_err ''stop devices: '' (fails StopDevices) @ wrap_err ''stop Kafka: '' (fails StopKafka),
      [StopDevices, StopKafka, ShutdownHttp])"

definition serve_until :: "(boot_call \<Rightarrow> string option) \<Rightarrow> string list \<Rightarrow> string option \<Rightarrow> boot_result" where
  "serve_until fails startErrs serveErr =
     (let shut = shut_down fails serveErr;
          started = attempt fails StartKafka ''start Kafka: ''
            (fst shut, StartDevices # map LogStartError startErrs @ Ready # snd shut)
      in (fst started, ServeHttp # snd started))"

definition with_store :: "(boot_call \<Rightarrow> string option) \<Rightarrow> string list \<Rightarrow> string option \<Rightarrow> boot_result" where
  "with_store fails startErrs serveErr =
     attempt fails ReadSettings [] (attempt fails ReadPolicies [] (
     attempt fails ConfigPath ''resolve config path: '' (attempt fails Listen ''listen HTTP: ''
       (serve_until fails startErrs serveErr))))"

definition run_service :: "(boot_call \<Rightarrow> string option) \<Rightarrow> string list \<Rightarrow> string option \<Rightarrow> boot_result" where
  "run_service fails startErrs serveErr =
     attempt fails LoadConfig [] (
     attempt fails OpenLog [] (deferring [CloseLog] (reporting (
     attempt fails OpenStore [] (deferring [CloseStore] (with_store fails startErrs serveErr))))))"

text \<open>
  What is opened is closed on every path, the log last and after it has told the error; what runs
  after \<open>Ready\<close> is stopped once, in the order devices, Kafka, HTTP, whatever fails; a device that does
  not start does not fail the service.
\<close>

lemma attempt_simps [simp]:
  "snd (attempt fails c what rest) = c # (if fails c = None then snd rest else [])"
  "fst (attempt fails c what rest) = (case fails c of Some e \<Rightarrow> [what @ e] | None \<Rightarrow> fst rest)"
  "fst (deferring cs rest) = fst rest" "snd (deferring cs rest) = snd rest @ cs"
  "fst (reporting rest) = fst rest" "snd (reporting rest) = snd rest @ (if fst rest = [] then [] else [LogError])"
  by (simp_all add: attempt_def deferring_def reporting_def split: option.split)

lemmas boot_defs = run_service_def with_store_def serve_until_def Let_def

lemma with_store_calls:
  "CloseLog \<notin> set (snd (with_store fails startErrs serveErr))"
  "CloseStore \<notin> set (snd (with_store fails startErrs serveErr))"
  "LogError \<notin> set (snd (with_store fails startErrs serveErr))"
  "filter (\<lambda>c. c \<in> {Ready, StopDevices, StopKafka, ShutdownHttp}) (snd (with_store fails startErrs serveErr)) \<in>
    {[], [Ready, StopDevices, StopKafka, ShutdownHttp]}"
  "Ready \<in> set (snd (with_store fails startErrs serveErr)) \<Longrightarrow>
    fst (with_store fails startErrs serveErr) = fst (shut_down fails serveErr)"
proof -
  have "filter (\<lambda>c. c \<in> {Ready, StopDevices, StopKafka, ShutdownHttp}) (map LogStartError errs) = []" for errs
    by (induction errs) auto
  then show "filter (\<lambda>c. c \<in> {Ready, StopDevices, StopKafka, ShutdownHttp}) (snd (with_store fails startErrs serveErr)) \<in>
    {[], [Ready, StopDevices, StopKafka, ShutdownHttp]}"
    by (simp add: boot_defs shut_down_def)
qed (auto simp: boot_defs shut_down_def split: if_splits)

lemma run_service_closes:
  assumes "run_service fails startErrs serveErr = (es, cs)"
  shows "count_list cs CloseLog = (if fails LoadConfig = None \<and> fails OpenLog = None then 1 else 0)"
    and "count_list cs CloseStore =
      (if fails LoadConfig = None \<and> fails OpenLog = None \<and> fails OpenStore = None then 1 else 0)"
    and "CloseLog \<in> set cs \<Longrightarrow> last cs = CloseLog \<and> (LogError \<in> set cs \<longleftrightarrow> es \<noteq> [])"
    and "filter (\<lambda>c. c \<in> {Ready, StopDevices, StopKafka, ShutdownHttp}) cs \<in>
      {[], [Ready, StopDevices, StopKafka, ShutdownHttp]}"
    and "Ready \<in> set cs \<Longrightarrow> es = fst (shut_down fails serveErr)"
proof -
  have r: "es = fst (run_service fails startErrs serveErr)" "cs = snd (run_service fails startErrs serveErr)"
    by (simp_all add: assms)
  note with_store_calls [of fails startErrs serveErr]
  then show "count_list cs CloseLog = (if fails LoadConfig = None \<and> fails OpenLog = None then 1 else 0)"
    "count_list cs CloseStore =
      (if fails LoadConfig = None \<and> fails OpenLog = None \<and> fails OpenStore = None then 1 else 0)"
    "CloseLog \<in> set cs \<Longrightarrow> last cs = CloseLog \<and> (LogError \<in> set cs \<longleftrightarrow> es \<noteq> [])"
    "filter (\<lambda>c. c \<in> {Ready, StopDevices, StopKafka, ShutdownHttp}) cs \<in>
      {[], [Ready, StopDevices, StopKafka, ShutdownHttp]}"
    "Ready \<in> set cs \<Longrightarrow> es = fst (shut_down fails serveErr)"
    by (auto simp: r run_service_def count_list_0_iff split: if_splits option.splits)
qed

text \<open>The devices are stopped while requests are still served, and one of them may start a device.\<close>

lemma stops_devices_before_http:
  "\<exists>before between after. snd (run_service (\<lambda>_. None) [] None) =
     before @ StopDevices # between @ ShutdownHttp # after \<and> ServeHttp \<in> set before"
  by (rule exI [of _ "[LoadConfig, OpenLog, OpenStore, ReadSettings, ReadPolicies, ConfigPath, Listen, ServeHttp,
      StartKafka, StartDevices, Ready]"], rule exI [of _ "[StopKafka]"], rule exI [of _ "[CloseStore, CloseLog]"])
    (simp add: boot_defs shut_down_def wrap_err_def)

section \<open>Witnesses\<close>

definition line_policy :: DeviceKafkaConfig where
  "line_policy = (default_config 0 1)\<lparr>dk_Enabled := True, dk_Topic := ''plc''\<rparr>"

lemma boot_plc: "\<exists>co0. load_coordinator quiet quiet plc_db = Inr co0"
proof -
  have "calm quiet" "en_unmarshal quiet s = Inr []" for s by (simp_all add: calm_def quiet_def)
  then show ?thesis by (simp add: load_coordinator_def GetKafkaSettings_def ListDeviceKafkaConfigs_def)
qed

text \<open>The policy as it is stored for the one device of \<open>plc_db\<close>.\<close>

definition line_topic :: "string \<Rightarrow> DeviceKafkaConfig" where
  "line_topic topic = line_policy\<lparr>dk_Topic := topic\<rparr>"

definition saved_line :: "string \<Rightarrow> DeviceKafkaConfig" where
  "saved_line topic = (line_topic topic)\<lparr>dk_CreatedAt := 9, dk_UpdatedAt := 9\<rparr>"

lemma line_valid:
  "ValidateDeviceConfig ((line_topic ''plc'')\<lparr>dk_DeviceID := 1\<rparr>) = None"
  "ValidateDeviceConfig ((line_topic ''line'')\<lparr>dk_DeviceID := 1\<rparr>) = None"
  by code_simp+

lemma line_calls:
  assumes "ValidateDeviceConfig ((line_topic t)\<lparr>dk_DeviceID := 1\<rparr>) = None"
    and "db_configs db = [c]" "dk_DeviceID c = 1" "dk_CreatedAt c = 9"
  shows "kafka_UpdateDeviceConfig quiet 1 (line_topic t) db =
      (Inr (saved_line t), db\<lparr>db_configs := [saved_line t]\<rparr>, Some (saved_line t))"
    and "kafka_UpdateDeviceConfig (quiet\<lparr>en_fault := [2 \<mapsto> ''disk I/O error'']\<rparr>) 1 (line_topic t) db =
      (Inl (FromStore (mapError (quiet\<lparr>en_fault := [2 \<mapsto> ''disk I/O error'']\<rparr>) ''get device Kafka config''
         (SqlText ''disk I/O error''))), db\<lparr>db_configs := [saved_line t]\<rparr>, None)"
  using assms
  by (simp_all add: kafka_UpdateDeviceConfig_def UpdateDeviceKafkaConfig_def transaction_def exec_def quiet_def
      update_configs_def requireAffected_def GetDeviceKafkaConfig_def row_or_def config_row_def saved_line_def
      line_topic_def line_policy_def default_config_def)

lemmas line_saves = line_calls [OF line_valid(1)] line_calls [OF line_valid(2)]

lemma plc_configs: "db_configs plc_db = [default_config 9 1]" "dk_DeviceID (default_config 9 1) = 1"
  "dk_CreatedAt (default_config 9 1) = 9" "dk_DeviceID (saved_line t) = 1" "dk_CreatedAt (saved_line t) = 9"
  "saved_line ''plc'' \<noteq> saved_line ''line''"
  by (simp_all add: plc_db_eq default_config_def saved_line_def line_topic_def line_policy_def)

lemma saved_line_live:
  "save_policy quiet 1 (line_topic ''plc'') (live_start plc_db co) =
     (live_start (plc_db\<lparr>db_configs := [saved_line ''plc'']\<rparr>) co)\<lparr>lv_pending := [saved_line ''plc'']\<rparr>"
  by (simp add: save_policy_def live_start_def line_saves plc_configs)

text \<open>
  The two ways in which the publisher is left with a policy the store no longer shows: two updates of
  a device handed over in the other order, and an update that is saved but cannot be read back.
\<close>

lemma overtaken_update_stays:
  "\<exists>co0 s. load_coordinator quiet quiet plc_db = Inr co0 \<and> sys_step\<^sup>*\<^sup>* (live_start plc_db co0) s \<and>
     lv_pending s = [] \<and> config_row 1 (lv_db s) = Some (saved_line ''line'') \<and>
     co_configs (lv_co s) 1 = Some (saved_line ''plc'')"
proof -
  obtain co0 where boot: "load_coordinator quiet quiet plc_db = Inr co0" using boot_plc by blast
  define s1 s2 where "s1 = save_policy quiet 1 (line_topic ''plc'') (live_start plc_db co0)"
    and "s2 = save_policy quiet 1 (line_topic ''line'') s1"
  have s2: "s2 = (live_start (plc_db\<lparr>db_configs := [saved_line ''line'']\<rparr>) co0)\<lparr>lv_pending := map saved_line [''plc'', ''line'']\<rparr>"
    by (simp add: s2_def s1_def saved_line_live save_policy_def line_saves plc_configs live_start_def)
  have "sys_step\<^sup>*\<^sup>* (live_start plc_db co0) s2"
    unfolding s2_def s1_def by (meson sys_step.Save converse_rtranclp_into_rtranclp rtranclp.rtrancl_refl)
  moreover have "sys_step s2 (hand_over 1 s2)" "sys_step (hand_over 1 s2) (hand_over 0 (hand_over 1 s2))"
    by (rule sys_step.HandOver, simp add: s2 hand_over_def Let_def)+
  ultimately have "sys_step\<^sup>*\<^sup>* (live_start plc_db co0) (hand_over 0 (hand_over 1 s2))"
    by (meson rtranclp.rtrancl_into_rtrancl)
  moreover have "lv_pending (hand_over 0 (hand_over 1 s2)) = [] \<and>
      config_row 1 (lv_db (hand_over 0 (hand_over 1 s2))) = Some (saved_line ''line'') \<and>
      co_configs (lv_co (hand_over 0 (hand_over 1 s2))) 1 = Some (saved_line ''plc'')"
    by (simp add: s2 hand_over_def Let_def live_start_def config_row_def plc_configs)
  ultimately show ?thesis using boot by blast
qed

lemma unread_update_missed:
  "\<exists>co0 s. load_coordinator quiet quiet plc_db = Inr co0 \<and> sys_step\<^sup>*\<^sup>* (live_start plc_db co0) s \<and>
     lv_pending s = [] \<and> config_row 1 (lv_db s) = Some (saved_line ''line'') \<and> dk_Enabled (saved_line ''line'') \<and>
     lv_co s = co0"
proof -
  obtain co0 where boot: "load_coordinator quiet quiet plc_db = Inr co0" using boot_plc by blast
  let ?s = "save_policy (quiet\<lparr>en_fault := [2 \<mapsto> ''disk I/O error'']\<rparr>) 1 (line_topic ''line'') (live_start plc_db co0)"
  have "sys_step\<^sup>*\<^sup>* (live_start plc_db co0) ?s" by (rule r_into_rtranclp, rule sys_step.Save)
  moreover have "lv_pending ?s = [] \<and> config_row 1 (lv_db ?s) = Some (saved_line ''line'') \<and> lv_co ?s = co0"
    by (simp add: save_policy_def line_saves plc_configs live_start_def config_row_def)
  moreover have "dk_Enabled (saved_line ''line'')" by (simp add: saved_line_def line_topic_def line_policy_def)
  ultimately show ?thesis using boot by blast
qed

theorem live_policies_match_store_witness:
  "\<exists>co0 s. load_coordinator quiet quiet plc_db = Inr co0 \<and> sys_step\<^sup>*\<^sup>* (live_start plc_db co0) s \<and>
     config_row 1 (lv_db s) = Some (saved_line ''plc'') \<and> lv_pending s = [] \<and> dk_Enabled (saved_line ''plc'') \<and>
     co_configs (lv_co s) 1 = Some (saved_line ''plc'')"
proof -
  obtain co0 where boot: "load_coordinator quiet quiet plc_db = Inr co0" using boot_plc by blast
  define s where "s = hand_over 0 (save_policy quiet 1 (line_topic ''plc'') (live_start plc_db co0))"
  have "sys_step\<^sup>*\<^sup>* (live_start plc_db co0) (save_policy quiet 1 (line_topic ''plc'') (live_start plc_db co0))"
    by (rule r_into_rtranclp, rule sys_step.Save)
  moreover have "sys_step (save_policy quiet 1 (line_topic ''plc'') (live_start plc_db co0)) s"
    unfolding s_def by (rule sys_step.HandOver) (simp add: saved_line_live)
  ultimately have run: "sys_step\<^sup>*\<^sup>* (live_start plc_db co0) s" by (rule rtranclp.rtrancl_into_rtrancl)
  have e: "config_row 1 (lv_db s) = Some (saved_line ''plc'')" "1 \<notin> lv_stray s" "lv_pending s = []"
    unfolding s_def saved_line_live by (simp_all add: hand_over_def live_start_def config_row_def plc_configs)
  have "dk_Enabled (saved_line ''plc'')" by (simp add: saved_line_def line_topic_def line_policy_def)
  with live_policies_match_store [OF plc_db_inv boot run e(1,2)] run boot e show ?thesis by auto
qed

end
