(* ===== verification/Router.thy ===== *)
theory Router
  imports HttpApi WebFiles AppConfig
begin

text \<open>
  The routes of \<open>internal/httpapi\<close> and the server around them. The tables are those of
  \<open>registerDevices\<close>, \<open>registerPoints\<close>, \<open>registerWebSocket\<close> and \<open>registerKafka\<close> under \<open>/api/v1\<close>. That a
  route matches a path segment by segment, a variable standing for one non-empty segment, and that a
  fixed segment goes before a variable, is Gin's documented rule; its redirect of a path with one
  slash too many at the end is left out.
\<close>

section \<open>Routes\<close>

datatype segment = Fixed string | Variable string

datatype endpoint =
    ListDevices | CreateDeviceAt | GetDeviceAt | UpdateDeviceAt | DeleteDeviceAt | StartDevice | StopDevice
  | RestartDevice | DeviceStatus | DeviceValues
  | ListPointsAt | DeletePointsAt | CreatePointAt | GetPointAt | UpdatePointAt | DeletePointAt | ImportPoints
  | ExportPoints
  | WebSocketAt
  | GetKafka | UpdateKafka | GetPolicy | UpdatePolicy

record route =
  ro_Method :: string
  ro_Path :: "segment list"
  ro_Endpoint :: endpoint

abbreviation route_to :: "string \<Rightarrow> segment list \<Rightarrow> endpoint \<Rightarrow> route" where
  "route_to verb path ep \<equiv> \<lparr>ro_Method = verb, ro_Path = path, ro_Endpoint = ep\<rparr>"

definition device_path :: "segment list" where
  "device_path = [Fixed ''devices'', Variable ''id'']"

definition registerDevices :: "route list" where
  "registerDevices =
     [route_to ''GET'' [Fixed ''devices''] ListDevices,
      route_to ''POST'' [Fixed ''devices''] CreateDeviceAt,
      route_to ''GET'' device_path GetDeviceAt,
      route_to ''PUT'' device_path UpdateDeviceAt,
      route_to ''DELETE'' device_path DeleteDeviceAt,
      route_to ''POST'' (device_path @ [Fixed ''start'']) StartDevice,
      route_to ''POST'' (device_path @ [Fixed ''stop'']) StopDevice,
      route_to ''POST'' (device_path @ [Fixed ''restart'']) RestartDevice,
      route_to ''GET'' (device_path @ [Fixed ''status'']) DeviceStatus,
      route_to ''GET'' (device_path @ [Fixed ''values'']) DeviceValues]"

definition registerPoints :: "route list" where
  "registerPoints =
     (let points = device_path @ [Fixed ''points'']; point = points @ [Variable ''pointID''] in
     [route_to ''GET'' points ListPointsAt,
      route_to ''DELETE'' points DeletePointsAt,
      route_to ''POST'' points CreatePointAt,
      route_to ''GET'' point GetPointAt,
      route_to ''PUT'' point UpdatePointAt,
      route_to ''DELETE'' point DeletePointAt,
      route_to ''POST'' (points @ [Fixed ''import'']) ImportPoints,
      route_to ''GET'' (points @ [Fixed ''export'']) ExportPoints])"

definition registerWebSocket :: "route list" where
  "registerWebSocket = [route_to ''GET'' [Fixed ''ws''] WebSocketAt]"

definition registerKafka :: "route list" where
  "registerKafka =
     [route_to ''GET'' [Fixed ''kafka''] GetKafka,
      route_to ''PUT'' [Fixed ''kafka''] UpdateKafka,
      route_to ''GET'' (device_path @ [Fixed ''kafka'']) GetPolicy,
      route_to ''PUT'' (device_path @ [Fixed ''kafka'']) UpdatePolicy]"

text \<open>The two routers; \<open>hub\<close> says that a hub is given. The middleware logs and turns a panic into a 500.\<close>

definition grouped :: "route list \<Rightarrow> route list" where
  "grouped table = map (ro_Path_update (\<lambda>p. [Fixed ''api'', Fixed ''v1''] @ p)) table"

definition NewRouter :: "bool \<Rightarrow> route list" where
  "NewRouter hub =
     grouped registerDevices @ grouped registerPoints @ (if hub then grouped registerWebSocket else [])"

definition NewRouterWithKafka :: "bool \<Rightarrow> route list" where
  "NewRouterWithKafka hub = NewRouter hub @ grouped registerKafka"

section \<open>Dispatch\<close>

fun bind_path :: "segment list \<Rightarrow> string list \<Rightarrow> (string \<times> string) list option" where
  "bind_path [] [] = Some []"
| "bind_path (Fixed s # ss) (p # ps) = (if s = p then bind_path ss ps else None)"
| "bind_path (Variable v # ss) (p # ps) = (if p \<noteq> [] then map_option (\<lambda>b. (v, p) # b) (bind_path ss ps) else None)"
| "bind_path _ _ = None"

fun goes_before :: "segment list \<Rightarrow> segment list \<Rightarrow> bool" where
  "goes_before (Fixed s # ss) (Variable v # ts) = True"
| "goes_before (Fixed s # ss) (Fixed t # ts) = goes_before ss ts"
| "goes_before (Variable v # ss) (Variable u # ts) = goes_before ss ts"
| "goes_before _ _ = False"

definition matching :: "route list \<Rightarrow> string \<Rightarrow> string list \<Rightarrow> route list" where
  "matching table verb path = filter (\<lambda>r. ro_Method r = verb \<and> bind_path (ro_Path r) path \<noteq> None) table"

fun best_route :: "route \<Rightarrow> route list \<Rightarrow> route" where
  "best_route r [] = r"
| "best_route r (q # qs) = best_route (if goes_before (ro_Path q) (ro_Path r) then q else r) qs"

definition dispatch :: "route list \<Rightarrow> string \<Rightarrow> string list \<Rightarrow> (endpoint \<times> (string \<times> string) list) option" where
  "dispatch table verb path =
     (case matching table verb path of
        [] \<Rightarrow> None
      | r # rs \<Rightarrow>
          let best = best_route r rs in Some (ro_Endpoint best, the (bind_path (ro_Path best) path)))"

section \<open>Requests\<close>

record http_request =
  hr_Method :: string
  hr_Path :: string
  hr_Query :: "string \<Rightarrow> string"
  hr_Body :: string
  hr_File :: "string option"

definition url_segments :: "string \<Rightarrow> string list" where
  "url_segments p = tl (split_on (CHR ''/'') [] p)"

definition param :: "string \<Rightarrow> (string \<times> string) list \<Rightarrow> string" where
  "param name ps = (case map_of ps name of None \<Rightarrow> [] | Some s \<Rightarrow> s)"

text \<open>The request that an endpoint hands to its handler; the WebSocket is none of them.\<close>

fun request_of :: "endpoint \<Rightarrow> (string \<times> string) list \<Rightarrow> http_request \<Rightarrow> request option" where
  "request_of ListDevices ps q = Some ListDevicesReq"
| "request_of CreateDeviceAt ps q = Some (CreateDeviceReq (hr_Body q))"
| "request_of GetDeviceAt ps q = Some (GetDeviceReq (param ''id'' ps))"
| "request_of UpdateDeviceAt ps q = Some (UpdateDeviceReq (param ''id'' ps) (hr_Body q))"
| "request_of DeleteDeviceAt ps q = Some (DeleteDeviceReq (param ''id'' ps))"
| "request_of StartDevice ps q = Some (StartDeviceReq (param ''id'' ps))"
| "request_of StopDevice ps q = Some (StopDeviceReq (param ''id'' ps))"
| "request_of RestartDevice ps q = Some (RestartDeviceReq (param ''id'' ps))"
| "request_of DeviceStatus ps q = Some (DeviceStatusReq (param ''id'' ps))"
| "request_of DeviceValues ps q = Some (DeviceValuesReq (param ''id'' ps))"
| "request_of ListPointsAt ps q = Some (ListPointsReq (param ''id'' ps) (hr_Query q ''limit'') (hr_Query q ''offset'')
     (hr_Query q ''search'') (hr_Query q ''reg_type''))"
| "request_of DeletePointsAt ps q = Some (DeletePointsReq (param ''id'' ps) (hr_Body q))"
| "request_of CreatePointAt ps q = Some (CreatePointReq (param ''id'' ps) (hr_Body q))"
| "request_of GetPointAt ps q = Some (GetPointReq (param ''id'' ps) (param ''pointID'' ps))"
| "request_of UpdatePointAt ps q = Some (UpdatePointReq (param ''id'' ps) (param ''pointID'' ps) (hr_Body q))"
| "request_of DeletePointAt ps q = Some (DeletePointReq (param ''id'' ps) (param ''pointID'' ps))"
| "request_of ImportPoints ps q = Some (ImportPointsReq (param ''id'' ps) (hr_File q))"
| "request_of ExportPoints ps q = Some (ExportPointsReq (param ''id'' ps))"
| "request_of WebSocketAt ps q = None"
| "request_of GetKafka ps q = Some GetKafkaReq"
| "request_of UpdateKafka ps q = Some (UpdateKafkaReq (hr_Body q))"
| "request_of GetPolicy ps q = Some (GetPolicyReq (param ''id'' ps))"
| "request_of UpdatePolicy ps q = Some (UpdatePolicyReq (param ''id'' ps) (hr_Body q))"

datatype http_answer = Api response | Web web_answer | Upgrade

definition serve_http :: "World \<Rightarrow> bool \<Rightarrow> (string \<Rightarrow> string option) \<Rightarrow> http_request \<Rightarrow> Db \<Rightarrow> http_answer \<times> Db" where
  "serve_http w hub files q db =
     (case dispatch (NewRouterWithKafka hub) (hr_Method q) (url_segments (hr_Path q)) of
        None \<Rightarrow> (Web (noRoute files (hr_Method q) (hr_Path q)), db)
      | Some (ep, ps) \<Rightarrow>
          (case request_of ep ps q of
             None \<Rightarrow> (Upgrade, db)
           | Some req \<Rightarrow> (Api (fst (handle w req db)), snd (handle w req db))))"

section \<open>The table\<close>

lemmas table_defs = NewRouterWithKafka_def NewRouter_def grouped_def registerDevices_def registerPoints_def registerWebSocket_def
  registerKafka_def device_path_def

fun compatible :: "segment list \<Rightarrow> segment list \<Rightarrow> bool" where
  "compatible [] [] = True"
| "compatible (Fixed s # ss) (Fixed t # ts) = (s = t \<and> compatible ss ts)"
| "compatible (Fixed s # ss) (Variable v # ts) = compatible ss ts"
| "compatible (Variable v # ss) (t # ts) = compatible ss ts"
| "compatible _ _ = False"

lemma bind_compatible: "bind_path ss path \<noteq> None \<Longrightarrow> bind_path ts path \<noteq> None \<Longrightarrow> compatible ss ts"
proof (induction ss ts arbitrary: path rule: compatible.induct)
  case (2 s ss t ts)
  then show ?case by (cases path) (auto split: if_splits)
next
  case (3 s ss v ts)
  then show ?case by (cases path) (auto split: if_splits)
next
  case (4 v ss t ts)
  then show ?case by (cases path; cases t) (auto split: if_splits)
qed (use bind_path.elims in \<open>auto elim: bind_path.elims\<close>)

text \<open>
  Two routes of one method never match the same path, except the export of the points and a point
  of that name; there the export goes first.
\<close>

definition pairs_ok :: "route list \<Rightarrow> bool" where
  "pairs_ok table = list_all (\<lambda>r. list_all (\<lambda>q.
     ro_Method r \<noteq> ro_Method q \<or> \<not> compatible (ro_Path r) (ro_Path q) \<or> r = q \<or>
     (ro_Endpoint r, ro_Endpoint q) \<in> {(ExportPoints, GetPointAt), (GetPointAt, ExportPoints)}) table) table"

lemma routes_checked: "pairs_ok (NewRouterWithKafka hub)"
proof -
  have "pairs_ok (NewRouterWithKafka True)" "pairs_ok (NewRouterWithKafka False)" by code_simp+
  then show ?thesis by (cases hub) simp_all
qed

lemma routes_unambiguous:
  assumes "r \<in> set (NewRouterWithKafka hub)" "q \<in> set (NewRouterWithKafka hub)" "ro_Method r = ro_Method q"
    and "bind_path (ro_Path r) path \<noteq> None" "bind_path (ro_Path q) path \<noteq> None"
  shows "r = q \<or> (ro_Endpoint r, ro_Endpoint q) \<in> {(ExportPoints, GetPointAt), (GetPointAt, ExportPoints)}"
  using routes_checked [of hub] assms(1-3) bind_compatible [OF assms(4,5)]
  unfolding pairs_ok_def list_all_iff by blast

text \<open>Every route is reached, at its own path.\<close>

definition sample_path :: "route \<Rightarrow> string list" where
  "sample_path r = map (\<lambda>s. case s of Fixed t \<Rightarrow> t | Variable v \<Rightarrow> ''7'') (ro_Path r)"

lemma routes_reached:
  "list_all (\<lambda>r. map_option fst (dispatch (NewRouterWithKafka True) (ro_Method r) (sample_path r)) = Some (ro_Endpoint r))
     (NewRouterWithKafka True)"
  by code_simp

lemma best_route_mem: "best_route r rs \<in> insert r (set rs)"
  by (induction r rs rule: best_route.induct) auto

lemma dispatch_route:
  assumes "dispatch table verb path = Some (ep, ps)"
  shows "\<exists>r\<in>set table. ro_Method r = verb \<and> ro_Endpoint r = ep \<and> bind_path (ro_Path r) path = Some ps"
proof -
  obtain r rs where m: "matching table verb path = r # rs" and b: "ep = ro_Endpoint (best_route r rs)"
    "ps = the (bind_path (ro_Path (best_route r rs)) path)"
    using assms by (auto simp: dispatch_def Let_def split: list.splits)
  have "best_route r rs \<in> set (matching table verb path)" using best_route_mem [of r rs] by (simp add: m)
  then show ?thesis using b by (auto simp: matching_def)
qed

lemma get_endpoints:
  assumes "r \<in> set (NewRouterWithKafka hub)" "ro_Method r = ''GET''" "request_of (ro_Endpoint r) ps q = Some req"
  shows "reads req"
  using assms by (cases hub) (auto simp: table_defs Let_def)

text \<open>
  C16: a GET request never changes the store, whatever its path, and no request changes it beyond what the
  services do; a path that is no route changes nothing either.
\<close>

theorem get_changes_nothing:
  "(hr_Method q = ''GET'' \<longrightarrow> snd (serve_http w hub files q db) = db) \<and>
   svc_step\<^sup>*\<^sup>* db (snd (serve_http w hub files q db)) \<and>
   (dispatch (NewRouterWithKafka hub) (hr_Method q) (url_segments (hr_Path q)) = None \<longrightarrow>
      serve_http w hub files q db = (Web (noRoute files (hr_Method q) (hr_Path q)), db))"
proof (cases "dispatch (NewRouterWithKafka hub) (hr_Method q) (url_segments (hr_Path q))")
  case (Some route)
  obtain ep ps where r: "route = (ep, ps)" by fastforce
  from dispatch_route [OF Some [unfolded r]] obtain ro where ro: "ro \<in> set (NewRouterWithKafka hub)"
    "ro_Method ro = hr_Method q" "ro_Endpoint ro = ep" by blast
  show ?thesis
  proof (cases "request_of ep ps q")
    case None
    then have "serve_http w hub files q db = (Upgrade, db)" by (simp add: serve_http_def Some r)
    then show ?thesis by (simp add: Some)
  next
    case (Some req)
    have "reads req" if "hr_Method q = ''GET''" using get_endpoints [OF ro(1)] ro(2,3) Some that by simp
    moreover have "serve_http w hub files q db = (Api (fst (handle w req db)), snd (handle w req db))"
      by (simp add: serve_http_def \<open>dispatch _ _ _ = Some route\<close> r Some)
    ultimately show ?thesis
      using reads_change_nothing [of req w db] handle_steps [of db w req] by (simp add: \<open>dispatch _ _ _ = Some route\<close>)
  qed
next
  case None
  then have "serve_http w hub files q db = (Web (noRoute files (hr_Method q) (hr_Path q)), db)"
    by (simp add: serve_http_def)
  then show ?thesis by simp
qed

section \<open>The server\<close>

text \<open>
  \<open>NewServer\<close>; a \<open>time.Duration\<close> is a 64-bit number of nanoseconds, and its multiplication wraps.
\<close>

definition go_duration :: "int \<Rightarrow> int \<Rightarrow> int" where
  "go_duration n unit = sint (word_of_int (n * unit) :: 64 word)"

definition JoinHostPort :: "string \<Rightarrow> string \<Rightarrow> string" where
  "JoinHostPort host port =
     (if CHR '':'' \<in> set host \<or> CHR ''%'' \<in> set host then ''['' @ host @ '']:'' @ port else host @ '':'' @ port)"

record Server =
  se_Addr :: string
  se_ReadHeaderTimeout :: int
  se_ReadTimeout :: int
  se_WriteTimeout :: int
  se_IdleTimeout :: int

definition NewServer :: "ServerConfig \<Rightarrow> Server" where
  "NewServer cfg =
     \<lparr>se_Addr = JoinHostPort (sv_Host cfg) (Itoa (sv_Port cfg)),
      se_ReadHeaderTimeout = go_duration (sv_ReadHeaderTimeoutSec cfg) second,
      se_ReadTimeout = go_duration (sv_ReadTimeoutSec cfg) second,
      se_WriteTimeout = go_duration (sv_WriteTimeoutSec cfg) second,
      se_IdleTimeout = go_duration (sv_IdleTimeoutSec cfg) second\<rparr>"

lemma go_duration_exact:
  assumes "0 \<le> n" "n * unit < 2 ^ 63" "0 \<le> unit"
  shows "go_duration n unit = n * unit"
proof -
  have "0 \<le> n * unit" using assms(1,3) by simp
  with assms(2) show ?thesis
    unfolding go_duration_def by (simp only: sint_sbintrunc') (simp add: signed_take_bit_int_eq_self)
qed

text \<open>
  Up to 292 years the timeouts are those of the configuration. The validation has no upper bound: a
  longer one is accepted and wraps to a negative duration, which for the server means no timeout.
\<close>

lemma server_timeouts:
  assumes "Validate uni isIP c = None"
    and "\<And>f. f \<in> {sv_ReadHeaderTimeoutSec, sv_ReadTimeoutSec, sv_WriteTimeoutSec, sv_IdleTimeoutSec} \<Longrightarrow>
      f (cf_Server c) \<le> 9223372036"
  shows "se_ReadHeaderTimeout (NewServer (cf_Server c)) = sv_ReadHeaderTimeoutSec (cf_Server c) * second"
    "se_ReadTimeout (NewServer (cf_Server c)) = sv_ReadTimeoutSec (cf_Server c) * second"
    "se_WriteTimeout (NewServer (cf_Server c)) = sv_WriteTimeoutSec (cf_Server c) * second"
    "se_IdleTimeout (NewServer (cf_Server c)) = sv_IdleTimeoutSec (cf_Server c) * second"
proof -
  have pos: "0 < sv_ReadHeaderTimeoutSec (cf_Server c)" "0 < sv_ReadTimeoutSec (cf_Server c)"
    "0 < sv_WriteTimeoutSec (cf_Server c)" "0 < sv_IdleTimeoutSec (cf_Server c)"
    using assms(1) by (auto simp: Validate_def Let_def not_le split: if_splits)
  have "go_duration n second = n * second" if "0 < n" "n \<le> 9223372036" for n
    using that by (intro go_duration_exact) (simp_all add: second_def)
  with pos assms(2) show
    "se_ReadHeaderTimeout (NewServer (cf_Server c)) = sv_ReadHeaderTimeoutSec (cf_Server c) * second"
    "se_ReadTimeout (NewServer (cf_Server c)) = sv_ReadTimeoutSec (cf_Server c) * second"
    "se_WriteTimeout (NewServer (cf_Server c)) = sv_WriteTimeoutSec (cf_Server c) * second"
    "se_IdleTimeout (NewServer (cf_Server c)) = sv_IdleTimeoutSec (cf_Server c) * second"
    by (simp_all add: NewServer_def)
qed

lemma long_timeout_wraps: "go_duration 9223372037 second < 0"
  by (simp add: go_duration_def second_def)

section \<open>Witnesses\<close>

definition sample_get :: http_request where
  "sample_get = \<lparr>hr_Method = ''GET'', hr_Path = ''/api/v1/devices'', hr_Query = (\<lambda>_. []), hr_Body = [], hr_File = None\<rparr>"

theorem get_changes_nothing_witness:
  "snd (serve_http sample_world True (\<lambda>_. None) sample_get opened_db) = opened_db \<and>
   dispatch (NewRouterWithKafka True) (hr_Method sample_get) (url_segments (hr_Path sample_get)) = Some (ListDevices, [])"
proof -
  have "dispatch (NewRouterWithKafka True) (hr_Method sample_get) (url_segments (hr_Path sample_get)) = Some (ListDevices, [])"
    by (simp add: sample_get_def) code_simp
  then show ?thesis using get_changes_nothing [of sample_get sample_world True "\<lambda>_. None" opened_db]
    by (simp add: sample_get_def)
qed

end
