(* ===== verification/Logging.thy ===== *)
theory Logging
  imports AppConfig
begin

text \<open>
  \<open>internal/logging\<close>: which outputs, level and format the logger of the process gets. The directory is
  made by the argument \<open>mkdirAll\<close>, the error of \<open>os.MkdirAll\<close> for it; the rotating file and the
  handlers are third-party or library objects, described here by what they are made of.
\<close>

datatype log_level = LevelDebug | LevelInfo | LevelWarn | LevelError

datatype log_handler = JSONHandler | TextHandler

record Rotating =
  ro_Filename :: string
  ro_MaxSize :: int
  ro_MaxBackups :: int
  ro_MaxAge :: int
  ro_Compress :: bool

datatype log_writer = Stderr | RotatingFile Rotating

record Logger =
  lo_writers :: "log_writer list"
  lo_level :: log_level
  lo_handler :: log_handler

datatype log_error = MkdirFailed string | NoOutput | InvalidLevel string | InvalidFormat string

definition newWithWriters :: "(string \<Rightarrow> string) \<Rightarrow> LogConfig \<Rightarrow> log_writer option \<Rightarrow> log_writer option \<Rightarrow> log_error + Logger" where
  "newWithWriters uni cfg console file =
     (let writers = (case console of None \<Rightarrow> [] | Some w \<Rightarrow> [w]) @ (case file of None \<Rightarrow> [] | Some w \<Rightarrow> [w]) in
      if writers = [] then Inl NoOutput
      else
        let level = ToLower uni (lg_Level cfg) in
        and_then
          (if level = ''debug'' then Inr LevelDebug
           else if level = ''info'' \<or> level = [] then Inr LevelInfo
           else if level = ''warn'' then Inr LevelWarn
           else if level = ''error'' then Inr LevelError
           else Inl (InvalidLevel (lg_Level cfg))) (\<lambda>lv.
        let format = ToLower uni (lg_Format cfg) in
        if format = ''json'' then Inr \<lparr>lo_writers = writers, lo_level = lv, lo_handler = JSONHandler\<rparr>
        else if format = ''text'' \<or> format = [] then Inr \<lparr>lo_writers = writers, lo_level = lv, lo_handler = TextHandler\<rparr>
        else Inl (InvalidFormat (lg_Format cfg))))"

definition rotating_file :: "LogConfig \<Rightarrow> log_writer" where
  "rotating_file cfg = RotatingFile \<lparr>ro_Filename = lg_File cfg, ro_MaxSize = lg_MaxSizeMB cfg,
     ro_MaxBackups = lg_MaxBackups cfg, ro_MaxAge = lg_MaxAgeDays cfg, ro_Compress = lg_Compress cfg\<rparr>"

definition logging_New :: "(string \<Rightarrow> string) \<Rightarrow> (string \<Rightarrow> string) \<Rightarrow> (string \<Rightarrow> string option) \<Rightarrow> LogConfig \<Rightarrow> log_error + Logger" where
  "logging_New uni dir mkdirAll cfg =
     (let console = (if lg_Console cfg then Some Stderr else None) in
      if TrimSpace (lg_File cfg) \<noteq> [] then
        (case mkdirAll (dir (lg_File cfg)) of
           Some err \<Rightarrow> Inl (MkdirFailed err)
         | None \<Rightarrow> newWithWriters uni cfg console (Some (rotating_file cfg)))
      else newWithWriters uni cfg console None)"

section \<open>A loaded configuration gives a logger\<close>

lemma trim_left_keeps:
  assumes "\<And>r c. r \<in> set rs \<Longrightarrow> c \<in> set r \<Longrightarrow> \<not> ascii_word_char c" "ascii_word_char x"
  shows "x \<in> set s \<Longrightarrow> x \<in> set (trim_left_of rs s)"
proof (induction "length s" arbitrary: s rule: less_induct)
  case less
  show ?case
  proof (cases "starts_with rs s")
    case None
    with less.prems show ?thesis by (simp add: trim_left_of_None)
  next
    case (Some r)
    then have r: "r \<in> set rs" "r \<noteq> []" "take (length r) s = r" by (auto simp: starts_with_def find_Some_iff)
    have "x \<notin> set (take (length r) s)" using assms r by metis
    then have "x \<in> set (drop (length r) s)" using less.prems by (metis Un_iff append_take_drop_id set_append)
    moreover have "length (drop (length r) s) < length s" using r less.prems by (cases s) auto
    ultimately show ?thesis using less.hyps Some by (subst trim_left_of.simps) simp
  qed
qed

lemma TrimSpace_keeps: "x \<in> set s \<Longrightarrow> ascii_word_char x \<Longrightarrow> x \<in> set (TrimSpace s)"
proof -
  assume x: "x \<in> set s" "ascii_word_char x"
  have 1: "x \<in> set (trim_left_of space_runes s)"
    using x space_rune_bytes by (intro trim_left_keeps) auto
  have "x \<in> set (trim_left_of (map rev space_runes) (rev (trim_left_of space_runes s)))"
    using x(2) 1 by (intro trim_left_keeps) (auto dest: space_rune_bytes)
  then show ?thesis by (simp add: TrimSpace_def trim_right_of_def)
qed

lemma absolute_not_blank: "unix_IsAbs p \<Longrightarrow> TrimSpace p \<noteq> []"
proof -
  assume "unix_IsAbs p"
  then have "CHR ''/'' \<in> set p" by (cases p) (auto simp: unix_IsAbs_def)
  then have "CHR ''/'' \<in> set (TrimSpace p)" by (rule TrimSpace_keeps) (simp add: ascii_word_char_def)
  then show ?thesis by auto
qed

text \<open>
  A configuration that was loaded always gives a logger, on Unix: the only error left is that the
  directory of the log file cannot be made. The logger writes to the console exactly if it is
  switched on and to the file exactly if one is named, at the level and in the format configured.
\<close>

lemma loaded_config_logs:
  assumes "Load uni isIP unix_paths unix_Dir absolute decode path = Inr cfg"
    and "\<And>a. absolute path = Inr a \<Longrightarrow> unix_IsAbs a"
  shows "(case logging_New uni unix_Dir mkdirAll (cf_Log cfg) of
      Inl err \<Rightarrow> lg_File (cf_Log cfg) \<noteq> [] \<and>
        (\<exists>e. mkdirAll (unix_Dir (lg_File (cf_Log cfg))) = Some e \<and> err = MkdirFailed e)
    | Inr l \<Rightarrow> lo_writers l \<noteq> [] \<and> (Stderr \<in> set (lo_writers l) \<longleftrightarrow> lg_Console (cf_Log cfg)) \<and>
        (rotating_file (cf_Log cfg) \<in> set (lo_writers l) \<longleftrightarrow> lg_File (cf_Log cfg) \<noteq> []) \<and>
        (lo_handler l = JSONHandler \<longleftrightarrow> ToLower uni (lg_Format (cf_Log cfg)) = ''json'') \<and>
        (lo_level l = LevelDebug \<longleftrightarrow> ToLower uni (lg_Level (cf_Log cfg)) = ''debug''))"
proof -
  let ?l = "cf_Log cfg"
  note load = Load_sound [OF assms]
  have lev: "ToLower uni (lg_Level ?l) \<in> {''debug'', ''info'', ''warn'', ''error''}" using load by blast
  have frm: "ToLower uni (lg_Format ?l) \<in> {''text'', ''json''}" using load by blast
  have out: "lg_File ?l = [] \<and> lg_Console ?l \<or> unix_IsAbs (lg_File ?l)" using load by blast
  have blank: "TrimSpace (lg_File ?l) = [] \<longleftrightarrow> lg_File ?l = []"
    using out absolute_not_blank length_TrimSpace [of "[]"] by auto
  have new: "\<exists>lv h. newWithWriters uni ?l a b =
        Inr \<lparr>lo_writers = (case a of None \<Rightarrow> [] | Some w \<Rightarrow> [w]) @ (case b of None \<Rightarrow> [] | Some w \<Rightarrow> [w]), lo_level = lv, lo_handler = h\<rparr> \<and>
      (h = JSONHandler \<longleftrightarrow> ToLower uni (lg_Format ?l) = ''json'') \<and> (lv = LevelDebug \<longleftrightarrow> ToLower uni (lg_Level ?l) = ''debug'')"
    if "a \<noteq> None \<or> b \<noteq> None" for a b
    using that lev frm by (auto simp: newWithWriters_def Let_def split: option.split)
  have rot: "rotating_file ?l \<noteq> Stderr" by (simp add: rotating_file_def)
  show ?thesis
  proof (cases "lg_File ?l = []")
    case True
    with out have con: "lg_Console ?l" by (auto simp: unix_IsAbs_def)
    obtain lv h where "newWithWriters uni ?l (Some Stderr) None = Inr \<lparr>lo_writers = [Stderr], lo_level = lv, lo_handler = h\<rparr>"
      "h = JSONHandler \<longleftrightarrow> ToLower uni (lg_Format ?l) = ''json''" "lv = LevelDebug \<longleftrightarrow> ToLower uni (lg_Level ?l) = ''debug''"
      using new [of "Some Stderr" None] by auto
    with True con blank rot show ?thesis by (simp add: logging_New_def)
  next
    case False
    obtain lv h where n: "newWithWriters uni ?l (if lg_Console ?l then Some Stderr else None) (Some (rotating_file ?l)) =
        Inr \<lparr>lo_writers = (if lg_Console ?l then [Stderr] else []) @ [rotating_file ?l], lo_level = lv, lo_handler = h\<rparr>"
      "h = JSONHandler \<longleftrightarrow> ToLower uni (lg_Format ?l) = ''json''" "lv = LevelDebug \<longleftrightarrow> ToLower uni (lg_Level ?l) = ''debug''"
      using new [of "if lg_Console ?l then Some Stderr else None" "Some (rotating_file ?l)"] by (auto split: if_splits)
    with False blank rot show ?thesis
      by (cases "lg_Console ?l") (simp_all add: logging_New_def split: option.split)
  qed
qed

theorem loaded_config_logs_witness:
  "\<exists>cfg l. Load (\<lambda>s. s) (\<lambda>_. True) unix_paths unix_Dir absolute_only (\<lambda>_ c. Inr c) ''/etc/config.toml'' = Inr cfg \<and>
     logging_New (\<lambda>s. s) unix_Dir (\<lambda>_. None) (cf_Log cfg) = Inr l \<and> Stderr \<in> set (lo_writers l)"
proof -
  have abs: "\<And>a. absolute_only ''/etc/config.toml'' = Inr a \<Longrightarrow> unix_IsAbs a" by (auto simp: absolute_only_def split: if_splits)
  have "absolute_only ''/etc/config.toml'' = Inr ''/etc/config.toml''" by (simp add: absolute_only_def unix_IsAbs_def)
  then obtain cfg where c: "Load (\<lambda>s. s) (\<lambda>_. True) unix_paths unix_Dir absolute_only (\<lambda>_ c. Inr c) ''/etc/config.toml'' = Inr cfg"
    and con: "lg_Console (cf_Log cfg)"
    by (simp add: Load_def Default_valid Let_def) (simp add: Default_def)
  from loaded_config_logs [OF c abs, where mkdirAll = "\<lambda>_. None"] c con show ?thesis
    by (auto split: sum.splits)
qed

end
