(* ===== verification/Typing.thy ===== *)
theory Typing
  imports Collector
begin

text \<open>
  The dynamic types of collected values (\<open>parseAndUpdate\<close> in \<open>internal/collector/collector.go\<close>): a
  value travels as an \<open>interface{}\<close>, and its consumers rely on the type and the range that the
  configuration of its point fixes.
\<close>

section \<open>The type of a point\<close>

text \<open>
  The numbers an integer point can hold: a field as wide as its signed type is in two's complement, any
  other field of \<open>l\<close> bits is unsigned, and never wider than its type. \<open>None\<close> is a float.
\<close>

definition integer_range :: "string \<Rightarrow> int \<Rightarrow> int set option" where
  "integer_range d l =
     (if d = ''Float32'' \<or> d = ''Double'' then None
      else if d = ''Int16'' \<and> l = 16 then Some {- (2 ^ 15) ..< 2 ^ 15}
      else if d = ''Int32'' \<and> l = 32 then Some {- (2 ^ 31) ..< 2 ^ 31}
      else Some {0 ..< 2 ^ nat (min l (TypeBitWidth d))})"

definition has_type :: "PointConfig \<Rightarrow> anyval \<Rightarrow> bool" where
  "has_type p v \<longleftrightarrow>
     (if IsRegTypeBit (pc_RegType p) \<or> pc_DataType p = ''Bool'' then \<exists>b. v = VBool b
      else if pc_DataType p = ''Float32'' then \<exists>x. v = VFloat64 (f64_of_f32 x)
      else case integer_range (pc_DataType p) (effective_len p) of
             None \<Rightarrow> \<exists>w. v = VFloat64 w
           | Some R \<Rightarrow> \<exists>n\<in>R. v = VFloat64 (f64_of_int n))"

lemma be_nat_bound: "be_nat bs < 256 ^ length bs"
proof (induction bs rule: rev_induct)
  case (snoc b bs)
  have "unat b < 256" using unsigned_less [of b] by simp
  with snoc show ?case by (simp add: be_nat_snoc)
qed (simp add: be_nat_def)

lemma raw_uint_bound:
  assumes "length bs \<le> k" "k \<le> 8"
  shows "uint (raw_uint bs) < 256 ^ k"
proof -
  have "(256 :: nat) ^ length bs \<le> 256 ^ k" using assms(1) by (intro power_increasing) simp_all
  then have "be_nat bs < 256 ^ k" using be_nat_bound [of bs] by (rule less_le_trans [rotated])
  then have b: "int (be_nat bs) < 256 ^ k" by (metis of_nat_less_iff of_nat_numeral of_nat_power)
  moreover have "uint (of_nat (be_nat bs) :: u64) \<le> int (be_nat bs)"
    by (simp add: unsigned_of_nat take_bit_int_less_eq_self_iff take_bit_nat_less_eq_self)
  ultimately have "uint (of_nat (be_nat bs) :: u64) < 256 ^ k" by linarith
  then show ?thesis by (simp add: raw_uint_def)
qed

lemma extract_bits_bound: "uint (extract_bits w off l) \<le> uint w"
proof -
  have "drop_bit (nat off) w AND m \<le> drop_bit (nat off) w" for m by (rule word_and_le2)
  moreover have "drop_bit (nat off) w \<le> w"
    by (simp add: word_le_nat_alt unsigned_drop_bit_eq drop_bit_eq_div [where ?'a = nat])
      (meson div_le_dividend order_trans take_bit_nat_less_eq_self)
  ultimately show ?thesis unfolding extract_bits_def Let_def by (meson order_trans word_le_def)
qed

lemma extract_bits_mask: "uint (extract_bits w off l) < 2 ^ nat l"
proof -
  have m: "(push_bit (nat l) 1 - 1 :: u64) = mask (nat l)"
    by (simp add: mask_eq_exp_minus_1 push_bit_eq_mult)
  have "extract_bits w off l = take_bit (nat l) (drop_bit (nat off) w)"
    by (simp only: extract_bits_def Let_def m take_bit_eq_mask)
  then show ?thesis by (simp add: unsigned_take_bit_eq)
qed

lemma convert_value_has_type:
  assumes "\<not> IsRegTypeBit (pc_RegType p)" "uint w < 256 ^ (2 * unat (GetRegisterCount p))"
    and "effective_len p = l" "uint w < 2 ^ nat l"
  shows "has_type p (convert_value (pc_DataType p) l w)"
proof -
  let ?d = "pc_DataType p"
  have s16: "sint (ucast w :: u16) \<in> {- (2 ^ 15) ..< 2 ^ 15}" and s32: "sint (ucast w :: u32) \<in> {- (2 ^ 31) ..< 2 ^ 31}"
    using sint_range_size [of "ucast w :: u16"] sint_range_size [of "ucast w :: u32"] by (simp_all add: word_size)
  consider "?d \<in> {''Bool'', ''Float32'', ''Double''}" | "?d = ''Int16'' \<and> l = 16 \<or> ?d = ''Int32'' \<and> l = 32"
    | "?d \<notin> {''Bool'', ''Float32'', ''Double''}" "\<not> (?d = ''Int16'' \<and> l = 16 \<or> ?d = ''Int32'' \<and> l = 32)" by blast
  then show ?thesis
  proof cases
    case 2
    with s16 s32 assms(1,3) show ?thesis by (auto simp: has_type_def convert_value_def integer_range_def)
  next
    case 3
    then have "uint w < 2 ^ nat (TypeBitWidth ?d)"
      using assms(1,2) by (auto simp: GetRegisterCount_def TypeBitWidth_def split: if_splits)
    with assms(4) have "uint w \<in> {0 ..< 2 ^ nat (min l (TypeBitWidth ?d))}" by (simp add: min_def)
    moreover have "convert_value ?d l w = VFloat64 (f64_of_int (uint w))" using 3 by (auto simp: convert_value_def)
    ultimately show ?thesis using 3 assms(1,3) unfolding has_type_def integer_range_def by auto
  qed (use assms(1) in \<open>auto simp: has_type_def convert_value_def integer_range_def\<close>)
qed

lemma parse_point_has_type:
  assumes "parse_point bo (IsRegTypeBit (pc_RegType p)) start raw p = Got v"
  shows "has_type p v"
proof (cases "IsRegTypeBit (pc_RegType p)")
  case True
  with assms show ?thesis
    by (auto simp: parse_point_def parse_bit_point_def has_type_def Let_def split: if_splits)
next
  case False
  define off where "off = (pc_Address p - start) * 2"
  define need where "need = GetRegisterCount p * 2"
  define slice where "slice = take (unat (off + need) - unat off) (drop (unat off) raw)"
  from assms False have nopanic: "\<not> unat (off + need) < unat off"
    and v: "v = convert_value (pc_DataType p) (effective_len p)
      (extract_bits (raw_uint (applyGlobalByteOrder bo slice)) (pc_BitOffset p) (effective_len p))"
    by (simp_all add: parse_point_def parse_register_point_def Let_def off_def need_def slice_def split: if_splits)
  have "unat (GetRegisterCount p) * 2 < 2 ^ 16" using GetRegisterCount_bounds(2) [of p] by simp
  then have n: "unat need = 2 * unat (GetRegisterCount p)"
    unfolding need_def by (simp add: unat_mult_lem [THEN iffD1])
  have "unat (off + need) \<le> unat off + unat need" by (simp add: unat_word_ariths(1))
  then have "length slice \<le> 2 * unat (GetRegisterCount p)" by (simp add: slice_def n)
  then have "uint (raw_uint (applyGlobalByteOrder bo slice)) < 256 ^ (2 * unat (GetRegisterCount p))"
    using GetRegisterCount_bounds(2) [of p] by (intro raw_uint_bound) simp_all
  then have "uint (extract_bits (raw_uint (applyGlobalByteOrder bo slice)) (pc_BitOffset p) (effective_len p)) <
      256 ^ (2 * unat (GetRegisterCount p))"
    using extract_bits_bound le_less_trans by blast
  from convert_value_has_type [OF False this refl extract_bits_mask] show ?thesis unfolding v .
qed

section \<open>Everything a collector holds is typed\<close>

definition tag_typed :: "PointConfig list \<Rightarrow> string \<Rightarrow> anyval \<Rightarrow> bool" where
  "tag_typed pts tag v \<longleftrightarrow> (\<forall>p\<in>set pts. pc_TagName p = tag \<longrightarrow> has_type p v)"

definition map_typed :: "PointConfig list \<Rightarrow> (string \<rightharpoonup> anyval) \<Rightarrow> bool" where
  "map_typed pts m \<longleftrightarrow> (\<forall>tag v. m tag = Some v \<longrightarrow> tag_typed pts tag v)"

text \<open>The store, the live feed, the finished snapshots and the values of the scan under way.\<close>

definition collector_typed :: "PointConfig list \<Rightarrow> Collector \<Rightarrow> bool" where
  "collector_typed pts c \<longleftrightarrow>
     map_typed pts (udm_data (c_udm c)) \<and>
     list_all (\<lambda>(tag, v). tag_typed pts tag (v_Value v)) (c_published c) \<and>
     list_all (\<lambda>(m, t). map_typed pts m) (c_completed c) \<and>
     (\<forall>m. c_scanValues c = Some m \<longrightarrow> map_typed pts m)"

lemma map_typed_upd: "map_typed pts m \<Longrightarrow> tag_typed pts tag v \<Longrightarrow> map_typed pts (m(tag \<mapsto> v))"
  by (simp add: map_typed_def)

lemma map_typed_empty: "map_typed pts Map.empty"
  by (simp add: map_typed_def)

lemma updateValue_typed:
  "collector_typed pts c \<Longrightarrow> tag_typed pts tag v \<Longrightarrow> collector_typed pts (updateValue now tag v c)"
  by (auto simp: collector_typed_def map_typed_upd udm_UpdateAt_def)

text \<open>The points of a batch read all have the register type under which it is read.\<close>

definition chunk_of :: "PointConfig list \<Rightarrow> ReadChunk \<Rightarrow> bool" where
  "chunk_of pts ch \<longleftrightarrow> set (rc_Points ch) \<subseteq> set pts \<and>
     (\<forall>p\<in>set (rc_Points ch). pc_RegType p = pc_RegType (hd (rc_Points ch)))"

lemma update_points_typed:
  assumes "distinct (map pc_TagName pts)" "update_points now isBit start raw ps c = Some c'" "collector_typed pts c"
    and "set ps \<subseteq> set pts" "\<forall>p\<in>set ps. IsRegTypeBit (pc_RegType p) = isBit"
  shows "collector_typed pts c'"
  using assms(2-)
proof (induction ps arbitrary: c)
  case (Cons p ps)
  show ?case
  proof (cases "parse_point (c_byteOrder c) isBit start raw p")
    case (Got v)
    then have "has_type p v" using Cons.prems(4) parse_point_has_type [of "c_byteOrder c" p start raw v] by simp
    moreover have "q = p" if "q \<in> set pts" "pc_TagName q = pc_TagName p" for q
      using assms(1) that Cons.prems(3) by (auto simp: distinct_map inj_on_def)
    ultimately have "tag_typed pts (pc_TagName p) v" by (auto simp: tag_typed_def)
    with Cons Got show ?thesis by (simp add: updateValue_typed)
  qed (use Cons in auto)
qed simp

lemma scan_chunk_typed:
  assumes "distinct (map pc_TagName pts)" "chunk_of pts ch" "collector_typed pts c"
  shows "(case scan_chunk now client ch c of
      Continue c' \<Rightarrow> collector_typed pts c' | Abort c' \<Rightarrow> collector_typed pts c' | ScanPanic \<Rightarrow> True)"
proof -
  have "collector_typed pts c'" if parsed: "parseAndUpdate now ch raw (c\<lparr>c_requests := rqs\<rparr>) = Some c'" for raw rqs c'
  proof -
    obtain p0 ps where ps: "rc_Points ch = p0 # ps" using parsed by (auto simp: parseAndUpdate_def split: list.splits)
    have "collector_typed pts (c\<lparr>c_requests := rqs\<rparr>)" using assms(3) by (simp add: collector_typed_def)
    have "update_points now (IsRegTypeBit (pc_RegType p0)) (rc_StartAddr ch) raw (rc_Points ch) (c\<lparr>c_requests := rqs\<rparr>) = Some c'"
      using parsed by (simp add: parseAndUpdate_def ps)
    from update_points_typed [OF assms(1) this \<open>collector_typed pts (c\<lparr>c_requests := rqs\<rparr>)\<close>] assms(2)
    show ?thesis by (simp add: chunk_of_def ps)
  qed
  moreover have "collector_typed pts (c\<lparr>c_requests := rqs, c_reconnects := n, c_scanValues := None\<rparr>)" for rqs n
    using assms(3) by (simp add: collector_typed_def)
  ultimately show ?thesis using assms(3)
    by (auto simp: scan_chunk_def Let_def split: list.split option.split sum.split)
qed

lemma scan_chunks_typed:
  assumes "distinct (map pc_TagName pts)" "\<forall>ch\<in>set chs. chunk_of pts ch" "collector_typed pts c"
  shows "(case scan_chunks now client chs c of
      Continue c' \<Rightarrow> collector_typed pts c' | Abort c' \<Rightarrow> collector_typed pts c' | ScanPanic \<Rightarrow> True)"
  using assms(2,3)
proof (induction chs arbitrary: c)
  case (Cons ch chs)
  have step: "case scan_chunk now client ch c of
      Continue c' \<Rightarrow> collector_typed pts c' | Abort c' \<Rightarrow> collector_typed pts c' | ScanPanic \<Rightarrow> True"
    using Cons.prems by (intro scan_chunk_typed [OF assms(1)]) simp_all
  show ?case
  proof (cases "scan_chunk now client ch c")
    case (Continue c')
    with step Cons.IH [of c'] Cons.prems show ?thesis by simp
  qed (use step in simp_all)
qed simp

lemma completeScan_typed:
  assumes "collector_typed pts c"
  shows "collector_typed pts (completeScan now (case c_scanValues c of None \<Rightarrow> Map.empty | Some v \<Rightarrow> v)
    (c\<lparr>c_scanValues := None\<rparr>))"
proof -
  have "map_typed pts (case c_scanValues c of None \<Rightarrow> Map.empty | Some v \<Rightarrow> v)"
    using assms by (simp add: collector_typed_def map_typed_empty split: option.split)
  with assms show ?thesis by (simp add: completeScan_def collector_typed_def)
qed

lemma optimized_chunks:
  assumes "slice_sort srt" "ch \<in> set (chunks_in_order (OptimizeChunks srt pts) keys)"
  shows "chunk_of pts ch"
proof -
  from assms(2) obtain key chunks where "OptimizeChunks srt pts key = Some chunks" "ch \<in> set chunks"
    by (auto simp: chunks_in_order_def split: option.splits) metis
  then have "set (rc_Points ch) \<subseteq> {p \<in> set pts. pc_RegType p = key}"
    using point_sort.optimize_points_set [OF point_sort.intro [OF assms(1)]] by blast
  then have "p \<in> set pts \<and> pc_RegType p = key" if "p \<in> set (rc_Points ch)" for p using that by auto
  then show ?thesis unfolding chunk_of_def by (metis hd_in_set empty_iff list.set(1) subsetI)
qed

section \<open>Properties\<close>

text \<open>
  C19: values keep the type of their point. For a collector on the merged reads of points with distinct
  tags, a scan, whatever the device answers and whether it completes or fails, keeps the store, the
  live feed and the snapshots typed: a bit or \<open>Bool\<close> point holds a Boolean, a \<open>Float32\<close> point the
  image of a 32-bit float and a \<open>Double\<close> point a 64-bit float. An integer point holds an integer: a
  whole \<open>Int16\<close> one in \<open>-2^15 .. 2^15 - 1\<close> and a whole \<open>Int32\<close> one in \<open>-2^31 .. 2^31 - 1\<close>, an
  unsigned point or a bit field of \<open>l\<close> bits one in \<open>0 .. 2^l - 1\<close>.
\<close>

theorem scan_keeps_types:
  assumes "slice_sort srt" "distinct (map pc_TagName pts)" "c_chunks c = OptimizeChunks srt pts"
    and "collector_typed pts c" "scanOnce now conn keys c = Some c'"
  shows "collector_typed pts c'"
proof (cases conn)
  case None
  with assms(4,5) show ?thesis by (simp add: scanOnce_def)
next
  case (Some client)
  let ?c0 = "c\<lparr>c_scanValues := Some Map.empty\<rparr>"
  have "collector_typed pts ?c0" using assms(4) by (simp add: collector_typed_def map_typed_empty)
  then have "(case scan_chunks now client (chunks_in_order (c_chunks c) keys) ?c0 of
      Continue c' \<Rightarrow> collector_typed pts c' | Abort c' \<Rightarrow> collector_typed pts c' | ScanPanic \<Rightarrow> True)"
    using optimized_chunks [OF assms(1)] by (intro scan_chunks_typed [OF assms(2)]) (simp_all add: assms(3))
  with assms(5) Some show ?thesis
    using completeScan_typed by (auto simp: scanOnce_def split: scan_result.splits)
qed

section \<open>Witnesses\<close>

text \<open>A signed and an unsigned point over two registers that both hold \<open>0xEA60\<close>.\<close>

definition signed_points :: "PointConfig list" where
  "signed_points = [sample_point ''n'' 0 ''Int16'', sample_point ''m'' 1 ''UInt16'']"

definition signed_collector :: Collector where
  "signed_collector = sample_collector\<lparr>c_chunks := OptimizeChunks insertion_sort signed_points\<rparr>"

definition signed_device :: client where
  "signed_device n rq = Inr [0xEA, 0x60, 0xEA, 0x60]"

lemma signed_optimize:
  "OptimizeChunks insertion_sort signed_points ''HoldingReg'' =
     Some [\<lparr>rc_StartAddr = 0, rc_Quantity = 2, rc_Points = signed_points\<rparr>]"
proof -
  have "GetRegisterCount (sample_point t a ''Int16'') = 1" for t a
    by (simp add: GetRegisterCount_def IsRegTypeBit_def)
  then show ?thesis
    by (simp add: OptimizeChunks_def group_points_eq key_chunks_def signed_points_def sample_max_qty
        insertion_sort_def close_chunk_def open_chunk_def end_addr_def)
qed

lemma signed_order:
  "chunks_in_order (c_chunks signed_collector) [''HoldingReg''] =
     [\<lparr>rc_StartAddr = 0, rc_Quantity = 2, rc_Points = signed_points\<rparr>]"
  by (simp add: chunks_in_order_def signed_collector_def signed_optimize)

lemma signed_len [simp]: "effective_len (sample_point t a ''Int16'') = 16"
  by (simp add: effective_len_def sample_point_def TypeBitWidth_def Let_def)

lemma signed_values:
  "parse_point ''ABCD'' False 0 [0xEA, 0x60, 0xEA, 0x60] (sample_point ''n'' 0 ''Int16'') = Got (VFloat64 (f64_of_int (- 5536)))"
  "parse_point ''ABCD'' False 0 [0xEA, 0x60, 0xEA, 0x60] (sample_point ''m'' (Suc 0) ''UInt16'') = Got (VFloat64 (f64_of_int 60000))"
  by (simp_all add: parse_point_def parse_register_point_def Let_def GetRegisterCount_def IsRegTypeBit_def
    convert_value_def applyGlobalByteOrder_def raw_uint_def be_nat_def extract_bits_def)

lemma signed_scan:
  "\<exists>c'. scanOnce int (Some signed_device) [''HoldingReg''] signed_collector = Some c' \<and>
    udm_data (c_udm c') ''n'' = Some (VFloat64 (f64_of_int (- 5536))) \<and>
    udm_data (c_udm c') ''m'' = Some (VFloat64 (f64_of_int 60000))"
  unfolding scanOnce_def signed_order
  by (simp add: signed_collector_def signed_points_def scan_chunk_def read_request_def signed_device_def parseAndUpdate_def signed_values IsRegTypeBit_def
      sample_collector_def completeScan_def updateValue_def udm_UpdateAt_def Let_def)

theorem scan_keeps_types_witness:
  "\<exists>c'. scanOnce int (Some signed_device) [''HoldingReg''] signed_collector = Some c' \<and>
    collector_typed signed_points c' \<and>
    udm_data (c_udm c') ''n'' = Some (VFloat64 (f64_of_int (- 5536))) \<and>
    udm_data (c_udm c') ''m'' = Some (VFloat64 (f64_of_int 60000))"
proof -
  have t: "collector_typed signed_points signed_collector"
    by (simp add: collector_typed_def signed_collector_def sample_collector_def udm_New_def map_typed_empty)
  have d: "distinct (map pc_TagName signed_points)" by (simp add: signed_points_def)
  have c: "c_chunks signed_collector = OptimizeChunks insertion_sort signed_points" by (simp add: signed_collector_def)
  show ?thesis
    using signed_scan scan_keeps_types [OF go_sort.slice_sort_axioms d c t] by blast
qed

end
