(* ===== verification/Spec2Isabelle.thy ===== *)
theory Spec2Isabelle
  imports Runner PointsFile KafkaManager KafkaProducer HttpApi WebSocket WebFiles Command Boot Router Logging Typing
begin

text \<open>
  A verification development for \<open>modbus-scan\<close>, a Go service that polls Modbus devices, keeps the
  collected values, publishes them to Kafka and to WebSocket clients, and is administered through an
  HTTP interface over a SQLite store. Everything here is translated from the Go sources under
  \<open>src/\<close>; each definition keeps the name of the Go function, with a prefix where several parts use
  the same one.

  The program and its parts. Devices and points are administered through \<open>internal/httpapi\<close>, which
  calls \<open>internal/service\<close>, which validates and calls \<open>internal/store\<close>. Starting a device goes from
  the service to the lifecycle manager \<open>internal/runtime\<close>, which loads device and points from the store
  and lets the factory of \<open>internal/collector\<close> make a runner. The runner connects, scans, decodes and
  stores values, hands every value to the hub of \<open>internal/realtime\<close>, from which WebSocket connections
  receive it, and every finished scan to the coordinator of \<open>internal/kafkapub\<close>, whose queue the Kafka
  manager's worker empties into a producer.

  Which theory models which part:
  \<^item> \<open>Prelude\<close>, \<open>GoStrings\<close>, \<open>GoFloat\<close>, \<open>GoSort\<close>: error values, byte strings and the functions of
    \<open>strings\<close> and \<open>strconv\<close> that the program uses, IEEE-754 numbers as 64-bit words, and \<open>sort.Slice\<close> as
    the locale \<open>slice_sort\<close> (any permutation into order, so an unstable sort), with insertion sort as its
    instance. \<open>Prelude\<close> has the locale \<open>kept_by_steps\<close> of what every history of steps keeps; the store, the
    services, the Kafka manager, the WebSocket and the running program interpret it.
  \<^item> \<open>DataModel\<close>: \<open>internal/model\<close>, the persisted records.
  \<^item> \<open>PointConfig\<close>, \<open>ReadChunks\<close>, \<open>PointsFile\<close>, \<open>DeviceConfig\<close>: \<open>internal/config\<close>: validation of points, merging
    of points into batch reads (16-bit words, so wrap-around is visible), point files and TOML devices.
  \<^item> \<open>GoCsv\<close>, \<open>PointCsv\<close>: the reader and writer of \<open>encoding/csv\<close> on bytes (interface: locale
    \<open>record_format\<close>), and \<open>internal/pointcsv\<close>, import and export of point tables.
  \<^item> \<open>Udm\<close>, \<open>Decode\<close>, \<open>Collector\<close>, \<open>Typing\<close>, \<open>ConnManager\<close>, \<open>Runner\<close>: \<open>internal/udm\<close> and \<open>internal/collector\<close>: the
    value store (locale \<open>value_store\<close>), decoding of register bytes, the scan and the write, the types of
    values, the connection manager with its reconnection and breaker, and the runner of a device.
  \<^item> \<open>RuntimeManager\<close>: \<open>internal/runtime\<close>, starting, stopping and restarting devices.
  \<^item> \<open>MessageQueue\<close>, \<open>Coordinator\<close>, \<open>KafkaConfig\<close>, \<open>KafkaProducer\<close>, \<open>KafkaManager\<close>: \<open>internal/kafkapub\<close>: the ring
    buffer (locale \<open>bounded_queue\<close>), the publishing policies, the settings, the producer's
    configuration and the life of the producer and its worker.
  \<^item> \<open>Hub\<close>, \<open>WebSocket\<close>: \<open>internal/realtime\<close> and the WebSocket connection of \<open>internal/httpapi\<close>.
  \<^item> \<open>Store\<close>, \<open>StoreInv\<close>, \<open>StoreErrors\<close>, \<open>Services\<close>: \<open>internal/store\<close> and \<open>internal/service\<close>.
  \<^item> \<open>HttpApi\<close>, \<open>WebFiles\<close>, \<open>Router\<close>: the handlers of the JSON interface, the embedded web pages, and the
    table of routes with the server around them.
  \<^item> \<open>AppConfig\<close>, \<open>Logging\<close>, \<open>WinService\<close>, \<open>Command\<close>, \<open>Boot\<close>: \<open>internal/appconfig\<close>, \<open>internal/logging\<close>,
    \<open>internal/winservice\<close> and \<open>cmd/modbus-scan\<close>: configuration and logger of the process, the Windows
    service, the command line, and how the parts are started and stopped.
  \<^item> This theory: the properties that span the parts.

  How code is modelled. A Go struct is a record, a function a HOL function, an error a constructor of an
  error type or \<open>Inl\<close>, a panic a branch of its own. Fixed-width integers that can wrap are words; an
  \<open>int\<close> that cannot leave its range is an integer. A Go map is a partial function, or an association
  list where its order is observable; the order of ranging over a map is a parameter. A section that
  holds a lock is one step; concurrent parts (queue, hub, lifecycle manager, connection manager, Kafka
  manager, WebSocket connection) are step relations over every interleaving of such sections. Three
  remarks on the size of steps: in the connection manager the atomic stores between two waits are taken
  together; a publishing by the hub is the uninterrupted run, with single deliveries beside it as steps
  that may come at any time; a policy update (\<open>Boot\<close>) is two steps, the saving and the handing over
  to the coordinator, while the service calls themselves are taken one at a time.

  Parameters. Third-party code and the outside world are arguments: the Modbus client and its answers,
  the clock, SQLite errors and the stored encoding of the brokers (the record \<open>Env\<close>: a fault for each
  statement), Sarama, the TOML and JSON decoders, Unicode case folding outside ASCII, the
  path functions of the platform (with the Unix ones as instance), Windows' service control manager.
  Hypotheses on them are named in the statements; each property with hypotheses has a witness.

  What the lemmas show. For each part: the invariant of its state under every operation (\<open>hub_wf\<close>,
  \<open>mq_wf\<close>, \<open>store_inv\<close>, the invariants of the step relations), the exact effect of its operations on
  every branch, refinement of a simpler description (the queue by a bounded list, the scan by a list of
  writes, an uninterrupted \<open>ApplySettings\<close> by a function, store calls by \<open>effect\<close>), round trips (export
  and import, created devices), liveness as possibility (from every reachable state the good step can
  still be made), and where the code falls short, a lemma that exhibits it, with the property beside it
  naming the case it leaves out (a writeable discrete input in \<open>ValidatePoint_exact\<close>, a closed producer
  still in use in \<open>queued_message_is_sent\<close>, a producer given up in \<open>producers_accounted\<close>, an overtaken or
  unread policy in \<open>live_policies_match_store\<close>, a blocked reader after \<open>replies_get_through\<close>, a carriage
  return in \<open>export_import_roundtrip\<close>). The properties here compose
  them: from validated and stored points to the published values, from configuration changes to what a
  running collector uses.

  Bounds and fuel. No function takes fuel. Recursion that is not structural has a termination proof by a
  measure (\<open>ReconnectWithBackoff\<close> counts attempts up to ten; flag parsing, trimming and the CSV
  reader, over several lines of a field, shorten their input). The one loop that may run for ever, \<open>waitForState\<close>, is a \<open>partial_function\<close> on options, and its
  property says exactly when it ends. Tickers are modelled by their turn.

  Not modelled: the text of log lines and of Chinese messages, the position in a CSV syntax error, JSON
  encoding, Gin beyond the choice of a route, the frames of WebSocket, SQL as text (each
  statement is its effect on the tables), and the stubs of other systems for the Windows service. They
  are libraries that the sources only call, or pure output.
\<close>

section \<open>Configuration changes and running collectors\<close>

lemma loaded_config:
  "loaded d = loaded d' \<Longrightarrow> runner_config d = runner_config d'"
  by (simp add: loaded_def runner_config_def)

text \<open>
  C8: a collector that was started with the device row of one moment and the points of a later
  one, and whose snapshot does not say that a configuration change is pending, runs the
  configuration that is stored now: the same connection settings and the same points, however many
  calls of the store came in between, before and after.
\<close>

theorem config_never_stale:
  assumes "store_inv db0" "db_step\<^sup>*\<^sup>* db0 db1" "db_step\<^sup>*\<^sup>* db1 db2"
    and "device_row i db0 = Some device" "device_row i db2 = Some current"
    and "dr_loadedConfigVersion (rm_entry i m) = d_ConfigVersion device"
    and "rm_Snapshot i (Inr current) values_of m = Inr sn" "\<not> sn_ConfigPending sn"
  shows "runner_config current = runner_config device \<and> points_of i db2 = points_of i db1 \<and>
    points_of i db1 = points_of i db0"
proof -
  have inv1: "store_inv db1" by (rule steps_inv [OF assms(2,1)])
  have k1: "kept_or_newer i db0 db1" and k2: "kept_or_newer i db1 db2"
    using steps_kept [OF assms(2,1)] steps_kept [OF assms(3) inv1] by blast+
  have b: "i \<le> db_device_seq db0" "1 \<le> d_ConfigVersion device"
    using device_row_bound [OF assms(1,4)] by simp_all
  have "device_row i db1 \<noteq> None"
    using k1 k2 b(1) assms(5) unfolding kept_or_newer_def by (metis option.distinct(1) order_trans)
  then obtain mid where mid: "device_row i db1 = Some mid" by blast
  have 1: "d_ConfigVersion device < d_ConfigVersion mid \<or> d_ConfigVersion device = d_ConfigVersion mid \<and>
      loaded device = loaded mid \<and> points_of i db0 = points_of i db1"
    using k1 assms(4) mid unfolding kept_or_newer_def by blast
  have 2: "d_ConfigVersion mid < d_ConfigVersion current \<or> d_ConfigVersion mid = d_ConfigVersion current \<and>
      loaded mid = loaded current \<and> points_of i db1 = points_of i db2"
    using k2 assms(5) mid unfolding kept_or_newer_def by blast
  have "d_ConfigVersion current = d_ConfigVersion device"
    using assms(6-8) b(2) by (auto simp: rm_Snapshot_def Let_def)
  moreover have "d_ConfigVersion device \<le> d_ConfigVersion mid" using 1 by linarith
  moreover have "d_ConfigVersion mid \<le> d_ConfigVersion current" using 2 by linarith
  ultimately have "\<not> d_ConfigVersion device < d_ConfigVersion mid" "\<not> d_ConfigVersion mid < d_ConfigVersion current"
    by linarith+
  with 1 2 have "loaded current = loaded device" "points_of i db2 = points_of i db1" "points_of i db1 = points_of i db0"
    by simp_all
  then show ?thesis using loaded_config by blast
qed

section \<open>From the services to the publisher\<close>

text \<open>
  C1: the whole way. For a device that the services configured, in any history of calls and
  failures, the runner that the factory makes of the stored rows delivers in one scan of a serving
  device, in whatever order maps are walked, every stored point and nothing else, each with the
  value that its own registers hold, and hands them to the publisher.
\<close>

theorem configured_points_reach_publisher:
  assumes hist: "history db" and size: "length (db_points db) < 2 ^ 63"
    and dev: "device_row i db = Some device" and pts: "ListAllPoints env 0 i db = Inr points"
    and fac: "factory_New True device points = Inr r" and srt: "slice_sort srt"
    and keys: "distinct keys" "set keys = dom (c_chunks (runner_collector srt uni r))"
    and srv: "serves regs coils client" and order: "\<And>m. finite (dom m) \<Longrightarrow> map_of (order m) = m"
  shows "\<exists>c' completed snapshot.
    scanOnce now (Some client) keys (runner_collector srt uni r) = Some c' \<and> c_reconnects c' = 0 \<and>
    c_completed c' = [completed] \<and> publishSnapshot order r (c_udm c') completed = Some snapshot \<and>
    ss_DeviceID snapshot = i \<and>
    dom (map_of (ss_SuccessfulValues snapshot)) = p_TagName ` set (points_of i db) \<and>
    (\<forall>p\<in>set (points_of i db). \<exists>v.
       point_value regs coils (ToUpper uni (d_ByteOrder device)) (configured p) = Got v \<and>
       map_of (ss_SuccessfulValues snapshot) (p_TagName p) = Some v \<and>
       map_of (ss_CurrentValues snapshot) (p_TagName p) = Some v)"
proof -
  have m: "mset points = mset (points_of i db)" by (rule ListAllPoints_Inr [OF pts size])
  then have s: "set points = set (points_of i db)" by (metis set_mset_mset)
  have valid: "\<forall>p\<in>set points. ValidatePoint p = []"
    using services_valid_points [OF hist] mem_points_of by (fastforce simp: s)
  have tags: "distinct (map p_TagName points)"
    using points_of_tags history_inv(1) [OF hist] m by (metis mset_eq_imp_distinct_iff mset_map store_inv_def)
  have id: "d_ID device = i" using device_row_mem [OF dev] by simp
  from delivery [OF srt fac valid tags keys srv order] show ?thesis by (simp add: s id)
qed

section \<open>Witnesses\<close>

definition enabled_db :: Db where
  "enabled_db = snd (SetDeviceEnabled quiet 1 True plc_db)"

theorem config_never_stale_witness:
  "\<exists>device current m sn. device_row 1 plc_db = Some device \<and> device_row 1 enabled_db = Some current \<and>
     rm_Snapshot 1 (Inr current) (\<lambda>_. Map.empty) m = Inr sn \<and> \<not> sn_ConfigPending sn \<and>
     runner_config current = runner_config device \<and> points_of 1 enabled_db = points_of 1 plc_db"
proof -
  obtain device where row: "device_row 1 plc_db = Some device" using plc_row by blast
  have call: "SetDeviceEnabled quiet 1 True plc_db = (fst (SetDeviceEnabled quiet 1 True plc_db), enabled_db)"
    by (simp add: enabled_db_def)
  then have step: "db_step\<^sup>*\<^sup>* plc_db enabled_db" by (rule r_into_rtranclp [of db_step, OF db_step.SetDeviceEnabled])
  obtain current where cur: "device_row 1 enabled_db = Some current" "d_ConfigVersion current = d_ConfigVersion device"
    using row by (auto simp: enabled_db_def SetDeviceEnabled_def transaction_def exec_def quiet_def
        update_devices_def plc_db_eq opened_db_def empty_db_def device_row_def plc_def)
  let ?m = "set_entry 1 (new_entry\<lparr>dr_loadedConfigVersion := d_ConfigVersion device\<rparr>) NewManager"
  obtain sn where sn: "rm_Snapshot 1 (Inr current) (\<lambda>_. Map.empty) ?m = Inr sn" "\<not> sn_ConfigPending sn"
    by (simp add: rm_Snapshot_def Let_def cur(2))
  from config_never_stale [OF plc_db_inv rtranclp.rtrancl_refl step row cur(1) _ sn] row cur(1) sn
  show ?thesis by auto
qed

theorem configured_points_reach_publisher_witness:
  "\<exists>r c' completed. scanOnce int (Some (memory_client (\<lambda>_ _. 7) (\<lambda>_ _. False))) [''HoldingReg'']
     (runner_collector insertion_sort (\<lambda>s. s) r) = Some c' \<and> c_completed c' = [completed]"
proof -
  obtain device where row: "device_row 1 temperature_db = Some device" using temperature_device by blast
  obtain points where pts: "ListAllPoints quiet 0 1 temperature_db = Inr points"
    by (simp add: ListAllPoints_def ListPoints_def exec_def quiet_def)
  have size: "length (db_points temperature_db) < 2 ^ 63" by (simp add: temperature_replace(3))
  have s: "set points = set (points_of 1 temperature_db)"
    using ListAllPoints_Inr [OF pts size] by (metis set_mset_mset)
  have "points \<noteq> []" using s temperature_replace(2) by auto
  then obtain r where r: "factory_New True device points = Inr r" and rp: "rr_points r = points"
    by (simp add: factory_New_def)
  obtain p where "p \<in> set (points_of 1 temperature_db)" using temperature_replace(2) by fastforce
  with temperature_portable have "p_RegType ` set (points_of 1 temperature_db) = {''HoldingReg''}"
    by (intro equalityI image_subsetI) (simp, metis empty_subsetI image_eqI insert_subset)
  then have keys: "set [''HoldingReg''] = dom (c_chunks (runner_collector insertion_sort (\<lambda>s. s) r))"
    by (simp add: OptimizeChunks_dom rp s image_image)
  note serves = memory_client_serves [of "\<lambda>_ _. 7" "\<lambda>_ _. False"]
  from configured_points_reach_publisher [OF temperature_history size row pts r go_sort.slice_sort_axioms _ keys
      serves map_of_map_items, where now = int]
  show ?thesis by simp blast
qed

end
